(* ===== verification/Applet_Ports.thy ===== *)
theory Applet_Ports
  imports Prelude
begin

text \<open>
  The infrastructure ports of the applet kernel, \<^verbatim>\<open>packages/applet-kernel/src/ports.ts\<close>: the
  structured logger, the audit sink, the permission decision and the dispatch result.  Logger and
  sink are outside the kernel; what the kernel hands them is kept as the list of entries, in order,
  so that theorems can speak about what is logged and what is audited.
\<close>

datatype log_level = LDebug | LInfo | LWarn | LError

datatype log_value = LStr string | LNum int | LList "string list"

record log_entry =
  lg_level :: log_level
  lg_message :: string
  lg_context :: "(string \<times> log_value) list"

definition log_line :: "log_level \<Rightarrow> string \<Rightarrow> (string \<times> log_value) list \<Rightarrow> log_entry" where
  "log_line level message context =
     \<lparr>lg_level = level, lg_message = message, lg_context = context\<rparr>"

datatype denial = PERMISSION_DENIED | POLICY_DENIED

record permission_decision =
  granted :: bool
  reason :: "denial option"

record audit_entry =
  au_appletId :: string
  au_instanceId :: string
  au_method :: string
  au_granted :: bool
  au_timestamp :: int
  au_reason :: "denial option"

end
