(* ===== verification/Applet_Permission.thy ===== *)
theory Applet_Permission
  imports Applet_Ports
begin

text \<open>
  Capability methods (\<^verbatim>\<open>packages/applet-contract/src/capability.ts\<close>) and the permission
  manager of the applet kernel (\<^verbatim>\<open>packages/applet-kernel/src/permission-manager.ts\<close>).  The
  manager's state is its map from instance ids to granted method sets, together with what it has
  handed to the audit sink and to the logger.  An abstract specification reads the decision off the
  history of calls; the manager refines it.
\<close>

section \<open>Capability methods\<close>

definition CapabilityMethods :: "string list" where
  "CapabilityMethods =
    [''app.getContext'', ''app.getLaunchOptions'', ''lifecycle.onReady'', ''lifecycle.reportReady'',
     ''lifecycle.onShow'', ''lifecycle.onHide'', ''lifecycle.onPause'', ''lifecycle.onResume'',
     ''lifecycle.onDestroy'', ''lifecycle.destroy'', ''navigation.openApplet'',
     ''navigation.closeApplet'', ''navigation.navigateTo'', ''navigation.redirectTo'',
     ''navigation.back'', ''network.request'', ''network.upload'', ''network.download'',
     ''storage.get'', ''storage.set'', ''storage.remove'', ''storage.clear'', ''storage.keys'',
     ''storage.getInfo'', ''config.get'', ''system.getInfo'', ''system.getTheme'',
     ''system.getNetworkType'', ''ui.showToast'', ''ui.showLoading'', ''ui.hideLoading'',
     ''ui.showModal'', ''ui.showActionSheet'', ''ui.setNavigationBar'', ''device.getSafeArea'',
     ''device.getWindowInfo'', ''device.vibrate'', ''clipboard.getText'', ''clipboard.setText'',
     ''file.read'', ''file.write'', ''file.delete'', ''file.list'', ''file.getInfo'',
     ''events.emit'', ''events.subscribe'', ''events.unsubscribe'', ''events.poll'',
     ''skills.register'', ''skills.list'', ''skills.invoke'', ''tasks.start'', ''tasks.get'',
     ''tasks.cancel'', ''agent.startSession'', ''agent.send'', ''agent.stream'',
     ''atelier.workspace.load'', ''atelier.project.createFromGoal'', ''atelier.message.send'',
     ''atelier.escalation.resolve'', ''atelier.task.setStatus'', ''atelier.task.purge'',
     ''atelier.provider.capabilities'', ''atelier.feedback.submit'',
     ''atelier.memory.confirmCandidate'', ''atelier.feedback.confirmRerun'',
     ''atelier.workspace.open'', ''atelier.artifact.body.fetch'',
     ''atelier.artifact.preview.open'', ''atelier.events.subscribe'', ''ai.generate'', ''ai.chat'',
     ''telemetry.track'', ''telemetry.reportError'', ''telemetry.mark'']"

definition isCapabilityMethod :: "string \<Rightarrow> bool" where
  "isCapabilityMethod value \<longleftrightarrow> value \<in> set CapabilityMethods"

section \<open>The permission manager\<close>

record permission_state =
  grants :: "(string, string list) jsmap"
  audit :: "audit_entry list"
  perm_log :: "log_entry list"

definition init_permissions :: permission_state where
  "init_permissions = \<lparr>grants = [], audit = [], perm_log = []\<rparr>"

definition registerGrants ::
  "string \<Rightarrow> string list \<Rightarrow> permission_state \<Rightarrow> permission_state" where
  "registerGrants i permissions s =
     (let allowed = set_of_list (filter isCapabilityMethod permissions);
          invalid = filter (\<lambda>p. \<not> isCapabilityMethod p) permissions
      in s\<lparr>grants := map_set i allowed (grants s),
           perm_log := perm_log s
             @ (if invalid \<noteq> [] then
                  [log_line LWarn ''ignored unknown permission identifiers''
                     [(''instanceId'', LStr i), (''invalid'', LList invalid)]]
                else [])
             @ [log_line LDebug ''registered grants''
                  [(''instanceId'', LStr i), (''grantedCount'', LNum (int (length allowed)))]]\<rparr>)"

definition evaluate :: "permission_state \<Rightarrow> string \<Rightarrow> string \<Rightarrow> permission_decision" where
  "evaluate s i meth =
     (if \<not> isCapabilityMethod meth then \<lparr>granted = False, reason = Some POLICY_DENIED\<rparr>
      else (case map_get (grants s) i of
              None \<Rightarrow> \<lparr>granted = False, reason = Some PERMISSION_DENIED\<rparr>
            | Some ms \<Rightarrow>
                if meth \<notin> set ms then \<lparr>granted = False, reason = Some PERMISSION_DENIED\<rparr>
                else \<lparr>granted = True, reason = None\<rparr>))"

definition check ::
  "int \<Rightarrow> string \<Rightarrow> string \<Rightarrow> string \<Rightarrow> permission_state
     \<Rightarrow> permission_decision \<times> permission_state" where
  "check now i app meth s =
     (let decision = evaluate s i meth
      in (decision,
          s\<lparr>audit := audit s @
              [\<lparr>au_appletId = app, au_instanceId = i, au_method = meth,
                au_granted = granted decision, au_timestamp = now,
                au_reason = reason decision\<rparr>]\<rparr>))"

definition revokeAll :: "string \<Rightarrow> permission_state \<Rightarrow> permission_state" where
  "revokeAll i s =
     s\<lparr>grants := map_del i (grants s),
       perm_log := perm_log s @ [log_line LDebug ''revoked all grants'' [(''instanceId'', LStr i)]]\<rparr>"

lemmas permission_defs =
  registerGrants_def evaluate_def check_def revokeAll_def init_permissions_def Let_def

section \<open>Histories\<close>

datatype perm_call =
    Register string "string list"
  | Check int string string string
  | Revoke string

fun perm_step :: "perm_call \<Rightarrow> permission_state \<Rightarrow> permission_state" where
  "perm_step (Register i ps) s = registerGrants i ps s"
| "perm_step (Check now i app meth) s = snd (check now i app meth s)"
| "perm_step (Revoke i) s = revokeAll i s"

definition perm_run :: "perm_call list \<Rightarrow> permission_state" where
  "perm_run calls = fold perm_step calls init_permissions"

text \<open>
  The specification: what an instance may call is decided by the last call that registered or
  revoked its grants.
\<close>

fun last_grants :: "string \<Rightarrow> perm_call list \<Rightarrow> string list option" where
  "last_grants i [] = None"
| "last_grants i (Register j ps # later) =
     (if j = i then Some ps else last_grants i later)"
| "last_grants i (Revoke j # later) = (if j = i then None else last_grants i later)"
| "last_grants i (Check _ _ _ _ # later) = last_grants i later"

definition may_call :: "perm_call list \<Rightarrow> string \<Rightarrow> string \<Rightarrow> bool" where
  "may_call calls i meth \<longleftrightarrow>
     isCapabilityMethod meth
     \<and> (case last_grants i (rev calls) of None \<Rightarrow> False | Some ps \<Rightarrow> meth \<in> set ps)"

fun is_check :: "perm_call \<Rightarrow> bool" where
  "is_check (Check _ _ _ _) = True"
| "is_check _ = False"

lemma perm_run_snoc: "perm_run (calls @ [c]) = perm_step c (perm_run calls)"
  by (simp add: perm_run_def)

lemma grants_perm_run:
  "map_option set (map_get (grants (perm_run calls)) i) =
     map_option (\<lambda>ps. {p \<in> set ps. isCapabilityMethod p}) (last_grants i (rev calls))"
proof (induction calls rule: rev_induct)
  case Nil
  then show ?case by (simp add: perm_run_def init_permissions_def)
next
  case (snoc c calls)
  then show ?case by (cases c) (auto simp: perm_run_snoc permission_defs)
qed

lemma evaluate_granted:
  "granted (evaluate s i meth) \<longleftrightarrow>
     isCapabilityMethod meth \<and> (\<exists>ms. map_get (grants s) i = Some ms \<and> meth \<in> set ms)"
  by (simp add: evaluate_def split: option.split)

lemma evaluate_reason:
  "reason (evaluate s i meth) =
     (if granted (evaluate s i meth) then None
      else if isCapabilityMethod meth then Some PERMISSION_DENIED else Some POLICY_DENIED)"
  by (simp add: evaluate_def split: option.split)

lemma evaluate_may_call: "granted (evaluate (perm_run calls) i meth) \<longleftrightarrow> may_call calls i meth"
  using grants_perm_run [of calls i]
  by (auto simp: evaluate_granted may_call_def split: option.splits)

text \<open>
  C15. The permission manager decides by the history: after any sequence of registrations, checks
  and revocations, a check is granted exactly when the method is a capability of the contract and
  the last registration of the instance, not revoked since, lists it; an unknown method is refused
  as a policy violation and any other refusal is a permission denial.
\<close>

theorem check_decides_by_history:
  "fst (check now i app meth (perm_run calls)) =
     (if may_call calls i meth then \<lparr>granted = True, reason = None\<rparr>
      else if isCapabilityMethod meth then \<lparr>granted = False, reason = Some PERMISSION_DENIED\<rparr>
      else \<lparr>granted = False, reason = Some POLICY_DENIED\<rparr>)"
  using evaluate_reason [of "perm_run calls" i meth] by (simp add: check_def evaluate_may_call)

text \<open>
  The audit trail is complete and truthful: it has one entry per check, in order, and each
  carries the decision the specification gives at that point of the history.
\<close>

theorem audit_trail_complete:
  "map (\<lambda>a. (au_timestamp a, au_instanceId a, au_appletId a, au_method a, au_granted a))
       (audit (perm_run calls)) =
     concat (map (\<lambda>n. case calls ! n of
                   Check now i app meth \<Rightarrow> [(now, i, app, meth, may_call (take n calls) i meth)]
                 | _ \<Rightarrow> []) [0..<length calls])"
proof (induction calls rule: rev_induct)
  case Nil
  then show ?case by (simp add: perm_run_def init_permissions_def)
next
  case (snoc c calls)
  have eq: "map (\<lambda>n. case (calls @ [c]) ! n of
             Check now i app meth \<Rightarrow> [(now, i, app, meth, may_call (take n (calls @ [c])) i meth)]
           | _ \<Rightarrow> []) [0..<length calls] =
        map (\<lambda>n. case calls ! n of
             Check now i app meth \<Rightarrow> [(now, i, app, meth, may_call (take n calls) i meth)]
           | _ \<Rightarrow> []) [0..<length calls]"
    by (intro map_cong) (simp_all add: nth_append split: perm_call.split)
  have up: "[0..<length (calls @ [c])] = [0..<length calls] @ [length calls]" by simp
  show ?case
    unfolding up map_append eq concat_append snoc [symmetric] perm_run_snoc
    by (cases c) (simp_all add: check_def registerGrants_def revokeAll_def Let_def
        evaluate_may_call)
qed

end
