(* ===== verification/Applet_Lifecycle.thy ===== *)
theory Applet_Lifecycle
  imports Prelude
begin

text \<open>
  The applet lifecycle contract, \<^verbatim>\<open>packages/applet-contract/src/lifecycle.ts\<close>: the
  states, events and instance record, the table of legal transitions, and the two functions the
  kernel consults, \<^verbatim>\<open>isValidTransition\<close> and \<^verbatim>\<open>nextState\<close>.  Timestamps and
  counters are integers.  The lemmas say that the two functions agree, which states are terminal,
  and which states can be reached.
\<close>

section \<open>States, events, instances\<close>

datatype applet_state =
    Cold | Materializing | Visible | HiddenWarm | Paused | Suspended | Destroyed

datatype applet_event_type =
    Launch | Ready | Show | Hide | Pause | Resume | Suspend | Restore | Destroy
  | MemoryPressure | Error

record applet_event =
  ev_type :: applet_event_type
  ev_appletId :: string
  ev_instanceId :: string
  ev_timestamp :: int
  ev_reason :: "string option"

datatype applet_platform = Desktop | Android | Ios

record applet_instance =
  appletId :: string
  instanceId :: string
  sessionId :: string
  state :: applet_state
  createdAt :: int
  lastVisibleAt :: int
  lastHiddenAt :: int
  lastTouchedAt :: int
  memoryEstimate :: int
  crashCount :: int
  manifestVersion :: string
  platform :: applet_platform

fun state_name :: "applet_state \<Rightarrow> string" where
  "state_name Cold = ''cold''"
| "state_name Materializing = ''materializing''"
| "state_name Visible = ''visible''"
| "state_name HiddenWarm = ''hidden-warm''"
| "state_name Paused = ''paused''"
| "state_name Suspended = ''suspended''"
| "state_name Destroyed = ''destroyed''"

fun event_name :: "applet_event_type \<Rightarrow> string" where
  "event_name Launch = ''launch''"
| "event_name Ready = ''ready''"
| "event_name Show = ''show''"
| "event_name Hide = ''hide''"
| "event_name Pause = ''pause''"
| "event_name Resume = ''resume''"
| "event_name Suspend = ''suspend''"
| "event_name Restore = ''restore''"
| "event_name Destroy = ''destroy''"
| "event_name MemoryPressure = ''memory-pressure''"
| "event_name Error = ''error''"

definition APPLET_LIFECYCLE_STATES :: "applet_state list" where
  "APPLET_LIFECYCLE_STATES =
     [Cold, Materializing, Visible, HiddenWarm, Paused, Suspended, Destroyed]"

definition APPLET_LIFECYCLE_EVENT_TYPES :: "applet_event_type list" where
  "APPLET_LIFECYCLE_EVENT_TYPES =
     [Launch, Ready, Show, Hide, Pause, Resume, Suspend, Restore, Destroy, MemoryPressure, Error]"

section \<open>The transition table\<close>

record transition_rule =
  rule_from :: "applet_state list"
  rule_to :: applet_state

text \<open>
  The source's table has no entry for \<^verbatim>\<open>resume\<close>, \<^verbatim>\<open>destroy\<close>,
  \<^verbatim>\<open>memory-pressure\<close> and \<^verbatim>\<open>error\<close>; its key type excludes them.
\<close>

fun TRANSITION_RULES :: "applet_event_type \<Rightarrow> transition_rule option" where
  "TRANSITION_RULES Launch = Some \<lparr>rule_from = [Cold], rule_to = Materializing\<rparr>"
| "TRANSITION_RULES Ready = Some \<lparr>rule_from = [Materializing], rule_to = Visible\<rparr>"
| "TRANSITION_RULES Show = Some \<lparr>rule_from = [HiddenWarm, Paused, Suspended], rule_to = Visible\<rparr>"
| "TRANSITION_RULES Hide = Some \<lparr>rule_from = [Visible], rule_to = HiddenWarm\<rparr>"
| "TRANSITION_RULES Pause = Some \<lparr>rule_from = [Visible, HiddenWarm], rule_to = Paused\<rparr>"
| "TRANSITION_RULES Suspend = Some \<lparr>rule_from = [HiddenWarm, Paused], rule_to = Suspended\<rparr>"
| "TRANSITION_RULES Restore = Some \<lparr>rule_from = [Suspended], rule_to = Visible\<rparr>"
| "TRANSITION_RULES Resume = None"
| "TRANSITION_RULES Destroy = None"
| "TRANSITION_RULES MemoryPressure = None"
| "TRANSITION_RULES Error = None"

definition RESUME_SOURCES :: "applet_state list" where
  "RESUME_SOURCES = [Paused]"

definition RESUME_TARGETS :: "applet_state list" where
  "RESUME_TARGETS = [Visible, HiddenWarm]"

definition isDestroyable :: "applet_state \<Rightarrow> bool" where
  "isDestroyable s \<longleftrightarrow> s \<noteq> Cold \<and> s \<noteq> Destroyed"

definition isValidTransition :: "applet_state \<Rightarrow> applet_event_type \<Rightarrow> applet_state \<Rightarrow> bool" where
  "isValidTransition from_state event to_state =
     (if event = Destroy then to_state = Destroyed \<and> isDestroyable from_state
      else if event = Resume then
        from_state \<in> set RESUME_SOURCES \<and> to_state \<in> set RESUME_TARGETS
      else if event = MemoryPressure \<or> event = Error then
        (to_state = Destroyed \<and> isDestroyable from_state)
        \<or> (to_state = Suspended \<and> (from_state = HiddenWarm \<or> from_state = Paused))
      else (case TRANSITION_RULES event of
              None \<Rightarrow> False
            | Some rule \<Rightarrow> from_state \<in> set (rule_from rule) \<and> rule_to rule = to_state))"

text \<open>The parameter type of \<^verbatim>\<open>nextState\<close> excludes \<^verbatim>\<open>resume\<close> and the two signals.\<close>

definition deterministic_event :: "applet_event_type \<Rightarrow> bool" where
  "deterministic_event e \<longleftrightarrow> e \<noteq> Resume \<and> e \<noteq> MemoryPressure \<and> e \<noteq> Error"

definition nextState :: "applet_state \<Rightarrow> applet_event_type \<Rightarrow> applet_state option" where
  "nextState from_state event =
     (if event = Destroy then (if isDestroyable from_state then Some Destroyed else None)
      else (case TRANSITION_RULES event of
              None \<Rightarrow> None
            | Some rule \<Rightarrow>
                if from_state \<in> set (rule_from rule) then Some (rule_to rule) else None))"

section \<open>Runs of the contract\<close>

inductive legal_run :: "applet_state \<Rightarrow> applet_event_type list \<Rightarrow> applet_state \<Rightarrow> bool" where
  run_nil: "legal_run s [] s"
| run_cons: "isValidTransition s e t \<Longrightarrow> legal_run t es u \<Longrightarrow> legal_run s (e # es) u"

inductive_cases legal_run_NilE [elim!]: "legal_run s [] t"
inductive_cases legal_run_ConsE [elim!]: "legal_run s (e # es) t"

lemmas contract_defs =
  isValidTransition_def nextState_def isDestroyable_def RESUME_SOURCES_def RESUME_TARGETS_def
  deterministic_event_def

lemma state_name_inj: "state_name s = state_name t \<longleftrightarrow> s = t"
  by (cases s; cases t; simp)

lemma event_name_inj: "event_name s = event_name t \<longleftrightarrow> s = t"
  by (cases s; cases t; simp)

text \<open>
  For every event with a fixed target, \<^verbatim>\<open>nextState\<close> returns a state exactly when
  \<^verbatim>\<open>isValidTransition\<close> accepts the move, and it is then the only state accepted: the kernel
  may resolve a target with the one and guard it with the other.
\<close>

theorem nextState_iff_valid:
  assumes "deterministic_event e"
  shows "nextState s e = Some t \<longleftrightarrow> isValidTransition s e t"
  using assms by (cases e) (auto simp: contract_defs)

theorem nextState_iff_valid_witness:
  "deterministic_event Suspend \<and> nextState Paused Suspend = Some Suspended
   \<and> isValidTransition Paused Suspend Suspended"
  using nextState_iff_valid [of Suspend Paused Suspended] by (simp add: contract_defs)

lemma valid_from_destroyed: "\<not> isValidTransition Destroyed e t"
  by (cases e) (auto simp: contract_defs)

lemma valid_to_cold: "\<not> isValidTransition s e Cold"
  by (cases e) (auto simp: contract_defs)

lemma valid_to_materializing: "isValidTransition s e Materializing \<longleftrightarrow> s = Cold \<and> e = Launch"
  by (cases e) (auto simp: contract_defs)

lemma valid_destroyed_iff:
  "isValidTransition s e Destroyed \<longleftrightarrow>
     isDestroyable s \<and> e \<in> {Destroy, MemoryPressure, Error}"
  by (cases e) (auto simp: contract_defs)

lemma legal_run_from_destroyed: "legal_run Destroyed es t \<Longrightarrow> es = [] \<and> t = Destroyed"
  by (cases es) (auto simp: valid_from_destroyed)

lemma legal_run_append:
  "legal_run s xs t \<Longrightarrow> legal_run t ys u \<Longrightarrow> legal_run s (xs @ ys) u"
  by (induction rule: legal_run.induct) (auto intro: legal_run.intros)

end
