(* ===== verification/Applet_Registry.thy ===== *)
theory Applet_Registry
  imports Applet_Lifecycle
begin

text \<open>
  The instance registry of the applet kernel, \<^verbatim>\<open>packages/applet-kernel/src/instance-registry.ts\<close>
  (class \<^verbatim>\<open>DefaultInstanceRegistry\<close>), and the port it implements
  (\<^verbatim>\<open>InstanceRegistry\<close> of \<^verbatim>\<open>ports.ts\<close>) as the locale \<open>instance_registry\<close>.  The
  registry is a JavaScript map from instance ids to records; every mutation of a record in place
  is an update of that map.  The locale states what the orchestrator and the scheduler rely on,
  and carries the lemmas their proofs use.
\<close>

section \<open>The registry\<close>

type_synonym registry = "(string, applet_instance) jsmap"

record instance_create_input =
  in_appletId :: string
  in_instanceId :: string
  in_sessionId :: string
  in_manifestVersion :: string
  in_platform :: applet_platform

definition new_instance :: "int \<Rightarrow> instance_create_input \<Rightarrow> applet_instance" where
  "new_instance now input =
     \<lparr>appletId = in_appletId input, instanceId = in_instanceId input,
      sessionId = in_sessionId input, state = Materializing, createdAt = now,
      lastVisibleAt = 0, lastHiddenAt = 0, lastTouchedAt = now, memoryEstimate = 0,
      crashCount = 0, manifestVersion = in_manifestVersion input, platform = in_platform input\<rparr>"

definition reg_create ::
  "int \<Rightarrow> instance_create_input \<Rightarrow> registry \<Rightarrow> string + (applet_instance \<times> registry)" where
  "reg_create now input r =
     (if map_has r (in_instanceId input)
      then Inl (''instance already registered: '' @ in_instanceId input)
      else Inr (new_instance now input,
                map_set (in_instanceId input) (new_instance now input) r))"

definition reg_get :: "registry \<Rightarrow> string \<Rightarrow> applet_instance option" where
  "reg_get r i = map_get r i"

definition reg_list :: "registry \<Rightarrow> applet_instance list" where
  "reg_list r = map_values r"

definition reg_listByState :: "registry \<Rightarrow> applet_state \<Rightarrow> applet_instance list" where
  "reg_listByState r s = filter (\<lambda>inst. state inst = s) (reg_list r)"

definition stamp :: "applet_state \<Rightarrow> int \<Rightarrow> applet_instance \<Rightarrow> applet_instance" where
  "stamp s at inst =
     (let a = inst\<lparr>state := s\<rparr>;
          b = (if s = Visible then a\<lparr>lastVisibleAt := at\<rparr>
               else if s = HiddenWarm then a\<lparr>lastHiddenAt := at\<rparr> else a)
      in b\<lparr>lastTouchedAt := at\<rparr>)"

definition reg_setState ::
  "registry \<Rightarrow> string \<Rightarrow> applet_state \<Rightarrow> int \<Rightarrow> applet_instance option \<times> registry" where
  "reg_setState r i s at =
     (case map_get r i of
        None \<Rightarrow> (None, r)
      | Some inst \<Rightarrow> (Some (stamp s at inst), map_set i (stamp s at inst) r))"

definition reg_touch :: "registry \<Rightarrow> string \<Rightarrow> int \<Rightarrow> registry" where
  "reg_touch r i at =
     (case map_get r i of
        None \<Rightarrow> r | Some inst \<Rightarrow> map_set i (inst\<lparr>lastTouchedAt := at\<rparr>) r)"

definition reg_updateMemoryEstimate :: "registry \<Rightarrow> string \<Rightarrow> int \<Rightarrow> registry" where
  "reg_updateMemoryEstimate r i bytes =
     (case map_get r i of
        None \<Rightarrow> r | Some inst \<Rightarrow> map_set i (inst\<lparr>memoryEstimate := bytes\<rparr>) r)"

definition reg_incrementCrashCount :: "registry \<Rightarrow> string \<Rightarrow> int \<times> registry" where
  "reg_incrementCrashCount r i =
     (case map_get r i of
        None \<Rightarrow> (0, r)
      | Some inst \<Rightarrow>
          (crashCount inst + 1, map_set i (inst\<lparr>crashCount := crashCount inst + 1\<rparr>) r))"

definition reg_remove :: "registry \<Rightarrow> string \<Rightarrow> registry" where
  "reg_remove r i = map_del i r"

lemmas registry_defs =
  reg_create_def reg_get_def reg_list_def reg_listByState_def reg_setState_def reg_touch_def
  reg_updateMemoryEstimate_def reg_incrementCrashCount_def reg_remove_def

section \<open>Well-formedness\<close>

text \<open>
  Every key is the id of its record, keys are unique, and no record is \<^verbatim>\<open>cold\<close> or
  \<^verbatim>\<open>destroyed\<close>: a cold applet has no record yet, a destroyed one no longer has one.
\<close>

definition live_state :: "applet_state \<Rightarrow> bool" where
  "live_state s \<longleftrightarrow> s \<noteq> Cold \<and> s \<noteq> Destroyed"

definition registry_wf :: "registry \<Rightarrow> bool" where
  "registry_wf r \<longleftrightarrow>
     map_wf r \<and> (\<forall>(k, inst) \<in> set r. instanceId inst = k \<and> live_state (state inst))"

lemma stamp_simps [simp]:
  "instanceId (stamp s at inst) = instanceId inst"
  "appletId (stamp s at inst) = appletId inst"
  "sessionId (stamp s at inst) = sessionId inst"
  "state (stamp s at inst) = s"
  "lastTouchedAt (stamp s at inst) = at"
  "crashCount (stamp s at inst) = crashCount inst"
  by (simp_all add: stamp_def Let_def)

lemma map_set_present:
  "map_wf m \<Longrightarrow> map_get m k = Some v \<Longrightarrow>
     map_set k w m = map (\<lambda>(k', v'). if k' = k then (k', w) else (k', v')) m"
proof (induction m)
  case Nil
  then show ?case by simp
next
  case (Cons p m)
  obtain k' v' where p: "p = (k', v')" by (cases p)
  show ?case
  proof (cases "k' = k")
    case True
    with Cons.prems(1) p have "k \<notin> fst ` set m" by (simp add: map_wf_def)
    then have "map (\<lambda>(k', v'). if k' = k then (k', w) else (k', v')) m = m"
      by (intro map_idI) (auto simp: image_iff)
    with True p show ?thesis by (simp add: map_set_def)
  next
    case False
    with Cons p show ?thesis by (simp add: map_wf_def map_get_def map_set_def)
  qed
qed

lemma registry_wf_get:
  "registry_wf r \<Longrightarrow> map_get r i = Some inst \<Longrightarrow> instanceId inst = i \<and> live_state (state inst)"
  by (auto simp: registry_wf_def dest!: map_get_Some_in)

lemma registry_wf_set:
  "registry_wf r \<Longrightarrow> instanceId inst = i \<Longrightarrow> live_state (state inst) \<Longrightarrow>
     registry_wf (map_set i inst r)"
  unfolding registry_wf_def using set_map_set_subset [of i inst r] by auto

lemma registry_wf_remove: "registry_wf r \<Longrightarrow> registry_wf (reg_remove r i)"
  unfolding registry_wf_def reg_remove_def using set_map_del_subset [of i r] by auto

section \<open>The port\<close>

locale instance_registry =
  fixes get :: "'r \<Rightarrow> string \<Rightarrow> applet_instance option"
    and all :: "'r \<Rightarrow> applet_instance list"
    and setState :: "'r \<Rightarrow> string \<Rightarrow> applet_state \<Rightarrow> int \<Rightarrow> applet_instance option \<times> 'r"
    and bump :: "'r \<Rightarrow> string \<Rightarrow> int \<times> 'r"
    and remove :: "'r \<Rightarrow> string \<Rightarrow> 'r"
    and wf :: "'r \<Rightarrow> bool"
  assumes all_get: "wf r \<Longrightarrow> inst \<in> set (all r) \<longleftrightarrow> get r (instanceId inst) = Some inst"
    and all_distinct: "wf r \<Longrightarrow> distinct (map instanceId (all r))"
    and get_id: "wf r \<Longrightarrow> get r i = Some inst \<Longrightarrow> instanceId inst = i \<and> live_state (state inst)"
    and get_setState: "get (snd (setState r i s at)) j =
          (if j = i then map_option (stamp s at) (get r i) else get r j)"
    and all_setState: "wf r \<Longrightarrow> all (snd (setState r i s at)) =
          map (\<lambda>inst. if instanceId inst = i then stamp s at inst else inst) (all r)"
    and wf_setState: "wf r \<Longrightarrow> live_state s \<Longrightarrow> wf (snd (setState r i s at))"
    and get_bump: "get (snd (bump r i)) j =
          (if j = i then map_option (\<lambda>inst. inst\<lparr>crashCount := crashCount inst + 1\<rparr>) (get r i)
           else get r j)"
    and wf_bump: "wf r \<Longrightarrow> wf (snd (bump r i))"
    and get_remove: "get (remove r i) j = (if j = i then None else get r j)"
    and all_remove: "wf r \<Longrightarrow> all (remove r i) = filter (\<lambda>inst. instanceId inst \<noteq> i) (all r)"
    and wf_remove: "wf r \<Longrightarrow> wf (remove r i)"
begin

lemma all_live: "wf r \<Longrightarrow> inst \<in> set (all r) \<Longrightarrow> live_state (state inst)"
  using all_get get_id by blast

lemma all_get_iff: "wf r \<Longrightarrow> get r i = Some inst \<longleftrightarrow> inst \<in> set (all r) \<and> instanceId inst = i"
  using all_get get_id by blast

lemma get_bump_state:
  "map_option state (get (snd (bump r i)) j) = map_option state (get r j)"
  by (simp add: get_bump option.map_comp comp_def)

lemma get_after_remove_bump: "get (remove (snd (bump r i)) i) i = None"
  by (simp add: get_remove)

lemma count_setState:
  assumes "wf r" and "get r i = Some inst" and "P (stamp s at inst) = P' inst"
    and "\<And>x. x \<in> set (all r) \<Longrightarrow> instanceId x \<noteq> i \<Longrightarrow> P x = P' x"
  shows "length (filter P (all (snd (setState r i s at)))) = length (filter P' (all r))"
proof -
  have "P (if instanceId x = i then stamp s at x else x) = P' x" if "x \<in> set (all r)" for x
  proof (cases "instanceId x = i")
    case True
    with that assms(1,2) have "x = inst" using all_get by fastforce
    with True assms(3) show ?thesis by simp
  next
    case False
    with that assms(4) show ?thesis by simp
  qed
  then show ?thesis
    using assms(1) by (simp add: all_setState filter_map comp_def cong: filter_cong)
qed

end

lemma registry_wf_values:
  assumes "registry_wf r"
  shows "(k, inst) \<in> set r \<longleftrightarrow> inst \<in> set (reg_list r) \<and> k = instanceId inst"
  using assms by (force simp: registry_wf_def reg_list_def map_values_def)

lemma reg_get_iff:
  assumes "registry_wf r"
  shows "reg_get r i = Some inst \<longleftrightarrow> inst \<in> set (reg_list r) \<and> i = instanceId inst"
  using assms registry_wf_values [OF assms]
  by (simp add: reg_get_def registry_wf_def map_get_eq_iff)

lemma reg_list_ids: "registry_wf r \<Longrightarrow> map instanceId (reg_list r) = map fst r"
  by (auto simp: registry_wf_def reg_list_def map_values_def)

lemma reg_all_setState:
  assumes "registry_wf r"
  shows "reg_list (snd (reg_setState r i s at)) =
     map (\<lambda>inst. if instanceId inst = i then stamp s at inst else inst) (reg_list r)"
proof (cases "map_get r i")
  case None
  then have "\<forall>inst \<in> set (reg_list r). instanceId inst \<noteq> i"
    using reg_get_iff [OF assms] by (metis option.distinct(1) reg_get_def)
  with None show ?thesis
    by (simp add: reg_setState_def cong: map_cong)
next
  case (Some inst)
  have wf: "map_wf r" using assms by (simp add: registry_wf_def)
  have "x = inst" if "(i, x) \<in> set r" for x
    using that Some wf by (simp add: map_get_eq_iff [symmetric])
  then have "snd (if k = i then (k, stamp s at inst) else (k, x)) =
      (if instanceId x = i then stamp s at x else x)" if "(k, x) \<in> set r" for k x
    using that registry_wf_values [OF assms] by auto
  with Some wf show ?thesis
    by (auto simp: reg_setState_def reg_list_def map_values_def map_set_present)
qed

lemma reg_all_remove:
  assumes "registry_wf r"
  shows "reg_list (reg_remove r i) = filter (\<lambda>inst. instanceId inst \<noteq> i) (reg_list r)"
proof -
  have "filter (\<lambda>(k, v). i \<noteq> k) r = filter (\<lambda>kv. instanceId (snd kv) \<noteq> i) r"
    using registry_wf_values [OF assms] by (intro filter_cong) auto
  then show ?thesis
    by (simp add: reg_list_def map_values_def reg_remove_def map_del_def AList.delete_eq
        filter_map comp_def)
qed

lemma registry_wf_setState:
  "registry_wf r \<Longrightarrow> live_state s \<Longrightarrow> registry_wf (snd (reg_setState r i s at))"
  by (auto simp: reg_setState_def split: option.splits intro!: registry_wf_set
      dest: registry_wf_get)

lemma registry_wf_bump: "registry_wf r \<Longrightarrow> registry_wf (snd (reg_incrementCrashCount r i))"
  by (auto simp: reg_incrementCrashCount_def split: option.splits intro!: registry_wf_set
      dest: registry_wf_get)

interpretation reg: instance_registry reg_get reg_list reg_setState reg_incrementCrashCount
  reg_remove registry_wf
proof (unfold_locales, goal_cases)
  case (1 r inst)
  then show ?case by (simp add: reg_get_iff)
next
  case (2 r)
  then show ?case by (simp add: reg_list_ids registry_wf_def map_wf_def)
next
  case (3 r i inst)
  then show ?case by (simp add: reg_get_def registry_wf_get)
next
  case (4 r i s at j)
  show ?case by (simp add: reg_get_def reg_setState_def split: option.split)
next
  case (5 r i s at)
  then show ?case by (rule reg_all_setState)
next
  case (6 r s i at)
  then show ?case by (rule registry_wf_setState)
next
  case (7 r i j)
  show ?case by (simp add: reg_get_def reg_incrementCrashCount_def split: option.split)
next
  case (8 r i)
  then show ?case by (rule registry_wf_bump)
next
  case (9 r i j)
  show ?case by (simp add: reg_get_def reg_remove_def)
next
  case (10 r i)
  then show ?case by (rule reg_all_remove)
next
  case (11 r i)
  then show ?case by (rule registry_wf_remove)
qed

section \<open>Registry properties\<close>

text \<open>
  Registering an instance either refuses an id already in use and leaves the registry as it
  was, or stores a fresh record in state \<^verbatim>\<open>materializing\<close> with no visibility time and no
  crash, touches no other id, and keeps the registry well formed.
\<close>

theorem reg_create_correct:
  assumes "registry_wf r"
  shows "case reg_create now input r of
      Inl _ \<Rightarrow> reg_get r (in_instanceId input) \<noteq> None
    | Inr (inst, r') \<Rightarrow>
        reg_get r (in_instanceId input) = None \<and> registry_wf r'
        \<and> reg_get r' (in_instanceId input) = Some inst
        \<and> reg_list r' = reg_list r @ [inst]
        \<and> state inst = Materializing \<and> crashCount inst = 0 \<and> lastTouchedAt inst = now
        \<and> lastVisibleAt inst = 0 \<and> lastHiddenAt inst = 0
        \<and> (\<forall>j. j \<noteq> in_instanceId input \<longrightarrow> reg_get r' j = reg_get r j)"
proof (cases "map_get r (in_instanceId input)")
  case None
  let ?i = "in_instanceId input" and ?new = "new_instance now input"
  have "map_set ?i ?new r = r @ [(?i, ?new)]"
    using None by (rule map_set_fresh)
  then have "reg_list (map_set ?i ?new r) = reg_list r @ [?new]"
    by (simp add: reg_list_def map_values_def)
  moreover have "registry_wf (map_set ?i ?new r)"
    using assms by (intro registry_wf_set) (auto simp: new_instance_def live_state_def)
  ultimately show ?thesis
    using None by (simp add: reg_create_def reg_get_def map_has_get) (simp add: new_instance_def)
next
  case (Some inst)
  then show ?thesis by (simp add: registry_defs map_has_get)
qed

definition demo_input :: instance_create_input where
  "demo_input = \<lparr>in_appletId = ''app'', in_instanceId = ''i1'', in_sessionId = ''s1'',
     in_manifestVersion = ''1.0.0'', in_platform = Ios\<rparr>"

theorem reg_create_correct_witness:
  "registry_wf [] \<and> (\<exists>inst r'. reg_create 7 demo_input [] = Inr (inst, r') \<and> registry_wf r'
     \<and> reg_get r' ''i1'' = Some inst \<and> state inst = Materializing)"
proof -
  have wf: "registry_wf []" by (simp add: registry_wf_def)
  show ?thesis
    using reg_create_correct [OF wf, of demo_input 7] wf
    by (simp add: reg_create_def map_has_get demo_input_def)
qed

end
