(* ===== verification/Applet_Scheduler.thy ===== *)
theory Applet_Scheduler
  imports Applet_Registry
begin

text \<open>
  The resource scheduler of the applet kernel, \<^verbatim>\<open>packages/applet-kernel/src/resource-scheduler.ts\<close>
  and \<^verbatim>\<open>policy.ts\<close>: the time-to-live pass, the least-recently-used pass and the suspended
  overflow pass of a sweep, and the reaction to memory pressure.  The scheduler only proposes
  lifecycle events; the orchestrator (\<open>Applet_Kernel\<close>) carries them out.
  \<^verbatim>\<open>Array.prototype.sort\<close> is stable, so sorting by \<^verbatim>\<open>lastTouchedAt\<close> is
  \<open>sort_key lastTouchedAt\<close>.
\<close>

section \<open>Policy\<close>

record resource_policy =
  lruSize :: int
  maxSuspended :: int
  hiddenWarmTtlMs :: int
  suspendedTtlMs :: int
  pausedTtlMs :: int

definition MINUTE_MS :: int where
  "MINUTE_MS = 60000"

definition DESKTOP_RESOURCE_POLICY :: resource_policy where
  "DESKTOP_RESOURCE_POLICY =
     \<lparr>lruSize = 4, maxSuspended = 8, hiddenWarmTtlMs = 30 * MINUTE_MS,
      suspendedTtlMs = 120 * MINUTE_MS, pausedTtlMs = 15 * MINUTE_MS\<rparr>"

definition MOBILE_RESOURCE_POLICY :: resource_policy where
  "MOBILE_RESOURCE_POLICY =
     \<lparr>lruSize = 3, maxSuspended = 8, hiddenWarmTtlMs = 30 * MINUTE_MS,
      suspendedTtlMs = 120 * MINUTE_MS, pausedTtlMs = 15 * MINUTE_MS\<rparr>"

definition defaultPolicyForPlatform :: "applet_platform \<Rightarrow> resource_policy" where
  "defaultPolicyForPlatform p =
     (if p = Desktop then DESKTOP_RESOURCE_POLICY else MOBILE_RESOURCE_POLICY)"

section \<open>The sweep\<close>

datatype scheduled_action = ASuspend | ADestroy

fun action_event :: "scheduled_action \<Rightarrow> applet_event_type" where
  "action_event ASuspend = Suspend"
| "action_event ADestroy = Destroy"

type_synonym sweep_state = "(string, scheduled_action) jsmap \<times> applet_event list"

definition buildEvent ::
  "applet_instance \<Rightarrow> scheduled_action \<Rightarrow> int \<Rightarrow> string \<Rightarrow> applet_event" where
  "buildEvent inst action now reason =
     \<lparr>ev_type = action_event action, ev_appletId = appletId inst,
      ev_instanceId = instanceId inst, ev_timestamp = now, ev_reason = Some reason\<rparr>"

definition schedule ::
  "int \<Rightarrow> applet_instance \<Rightarrow> scheduled_action \<Rightarrow> string \<Rightarrow> sweep_state \<Rightarrow> sweep_state" where
  "schedule now inst action reason st =
     (if map_has (fst st) (instanceId inst) then st
      else (map_set (instanceId inst) action (fst st),
            snd st @ [buildEvent inst action now reason]))"

definition ttl_pass :: "resource_policy \<Rightarrow> int \<Rightarrow> applet_instance \<Rightarrow> sweep_state \<Rightarrow> sweep_state" where
  "ttl_pass policy now inst st =
     (if state inst = HiddenWarm then
        if now - lastHiddenAt inst > hiddenWarmTtlMs policy
        then schedule now inst ASuspend ''ttl-hidden-warm'' st else st
      else if state inst = Paused then
        if now - lastTouchedAt inst > pausedTtlMs policy
        then schedule now inst ASuspend ''ttl-paused'' st else st
      else if state inst = Suspended then
        if now - lastTouchedAt inst > suspendedTtlMs policy
        then schedule now inst ADestroy ''ttl-suspended'' st else st
      else st)"

definition isWarmState :: "applet_state \<Rightarrow> bool" where
  "isWarmState s \<longleftrightarrow> s = Visible \<or> s = HiddenWarm \<or> s = Paused"

definition warm_instances :: "sweep_state \<Rightarrow> applet_instance list \<Rightarrow> applet_instance list" where
  "warm_instances st instances =
     filter (\<lambda>inst. isWarmState (state inst) \<and> \<not> map_has (fst st) (instanceId inst)) instances"

definition lru_pass ::
  "resource_policy \<Rightarrow> int \<Rightarrow> applet_instance list \<Rightarrow> sweep_state \<Rightarrow> sweep_state" where
  "lru_pass policy now instances st =
     (let warm = warm_instances st instances in
      if int (length warm) > lruSize policy then
        let overflow = int (length warm) - lruSize policy;
            evictable = sort_key lastTouchedAt (filter (\<lambda>inst. state inst \<noteq> Visible) warm)
        in fold (\<lambda>inst. schedule now inst ASuspend ''lru-evict'') (take (nat overflow) evictable) st
      else st)"

definition projected_suspended :: "sweep_state \<Rightarrow> applet_instance list \<Rightarrow> applet_instance list" where
  "projected_suspended st instances =
     filter (\<lambda>inst. case map_get (fst st) (instanceId inst) of
               Some action \<Rightarrow> action = ASuspend
             | None \<Rightarrow> state inst = Suspended) instances"

definition suspended_pass ::
  "resource_policy \<Rightarrow> int \<Rightarrow> applet_instance list \<Rightarrow> sweep_state \<Rightarrow> sweep_state" where
  "suspended_pass policy now instances st =
     (let projected = projected_suspended st instances in
      if int (length projected) > maxSuspended policy then
        let overflow = int (length projected) - maxSuspended policy;
            destroyable = sort_key lastTouchedAt
              (filter (\<lambda>inst. \<not> map_has (fst st) (instanceId inst)) projected)
        in fold (\<lambda>inst. schedule now inst ADestroy ''lru-suspended-overflow'')
             (take (nat overflow) destroyable) st
      else st)"

definition sweep_result ::
  "resource_policy \<Rightarrow> int \<Rightarrow> applet_instance list \<Rightarrow> sweep_state" where
  "sweep_result policy now instances =
     suspended_pass policy now instances
       (lru_pass policy now instances
         (fold (ttl_pass policy now) instances ([], [])))"

definition sweep :: "resource_policy \<Rightarrow> registry \<Rightarrow> int \<Rightarrow> applet_event list" where
  "sweep policy r now = snd (sweep_result policy now (reg_list r))"

section \<open>Memory pressure\<close>

datatype memory_pressure_level = Low | Moderate | Critical

definition onMemoryPressure ::
  "registry \<Rightarrow> memory_pressure_level \<Rightarrow> int \<Rightarrow> applet_event list" where
  "onMemoryPressure r level now =
     (case level of
        Low \<Rightarrow> []
      | Moderate \<Rightarrow>
          (case sort_key lastTouchedAt (filter (\<lambda>inst. state inst = Suspended) (reg_list r)) of
             [] \<Rightarrow> []
           | oldest # _ \<Rightarrow> [buildEvent oldest ADestroy now ''memory-pressure-moderate''])
      | Critical \<Rightarrow>
          map (\<lambda>inst. buildEvent inst ADestroy now ''memory-pressure-critical'')
            (filter (\<lambda>inst. state inst \<noteq> Visible) (reg_list r)))"

lemma buildEvent_simps [simp]:
  "ev_instanceId (buildEvent inst a now reason) = instanceId inst"
  "ev_type (buildEvent inst a now reason) = action_event a"
  "ev_timestamp (buildEvent inst a now reason) = now"
  by (simp_all add: buildEvent_def)

section \<open>One decision per instance\<close>

text \<open>
  The invariant of the three passes: the ids scheduled are the ids of the events emitted, in the
  same order and without repetition, and every decision concerns an instance of the list in a
  state the decision is legal from.
\<close>

definition decision_ok :: "applet_instance list \<Rightarrow> int \<Rightarrow> applet_event \<Rightarrow> bool" where
  "decision_ok instances now e \<longleftrightarrow>
     (\<exists>inst \<in> set instances. ev_instanceId e = instanceId inst \<and> ev_appletId e = appletId inst
        \<and> ev_timestamp e = now
        \<and> (ev_type e = Suspend \<and> state inst \<in> {HiddenWarm, Paused}
           \<or> ev_type e = Destroy \<and> state inst = Suspended))"

definition sweep_inv :: "applet_instance list \<Rightarrow> int \<Rightarrow> sweep_state \<Rightarrow> bool" where
  "sweep_inv instances now st \<longleftrightarrow>
     map (\<lambda>(k, a). (k, action_event a)) (fst st) = map (\<lambda>e. (ev_instanceId e, ev_type e)) (snd st)
     \<and> map_wf (fst st) \<and> (\<forall>e \<in> set (snd st). decision_ok instances now e)"

definition action_legal :: "scheduled_action \<Rightarrow> applet_state \<Rightarrow> bool" where
  "action_legal a s \<longleftrightarrow> (if a = ASuspend then s \<in> {HiddenWarm, Paused} else s = Suspended)"

lemma sweep_inv_schedule:
  assumes "sweep_inv instances now st" and "inst \<in> set instances"
    and "action_legal a (state inst)"
  shows "sweep_inv instances now (schedule now inst a reason st)"
proof (cases "map_has (fst st) (instanceId inst)")
  case True
  with assms(1) show ?thesis by (simp add: schedule_def)
next
  case False
  have "decision_ok instances now (buildEvent inst a now reason)"
    using assms(2,3)
    by (cases a) (auto simp: decision_ok_def buildEvent_def action_legal_def)
  moreover have "map_wf (map_set (instanceId inst) a (fst st))"
    using assms(1) by (simp add: sweep_inv_def)
  ultimately show ?thesis
    using False assms(1) by (simp add: schedule_def sweep_inv_def map_has_get map_set_fresh)
qed

lemma sweep_inv_fold:
  assumes "sweep_inv instances now st" and "set xs \<subseteq> set instances"
    and "\<And>x. x \<in> set xs \<Longrightarrow> action_legal a (state x)"
  shows "sweep_inv instances now (fold (\<lambda>inst. schedule now inst a reason) xs st)"
  using assms by (induction xs arbitrary: st) (simp_all add: sweep_inv_schedule)

lemma sweep_inv_ttl_pass:
  "sweep_inv instances now st \<Longrightarrow> inst \<in> set instances \<Longrightarrow>
     sweep_inv instances now (ttl_pass policy now inst st)"
  by (auto simp: ttl_pass_def action_legal_def intro: sweep_inv_schedule)

lemma sweep_inv_ttl:
  "sweep_inv instances now st \<Longrightarrow> set xs \<subseteq> set instances \<Longrightarrow>
     sweep_inv instances now (fold (ttl_pass policy now) xs st)"
  by (induction xs arbitrary: st) (simp_all add: sweep_inv_ttl_pass)

lemma sweep_inv_lru:
  "sweep_inv instances now st \<Longrightarrow> sweep_inv instances now (lru_pass policy now instances st)"
  unfolding lru_pass_def Let_def
  by (auto intro!: sweep_inv_fold dest!: in_set_takeD
      simp: warm_instances_def isWarmState_def action_legal_def)

lemma sweep_inv_suspended:
  "sweep_inv instances now st \<Longrightarrow> sweep_inv instances now (suspended_pass policy now instances st)"
  unfolding suspended_pass_def Let_def
  by (auto intro!: sweep_inv_fold dest!: in_set_takeD
      simp: projected_suspended_def action_legal_def map_has_get split: option.splits)

lemma sweep_inv_result: "sweep_inv instances now (sweep_result policy now instances)"
  unfolding sweep_result_def
  by (intro sweep_inv_suspended sweep_inv_lru sweep_inv_ttl) (simp_all add: sweep_inv_def)

lemma sweep_inv_ids: "sweep_inv instances now st \<Longrightarrow> map fst (fst st) = map ev_instanceId (snd st)"
  by (drule arg_cong [where f = "map fst", OF conjunct1 [OF iffD1 [OF sweep_inv_def]]])
     (simp add: comp_def case_prod_beta)

lemma sweep_inv_has:
  "sweep_inv instances now st \<Longrightarrow> map_has (fst st) i \<longleftrightarrow> i \<in> ev_instanceId ` set (snd st)"
  using sweep_inv_ids [of instances now st]
  by (metis image_set in_map_keys_get map_has_get map_keys_def)

lemma sweep_distinct_ids: "distinct (map ev_instanceId (sweep policy r now))"
  using sweep_inv_result [of "reg_list r" now policy]
  by (metis map_wf_def sweep_def sweep_inv_def sweep_inv_ids)

lemma sweep_decisions_ok: "e \<in> set (sweep policy r now) \<Longrightarrow> decision_ok (reg_list r) now e"
  using sweep_inv_result [of "reg_list r" now policy] by (simp add: sweep_def sweep_inv_def)

section \<open>What the passes evict\<close>

definition lru_evicted ::
  "resource_policy \<Rightarrow> sweep_state \<Rightarrow> applet_instance list \<Rightarrow> applet_instance list" where
  "lru_evicted policy st instances =
     take (nat (int (length (warm_instances st instances)) - lruSize policy))
       (sort_key lastTouchedAt
         (filter (\<lambda>inst. state inst \<noteq> Visible) (warm_instances st instances)))"

definition overflow_destroyed ::
  "resource_policy \<Rightarrow> sweep_state \<Rightarrow> applet_instance list \<Rightarrow> applet_instance list" where
  "overflow_destroyed policy st instances =
     take (nat (int (length (projected_suspended st instances)) - maxSuspended policy))
       (sort_key lastTouchedAt
         (filter (\<lambda>inst. \<not> map_has (fst st) (instanceId inst)) (projected_suspended st instances)))"

lemma fold_schedule_fresh:
  assumes "distinct (map instanceId xs)" and "\<forall>x \<in> set xs. \<not> map_has sch (instanceId x)"
  shows "fold (\<lambda>inst. schedule now inst a reason) xs (sch, evs) =
     (sch @ map (\<lambda>x. (instanceId x, a)) xs, evs @ map (\<lambda>x. buildEvent x a now reason) xs)"
  using assms
proof (induction xs arbitrary: sch evs)
  case Nil
  then show ?case by simp
next
  case (Cons x xs)
  then have "schedule now x a reason (sch, evs) =
      (sch @ [(instanceId x, a)], evs @ [buildEvent x a now reason])"
    by (simp add: schedule_def map_has_get map_set_fresh)
  moreover have "\<forall>y \<in> set xs. \<not> map_has (sch @ [(instanceId x, a)]) (instanceId y)"
    using Cons.prems by (auto simp: map_has_get map_get_append)
  ultimately show ?case
    using Cons.IH Cons.prems(1) by simp
qed

lemma lru_pass_eq:
  assumes "distinct (map instanceId instances)"
  shows "lru_pass policy now instances st =
     (fst st @ map (\<lambda>x. (instanceId x, ASuspend)) (lru_evicted policy st instances),
      snd st @ map (\<lambda>x. buildEvent x ASuspend now ''lru-evict'') (lru_evicted policy st instances))"
proof -
  have "distinct (map instanceId (lru_evicted policy st instances))"
    using assms by (auto simp: lru_evicted_def warm_instances_def take_map [symmetric]
        distinct_map_sort_key intro!: distinct_take distinct_map_filter)
  moreover have "\<forall>x \<in> set (lru_evicted policy st instances). \<not> map_has (fst st) (instanceId x)"
    by (auto simp: lru_evicted_def warm_instances_def dest!: in_set_takeD)
  moreover have "lru_pass policy now instances st =
      fold (\<lambda>inst. schedule now inst ASuspend ''lru-evict'') (lru_evicted policy st instances)
        (fst st, snd st)"
    by (simp add: lru_pass_def lru_evicted_def Let_def)
  ultimately show ?thesis by (simp only: fold_schedule_fresh)
qed

lemma suspended_pass_eq:
  assumes "distinct (map instanceId instances)"
  shows "suspended_pass policy now instances st =
     (fst st @ map (\<lambda>x. (instanceId x, ADestroy)) (overflow_destroyed policy st instances),
      snd st @ map (\<lambda>x. buildEvent x ADestroy now ''lru-suspended-overflow'')
        (overflow_destroyed policy st instances))"
proof -
  have "distinct (map instanceId (overflow_destroyed policy st instances))"
    using assms by (auto simp: overflow_destroyed_def projected_suspended_def take_map [symmetric]
        distinct_map_sort_key intro!: distinct_take distinct_map_filter)
  moreover have "\<forall>x \<in> set (overflow_destroyed policy st instances). \<not> map_has (fst st) (instanceId x)"
    by (auto simp: overflow_destroyed_def dest!: in_set_takeD)
  moreover have "suspended_pass policy now instances st =
      fold (\<lambda>inst. schedule now inst ADestroy ''lru-suspended-overflow'')
        (overflow_destroyed policy st instances) (fst st, snd st)"
    by (simp add: suspended_pass_def overflow_destroyed_def Let_def)
  ultimately show ?thesis by (simp only: fold_schedule_fresh)
qed

lemma lru_evicted_subset:
  "set (lru_evicted policy st instances) \<subseteq>
     {x \<in> set (warm_instances st instances). state x \<noteq> Visible}"
  by (auto simp: lru_evicted_def dest!: in_set_takeD)

lemma overflow_destroyed_subset:
  "set (overflow_destroyed policy st instances) \<subseteq>
     {x \<in> set instances. state x = Suspended \<and> \<not> map_has (fst st) (instanceId x)}"
  by (auto simp: overflow_destroyed_def projected_suspended_def map_has_get dest!: in_set_takeD
      split: option.splits)

lemma lru_evicted_length:
  "int (length (warm_instances st instances)) - int (length (lru_evicted policy st instances)) \<le>
     max (lruSize policy) (int (length (filter (\<lambda>x. state x = Visible) (warm_instances st instances))))"
  using length_filter_split [of "\<lambda>_. True" "warm_instances st instances" "\<lambda>x. state x = Visible"]
  by (simp add: lru_evicted_def min_def)

lemma warm_after_lru:
  assumes "distinct (map instanceId instances)"
  shows "filter (\<lambda>x. isWarmState (state x) \<and>
            \<not> map_has (fst (suspended_pass policy now instances (lru_pass policy now instances st)))
                (instanceId x)) instances =
         filter (\<lambda>x. x \<notin> set (lru_evicted policy st instances)) (warm_instances st instances)"
proof -
  let ?E = "lru_evicted policy st instances"
  let ?st2 = "lru_pass policy now instances st"
  let ?D = "overflow_destroyed policy ?st2 instances"
  have inj: "x = y" if "x \<in> set instances" "y \<in> set instances" "instanceId x = instanceId y" for x y
    using that assms by (auto simp: distinct_map inj_on_def)
  have has: "map_has (fst (suspended_pass policy now instances ?st2)) k \<longleftrightarrow>
      map_has (fst st) k \<or> k \<in> instanceId ` set ?E \<or> k \<in> instanceId ` set ?D" for k
    using assms
    by (simp add: suspended_pass_eq lru_pass_eq map_has_def map_of_eq_None_iff image_Un image_image
        map_add_None)
  have "(isWarmState (state x) \<and> \<not> map_has (fst (suspended_pass policy now instances ?st2))
          (instanceId x)) \<longleftrightarrow>
        (isWarmState (state x) \<and> \<not> map_has (fst st) (instanceId x)) \<and> x \<notin> set ?E"
    if x: "x \<in> set instances" for x
  proof -
    have E: "instanceId x \<in> instanceId ` set ?E \<longleftrightarrow> x \<in> set ?E"
      using x inj lru_evicted_subset [of policy st instances] by (auto simp: warm_instances_def)
    have D: "instanceId x \<notin> instanceId ` set ?D" if "isWarmState (state x)"
    proof
      assume "instanceId x \<in> instanceId ` set ?D"
      then obtain y where "y \<in> set ?D" and "instanceId x = instanceId y" by blast
      moreover from this have "y \<in> set instances" and "state y = Suspended"
        using overflow_destroyed_subset [of policy ?st2 instances] by blast+
      ultimately show False using x inj that by (metis applet_state.distinct isWarmState_def)
    qed
    show ?thesis using has E D by blast
  qed
  then show ?thesis
    by (simp add: warm_instances_def conj_assoc cong: filter_cong)
qed

lemma warm_bound:
  assumes "distinct (map instanceId instances)"
  shows "int (length (filter (\<lambda>x. isWarmState (state x) \<and>
            \<not> map_has (fst (sweep_result policy now instances)) (instanceId x)) instances))
         \<le> max (lruSize policy) (int (length (filter (\<lambda>x. state x = Visible) instances)))"
proof -
  define st where "st = fold (ttl_pass policy now) instances ([], [])"
  let ?W = "warm_instances st instances" and ?E = "lru_evicted policy st instances"
  have dW: "distinct ?W" and dE: "distinct ?E"
    using assms by (auto simp: warm_instances_def lru_evicted_def distinct_map)
  have "length (filter (\<lambda>x. x \<notin> set ?E) ?W) = length ?W - length ?E"
    using dW dE lru_evicted_subset [of policy st instances] by (intro length_filter_notin) auto
  moreover have "length ?E \<le> length ?W"
    by (simp add: lru_evicted_def min_le_iff_disj length_filter_le)
  moreover have "length (filter (\<lambda>x. state x = Visible) ?W) \<le> length (filter (\<lambda>x. state x = Visible) instances)"
    by (simp add: warm_instances_def) (rule length_filter_subset, simp)
  ultimately show ?thesis
    using lru_evicted_length [of st instances policy]
    by (simp add: sweep_result_def warm_after_lru [OF assms] flip: st_def)
qed

lemma scheduled_suspends:
  assumes "sweep_inv instances now st"
  shows "length (filter (\<lambda>e. ev_type e = Suspend) (snd st)) =
         length (filter (\<lambda>p. snd p = ASuspend) (fst st))"
proof -
  have a: "action_event a = Suspend \<longleftrightarrow> a = ASuspend" for a by (cases a) auto
  have "map (\<lambda>e. (ev_instanceId e, ev_type e)) (snd st) = map (\<lambda>(k, a). (k, action_event a)) (fst st)"
    using assms by (simp add: sweep_inv_def)
  then have "length (filter (\<lambda>p. snd p = Suspend) (map (\<lambda>e. (ev_instanceId e, ev_type e)) (snd st))) =
        length (filter (\<lambda>p. snd p = Suspend) (map (\<lambda>(k, a). (k, action_event a)) (fst st)))"
    by simp
  then show ?thesis by (simp add: filter_map comp_def case_prod_beta a)
qed

lemma scheduled_instances:
  assumes "sweep_inv instances now st" and "distinct (map instanceId instances)"
  shows "length (filter (\<lambda>x. map_get (fst st) (instanceId x) = Some ASuspend) instances) =
         length (filter (\<lambda>p. snd p = ASuspend) (fst st))"
proof -
  let ?I = "map instanceId (filter (\<lambda>x. map_get (fst st) (instanceId x) = Some ASuspend) instances)"
  let ?K = "map fst (filter (\<lambda>p. snd p = ASuspend) (fst st))"
  have wf: "map_wf (fst st)" using assms(1) by (simp add: sweep_inv_def)
  have "k \<in> instanceId ` set instances" if "(k, a) \<in> set (fst st)" for k a
  proof -
    have "k \<in> ev_instanceId ` set (snd st)"
      using that sweep_inv_ids [OF assms(1)] by (metis fst_conv image_eqI image_set)
    then show ?thesis using assms(1) by (auto simp: sweep_inv_def decision_ok_def)
  qed
  then have eq: "set ?I = set ?K"
    using wf by (force simp: map_get_eq_iff)
  have "length ?I = card (set ?I)"
    by (rule distinct_card [symmetric]) (rule distinct_map_filter [OF assms(2)])
  also have "\<dots> = length ?K"
    unfolding eq by (rule distinct_card, rule distinct_map_filter) (use wf in \<open>simp add: map_wf_def\<close>)
  finally show ?thesis by simp
qed

lemma suspended_bound:
  assumes inv: "sweep_inv instances now st" and d: "distinct (map instanceId instances)"
    and st': "st' = suspended_pass policy now instances st"
  defines "susp \<equiv> length (filter (\<lambda>e. ev_type e = Suspend) (snd st'))"
  shows "int (length (filter (\<lambda>x. state x = Suspended \<and> \<not> map_has (fst st') (instanceId x)) instances)
             + susp) \<le> max (maxSuspended policy) (int susp)"
proof -
  let ?P = "projected_suspended st instances" and ?D = "overflow_destroyed policy st instances"
  let ?U = "filter (\<lambda>x. \<not> map_has (fst st) (instanceId x)) ?P"
  have dU: "distinct ?U" and dD: "distinct ?D"
    using d by (auto simp: projected_suspended_def overflow_destroyed_def distinct_map)
  have inj: "instanceId x \<in> instanceId ` set ?D \<longleftrightarrow> x \<in> set ?D" if "x \<in> set instances" for x
    using that d overflow_destroyed_subset [of policy st instances]
    by (auto simp: distinct_map inj_on_def)
  have sub: "set ?D \<subseteq> set ?U"
    by (auto simp: overflow_destroyed_def dest!: in_set_takeD)
  have eq: "filter (\<lambda>x. state x = Suspended \<and> \<not> map_has (fst st') (instanceId x)) instances =
        filter (\<lambda>x. x \<notin> set ?D) ?U"
    unfolding projected_suspended_def filter_filter st' suspended_pass_eq [OF d]
    using inj by (intro filter_cong)
      (auto simp: map_has_get map_get_append map_get_def [of "map _ _"] map_of_eq_None_iff image_image
        split: option.splits)
  have kept: "length (filter (\<lambda>x. state x = Suspended \<and> \<not> map_has (fst st') (instanceId x)) instances) =
        length ?U - length ?D"
    by (simp only: eq length_filter_notin [OF dU dD sub])
  have "susp = length (filter (\<lambda>e. ev_type e = Suspend) (snd st))"
    by (simp add: susp_def st' suspended_pass_eq [OF d] filter_map comp_def)
  also have "\<dots> = length (filter (\<lambda>x. map_get (fst st) (instanceId x) = Some ASuspend) instances)"
    using scheduled_suspends [OF inv] scheduled_instances [OF inv d] by simp
  also have "\<dots> = length (filter (\<lambda>x. map_has (fst st) (instanceId x)) ?P)"
    unfolding projected_suspended_def filter_filter
    by (rule arg_cong [where f = length], rule filter_cong)
       (auto simp: map_has_get split: option.splits)
  finally have "length ?P = susp + length ?U"
    using length_filter_split [of "\<lambda>_. True" ?P "\<lambda>x. map_has (fst st) (instanceId x)"] by simp
  with kept show ?thesis by (auto simp: overflow_destroyed_def)
qed

section \<open>Expiry and eviction order\<close>

definition expired :: "resource_policy \<Rightarrow> int \<Rightarrow> applet_instance \<Rightarrow> bool" where
  "expired policy now inst \<longleftrightarrow>
     state inst = HiddenWarm \<and> now - lastHiddenAt inst > hiddenWarmTtlMs policy
     \<or> state inst = Paused \<and> now - lastTouchedAt inst > pausedTtlMs policy
     \<or> state inst = Suspended \<and> now - lastTouchedAt inst > suspendedTtlMs policy"

lemma schedule_has:
  "map_has (fst (schedule now inst a reason st)) k \<longleftrightarrow> k = instanceId inst \<or> map_has (fst st) k"
  by (auto simp: schedule_def map_has_get)

lemma ttl_pass_has:
  "map_has (fst (ttl_pass policy now inst st)) k \<longleftrightarrow>
     (expired policy now inst \<and> k = instanceId inst) \<or> map_has (fst st) k"
  by (auto simp: ttl_pass_def expired_def schedule_has)

lemma ttl_has:
  "map_has (fst (fold (ttl_pass policy now) xs st)) k \<longleftrightarrow>
     (\<exists>x \<in> set xs. expired policy now x \<and> k = instanceId x) \<or> map_has (fst st) k"
  by (induction xs arbitrary: st) (auto simp: ttl_pass_has)

lemma ttl_reasons:
  "\<forall>e \<in> set (snd st). ev_reason e \<noteq> Some ''lru-evict'' \<Longrightarrow>
     \<forall>e \<in> set (snd (fold (ttl_pass policy now) xs st)). ev_reason e \<noteq> Some ''lru-evict''"
proof (induction xs arbitrary: st)
  case Nil
  then show ?case by simp
next
  case (Cons x xs)
  have "\<forall>e \<in> set (snd (ttl_pass policy now x st)). ev_reason e \<noteq> Some ''lru-evict''"
    using Cons.prems by (auto simp: ttl_pass_def schedule_def buildEvent_def)
  then show ?case using Cons.IH by simp
qed

lemma sweep_result_has:
  assumes "distinct (map instanceId instances)"
  shows "map_has (fst (sweep_result policy now instances)) k \<longleftrightarrow>
     map_has (fst (lru_pass policy now instances (fold (ttl_pass policy now) instances ([], [])))) k
     \<or> k \<in> instanceId ` set (overflow_destroyed policy
           (lru_pass policy now instances (fold (ttl_pass policy now) instances ([], []))) instances)"
  by (simp add: sweep_result_def suspended_pass_eq [OF assms] map_has_def map_add_None
      map_of_eq_None_iff image_image)

lemma sweep_ids_has:
  "k \<in> ev_instanceId ` set (sweep policy r now) \<longleftrightarrow>
     map_has (fst (sweep_result policy now (reg_list r))) k"
  using sweep_inv_has [OF sweep_inv_result] by (simp add: sweep_def)

lemma lru_events:
  assumes d: "distinct (map instanceId instances)"
    and e: "e \<in> set (snd (sweep_result policy now instances))" "ev_reason e = Some ''lru-evict''"
  shows "\<exists>x \<in> set (lru_evicted policy (fold (ttl_pass policy now) instances ([], [])) instances).
           ev_instanceId e = instanceId x"
proof -
  let ?st = "fold (ttl_pass policy now) instances ([], [])"
  have "ev_reason (buildEvent x a now reason) = Some reason" for x a reason
    by (simp add: buildEvent_def)
  moreover have "e \<notin> set (snd ?st)"
    using ttl_reasons [of "([], [])"] e(2) by fastforce
  ultimately show ?thesis
    using e by (auto simp: sweep_result_def suspended_pass_eq [OF d] lru_pass_eq [OF d])
qed

section \<open>Scheduler properties\<close>

text \<open>
  A sweep makes at most one decision per instance, and every decision is a transition the
  lifecycle contract allows from the instance's current state: it suspends hidden or paused
  instances and destroys suspended ones, so a visible or a materializing instance is never
  reclaimed.
\<close>

theorem sweep_proposals_legal:
  assumes "registry_wf r"
  shows "distinct (map ev_instanceId (sweep policy r now))
    \<and> (\<forall>e \<in> set (sweep policy r now). \<exists>inst.
          reg_get r (ev_instanceId e) = Some inst \<and> ev_timestamp e = now
          \<and> isValidTransition (state inst) (ev_type e)
              (if ev_type e = Suspend then Suspended else Destroyed)
          \<and> (if ev_type e = Suspend then state inst \<in> {HiddenWarm, Paused}
             else ev_type e = Destroy \<and> state inst = Suspended))"
proof (intro conjI ballI)
  fix e assume "e \<in> set (sweep policy r now)"
  then have "decision_ok (reg_list r) now e" by (rule sweep_decisions_ok)
  with assms show "\<exists>inst. reg_get r (ev_instanceId e) = Some inst \<and> ev_timestamp e = now
          \<and> isValidTransition (state inst) (ev_type e)
              (if ev_type e = Suspend then Suspended else Destroyed)
          \<and> (if ev_type e = Suspend then state inst \<in> {HiddenWarm, Paused}
             else ev_type e = Destroy \<and> state inst = Suspended)"
    by (auto simp: decision_ok_def reg.all_get contract_defs)
qed (rule sweep_distinct_ids)

text \<open>
  C16. After a sweep at most \<^verbatim>\<open>lruSize\<close> instances stay warm, unless more than that are
  visible, and at most \<^verbatim>\<open>maxSuspended\<close> are suspended, counting the ones this sweep suspends,
  unless the sweep itself suspends more than that: an instance it has just suspended is not
  destroyed in the same sweep.
\<close>

theorem sweep_respects_limits:
  assumes "registry_wf r"
  shows "let evs = sweep policy r now in
         int (length (filter (\<lambda>x. isWarmState (state x) \<and> instanceId x \<notin> ev_instanceId ` set evs)
             (reg_list r)))
           \<le> max (lruSize policy) (int (length (reg_listByState r Visible)))
       \<and> int (length (filter (\<lambda>x. state x = Suspended \<and> instanceId x \<notin> ev_instanceId ` set evs)
             (reg_list r)) + length (filter (\<lambda>e. ev_type e = Suspend) evs))
           \<le> max (maxSuspended policy) (int (length (filter (\<lambda>e. ev_type e = Suspend) evs)))"
  unfolding Let_def
proof
  let ?I = "reg_list r" and ?evs = "sweep policy r now"
  have d: "distinct (map instanceId ?I)" using assms(1) by (rule reg.all_distinct)
  show "int (length (filter (\<lambda>x. isWarmState (state x) \<and> instanceId x \<notin> ev_instanceId ` set ?evs) ?I))
        \<le> max (lruSize policy) (int (length (reg_listByState r Visible)))"
    unfolding sweep_ids_has reg_listByState_def by (rule warm_bound [OF d])
  have inv: "sweep_inv ?I now (lru_pass policy now ?I (fold (ttl_pass policy now) ?I ([], [])))"
    by (intro sweep_inv_lru sweep_inv_ttl) (simp_all add: sweep_inv_def)
  show "int (length (filter (\<lambda>x. state x = Suspended \<and> instanceId x \<notin> ev_instanceId ` set ?evs) ?I)
          + length (filter (\<lambda>e. ev_type e = Suspend) ?evs))
        \<le> max (maxSuspended policy) (int (length (filter (\<lambda>e. ev_type e = Suspend) ?evs)))"
    unfolding sweep_ids_has unfolding sweep_def
    by (rule suspended_bound [OF inv d sweep_result_def])
qed

text \<open>
  The least-recently-used pass evicts the oldest: an instance evicted by it was last touched
  no later than any hidden or paused instance the sweep leaves alone.
\<close>

theorem sweep_evicts_least_recent:
  assumes "registry_wf r" and "e \<in> set (sweep policy r now)" and "ev_reason e = Some ''lru-evict''"
    and "reg_get r (ev_instanceId e) = Some x"
    and "reg_get r i = Some y" and "state y \<in> {HiddenWarm, Paused}"
    and "i \<notin> ev_instanceId ` set (sweep policy r now)"
  shows "lastTouchedAt x \<le> lastTouchedAt y"
proof -
  let ?I = "reg_list r"
  let ?st = "fold (ttl_pass policy now) ?I ([], [])"
  let ?S = "sort_key lastTouchedAt (filter (\<lambda>inst. state inst \<noteq> Visible) (warm_instances ?st ?I))"
  have d: "distinct (map instanceId ?I)" using assms(1) by (rule reg.all_distinct)
  have x: "x \<in> set ?I" and y: "y \<in> set ?I" "instanceId y = i"
    using assms(1,4,5) by (auto simp: reg.all_get_iff)
  obtain z where z: "z \<in> set (lru_evicted policy ?st ?I)" "ev_instanceId e = instanceId z"
    using lru_events [OF d assms(2) [unfolded sweep_def] assms(3)] by blast
  have "z \<in> set ?I" using z(1) lru_evicted_subset [of policy ?st ?I] by (auto simp: warm_instances_def)
  then have "x = z" using x z(2) d assms(1,4) reg.get_id by (metis distinct_map inj_onD)
  have "\<not> map_has (fst (sweep_result policy now ?I)) i"
    using assms(7) by (simp add: sweep_ids_has)
  then have out: "\<not> map_has (fst (lru_pass policy now ?I ?st)) i"
    by (simp add: sweep_result_has [OF d])
  then have "\<not> map_has (fst ?st) i" and "y \<notin> set (lru_evicted policy ?st ?I)"
    using y by (auto simp: lru_pass_eq [OF d] map_has_def map_add_None map_of_eq_None_iff image_image)
  then have "y \<in> set ?S" and "y \<notin> set (take (nat (int (length (warm_instances ?st ?I)) - lruSize policy)) ?S)"
    using y assms(6) by (auto simp: lru_evicted_def warm_instances_def isWarmState_def)
  then have "y \<in> set (drop (nat (int (length (warm_instances ?st ?I)) - lruSize policy)) ?S)"
    by (metis Un_iff append_take_drop_id set_append)
  then show ?thesis
    using z(1) \<open>x = z\<close> take_sorted_prefix_le [of lastTouchedAt ?S]
    by (simp add: lru_evicted_def)
qed

lemma sweep_expired_event:
  assumes "registry_wf r" and "reg_get r i = Some inst" and "expired policy now inst"
  shows "\<exists>e \<in> set (sweep policy r now). ev_instanceId e = i
           \<and> ev_type e = (if state inst = Suspended then Destroy else Suspend)"
proof -
  let ?I = "reg_list r"
  have d: "distinct (map instanceId ?I)" using assms(1) by (rule reg.all_distinct)
  have inst: "inst \<in> set ?I" "instanceId inst = i"
    using assms(1,2) by (auto simp: reg.all_get_iff)
  then have "map_has (fst (fold (ttl_pass policy now) ?I ([], []))) i"
    using assms(3) by (auto simp: ttl_has)
  then have "i \<in> ev_instanceId ` set (sweep policy r now)"
    unfolding sweep_ids_has sweep_result_has [OF d]
    by (simp add: lru_pass_eq [OF d] map_has_def map_add_None)
  then obtain e where e: "e \<in> set (sweep policy r now)" "ev_instanceId e = i" by blast
  from sweep_decisions_ok [OF this(1)] obtain x
    where x: "x \<in> set ?I" "i = instanceId x"
      "ev_type e = Suspend \<and> state x \<in> {HiddenWarm, Paused}
       \<or> ev_type e = Destroy \<and> state x = Suspended"
    using e(2) by (auto simp: decision_ok_def)
  have "x = inst" using x(1,2) inst d by (metis distinct_map inj_onD)
  with x(3) e show ?thesis by auto
qed

text \<open>
  A sweep reclaims every expired instance: hidden longer than its time to live or paused too
  long is proposed for suspension, suspended too long for destruction.
\<close>

theorem sweep_reclaims_expired:
  assumes "registry_wf r" and "reg_get r i = Some inst" and "expired policy now inst"
  shows "\<exists>e \<in> set (sweep policy r now). ev_instanceId e = i
           \<and> ev_type e = (if state inst = Suspended then Destroy else Suspend)"
  using assms by (rule sweep_expired_event)

text \<open>
  Memory pressure: low pressure reclaims nothing; moderate pressure destroys at most one
  instance, a suspended one that no other suspended one is older than, and destroys one whenever
  one is suspended; critical pressure destroys exactly the instances that are not visible.
\<close>

theorem onMemoryPressure_correct:
  "onMemoryPressure r Low now = []
   \<and> (case onMemoryPressure r Moderate now of
        [] \<Rightarrow> reg_listByState r Suspended = []
      | [e] \<Rightarrow> ev_type e = Destroy
          \<and> (\<exists>x \<in> set (reg_listByState r Suspended). ev_instanceId e = instanceId x
               \<and> (\<forall>y \<in> set (reg_listByState r Suspended). lastTouchedAt x \<le> lastTouchedAt y))
      | _ \<Rightarrow> False)
   \<and> map ev_instanceId (onMemoryPressure r Critical now) =
       map instanceId (filter (\<lambda>x. state x \<noteq> Visible) (reg_list r))
   \<and> (\<forall>e \<in> set (onMemoryPressure r Critical now). ev_type e = Destroy)"
proof -
  let ?S = "filter (\<lambda>inst. state inst = Suspended) (reg_list r)"
  have "case onMemoryPressure r Moderate now of
        [] \<Rightarrow> reg_listByState r Suspended = []
      | [e] \<Rightarrow> ev_type e = Destroy
          \<and> (\<exists>x \<in> set (reg_listByState r Suspended). ev_instanceId e = instanceId x
               \<and> (\<forall>y \<in> set (reg_listByState r Suspended). lastTouchedAt x \<le> lastTouchedAt y))
      | _ \<Rightarrow> False"
  proof (cases "sort_key lastTouchedAt ?S")
    case Nil
    then have "?S = []" by (metis length_0_conv length_sort)
    with Nil show ?thesis by (simp add: onMemoryPressure_def reg_listByState_def)
  next
    case (Cons x xs)
    have s: "set ?S = set (x # xs)" using Cons by (metis set_sort)
    have "sorted (map lastTouchedAt (x # xs))" using Cons by (metis sorted_sort_key)
    then have "\<forall>y \<in> set (x # xs). lastTouchedAt x \<le> lastTouchedAt y" by simp
    then have "\<exists>z \<in> set ?S. instanceId x = instanceId z
        \<and> (\<forall>y \<in> set ?S. lastTouchedAt z \<le> lastTouchedAt y)"
      unfolding s by auto
    with Cons show ?thesis by (simp add: onMemoryPressure_def reg_listByState_def)
  qed
  then show ?thesis by (simp add: onMemoryPressure_def comp_def)
qed

section \<open>Witnesses\<close>

definition demo_instance :: "string \<Rightarrow> applet_state \<Rightarrow> int \<Rightarrow> applet_instance" where
  "demo_instance i s t =
     \<lparr>appletId = ''app'', instanceId = i, sessionId = ''sid'', state = s, createdAt = 0,
      lastVisibleAt = 0, lastHiddenAt = t, lastTouchedAt = t, memoryEstimate = 0, crashCount = 0,
      manifestVersion = ''1'', platform = Desktop\<rparr>"

definition demo_registry :: registry where
  "demo_registry =
     [(''a'', demo_instance ''a'' HiddenWarm 30), (''b'', demo_instance ''b'' Paused 10),
      (''c'', demo_instance ''c'' Visible 40), (''d'', demo_instance ''d'' Suspended 5)]"

definition demo_policy :: resource_policy where
  "demo_policy =
     \<lparr>lruSize = 2, maxSuspended = 1, hiddenWarmTtlMs = 1000, suspendedTtlMs = 1000,
      pausedTtlMs = 1000\<rparr>"

lemma demo_registry_wf: "registry_wf demo_registry"
  by (simp add: demo_registry_def registry_wf_def map_wf_def live_state_def demo_instance_def)

lemma demo_sweep:
  "sweep demo_policy demo_registry 50 =
     [buildEvent (demo_instance ''b'' Paused 10) ASuspend 50 ''lru-evict'',
      buildEvent (demo_instance ''d'' Suspended 5) ADestroy 50 ''lru-suspended-overflow'']"
  by code_simp

theorem sweep_proposals_legal_witness:
  "registry_wf demo_registry \<and> sweep demo_policy demo_registry 50 \<noteq> []
   \<and> distinct (map ev_instanceId (sweep demo_policy demo_registry 50))"
  using sweep_proposals_legal [OF demo_registry_wf, of demo_policy 50] demo_registry_wf
  by (simp add: demo_sweep)

theorem sweep_respects_limits_witness:
  "registry_wf demo_registry
   \<and> int (length (filter (\<lambda>x. isWarmState (state x) \<and>
        instanceId x \<notin> ev_instanceId ` set (sweep demo_policy demo_registry 50))
        (reg_list demo_registry))) \<le> 2"
proof -
  have "int (length (reg_listByState demo_registry Visible)) = 1" and "lruSize demo_policy = 2"
    by code_simp+
  then show ?thesis
    using sweep_respects_limits [OF demo_registry_wf, of demo_policy 50] demo_registry_wf
    unfolding Let_def by simp
qed

theorem sweep_evicts_least_recent_witness:
  "\<exists>e \<in> set (sweep demo_policy demo_registry 50). \<exists>x y.
     ev_reason e = Some ''lru-evict'' \<and> reg_get demo_registry (ev_instanceId e) = Some x
     \<and> reg_get demo_registry ''a'' = Some y \<and> lastTouchedAt x \<le> lastTouchedAt y"
proof -
  let ?e = "buildEvent (demo_instance ''b'' Paused 10) ASuspend 50 ''lru-evict''"
  let ?x = "demo_instance ''b'' Paused 10" and ?y = "demo_instance ''a'' HiddenWarm 30"
  have e: "?e \<in> set (sweep demo_policy demo_registry 50)" by (simp add: demo_sweep)
  have r: "ev_reason ?e = Some ''lru-evict''" by (simp add: buildEvent_def)
  have x: "reg_get demo_registry (ev_instanceId ?e) = Some ?x"
    and y: "reg_get demo_registry ''a'' = Some ?y"
    by (simp_all add: reg_get_def demo_registry_def demo_instance_def)
  have "state ?y \<in> {HiddenWarm, Paused}"
    and "''a'' \<notin> ev_instanceId ` set (sweep demo_policy demo_registry 50)"
    by (simp_all add: demo_sweep demo_instance_def)
  with sweep_evicts_least_recent [OF demo_registry_wf e r x y] e r x y show ?thesis by blast
qed

theorem sweep_reclaims_expired_witness:
  "reg_get demo_registry ''a'' = Some (demo_instance ''a'' HiddenWarm 30)
   \<and> expired demo_policy 5000 (demo_instance ''a'' HiddenWarm 30)
   \<and> (\<exists>e \<in> set (sweep demo_policy demo_registry 5000). ev_instanceId e = ''a'' \<and> ev_type e = Suspend)"
proof -
  have g: "reg_get demo_registry ''a'' = Some (demo_instance ''a'' HiddenWarm 30)"
    by (simp add: reg_get_def demo_registry_def)
  have x: "expired demo_policy 5000 (demo_instance ''a'' HiddenWarm 30)"
    by (simp add: expired_def demo_policy_def demo_instance_def)
  show ?thesis
    using sweep_reclaims_expired [OF demo_registry_wf g x] g x by (simp add: demo_instance_def)
qed

theorem onMemoryPressure_correct_witness:
  "onMemoryPressure demo_registry Low 50 = []
   \<and> map ev_instanceId (onMemoryPressure demo_registry Critical 50) = [''a'', ''b'', ''d'']"
  using onMemoryPressure_correct [of demo_registry 50]
  by (simp add: demo_registry_def demo_instance_def reg_list_def map_values_def)

end
