(* ===== verification/Applet_Kernel.thy ===== *)
theory Applet_Kernel
  imports Applet_Permission Applet_Scheduler
begin

text \<open>
  The applet kernel, \<^verbatim>\<open>packages/applet-kernel/src\<close>: the session manager
  (\<^verbatim>\<open>session-manager.ts\<close>), the lifecycle orchestrator (\<^verbatim>\<open>lifecycle-orchestrator.ts\<close>) and
  the composition root (\<^verbatim>\<open>index.ts\<close>).

  The platform adapter and the session backend are outside the repository's kernel: a call to one
  of them is an \<open>effect\<close>, recorded in order, and how it settles is not fixed by the model
  (\<open>None\<close> for success, \<open>Some message\<close> for a rejection).  The asynchronous method
  \<^verbatim>\<open>dispatch\<close> is cut at its \<^verbatim>\<open>await\<close> points: \<open>dispatch_start\<close> runs to the first one,
  \<open>dispatch_continue\<close> from one to the next.  Driving one dispatch to its end gives the sequential
  function \<open>dispatch\<close>; interleaving the pieces of many dispatches gives the step system
  \<open>config_step\<close>.  Log lines written after the last shared access of a piece are kept with it.
\<close>

section \<open>Kernel state and effects\<close>

datatype surface_command = CMount | CShow | CHide | CDetach | CDestroy

datatype effect =
    ApplySurface surface_command string string
  | CreateSession string string
  | RenewSession string
  | DestroySession string

record kernel =
  k_registry :: registry
  k_perms :: permission_state
  k_effects :: "effect list"
  k_log :: "log_entry list"

record dispatch_result =
  accepted :: bool
  dr_from :: applet_state
  dr_to :: "applet_state option"
  rejectedReason :: "string option"

definition rejected :: "applet_state \<Rightarrow> string \<Rightarrow> dispatch_result" where
  "rejected s why = \<lparr>accepted = False, dr_from = s, dr_to = None, rejectedReason = Some why\<rparr>"

definition accepted_to :: "applet_state \<Rightarrow> applet_state \<Rightarrow> dispatch_result" where
  "accepted_to s t = \<lparr>accepted = True, dr_from = s, dr_to = Some t, rejectedReason = None\<rparr>"

definition emit :: "effect \<Rightarrow> kernel \<Rightarrow> kernel" where
  "emit e k = k\<lparr>k_effects := k_effects k @ [e]\<rparr>"

definition klog :: "log_level \<Rightarrow> string \<Rightarrow> (string \<times> log_value) list \<Rightarrow> kernel \<Rightarrow> kernel" where
  "klog level msg ctx k = k\<lparr>k_log := k_log k @ [log_line level msg ctx]\<rparr>"

definition init_kernel :: kernel where
  "init_kernel = \<lparr>k_registry = [], k_perms = init_permissions, k_effects = [], k_log = []\<rparr>"

section \<open>Session manager\<close>

definition session_create_settle ::
  "string \<Rightarrow> string \<Rightarrow> string + string \<Rightarrow> kernel \<Rightarrow> (string + string) \<times> kernel" where
  "session_create_settle app i outcome k =
     (case outcome of
        Inr sid \<Rightarrow>
          (Inr sid, klog LInfo ''session created'' [(''appletId'', LStr app), (''instanceId'', LStr i)] k)
      | Inl err \<Rightarrow>
          (Inl err, klog LError ''session create failed''
             [(''appletId'', LStr app), (''instanceId'', LStr i), (''error'', LStr err)] k))"

definition session_renew_settle :: "string option \<Rightarrow> kernel \<Rightarrow> (string + unit) \<times> kernel" where
  "session_renew_settle outcome k =
     (case outcome of
        None \<Rightarrow> (Inr (), klog LDebug ''session renewed'' [] k)
      | Some err \<Rightarrow> (Inl err, klog LError ''session renew failed'' [(''error'', LStr err)] k))"

definition session_destroy_settle :: "string option \<Rightarrow> kernel \<Rightarrow> (string + unit) \<times> kernel" where
  "session_destroy_settle outcome k =
     (case outcome of
        None \<Rightarrow> (Inr (), klog LDebug ''session destroyed'' [] k)
      | Some err \<Rightarrow> (Inl err, klog LError ''session destroy failed'' [(''error'', LStr err)] k))"

section \<open>Lifecycle orchestrator\<close>

definition resolveTarget :: "applet_state \<Rightarrow> applet_event_type \<Rightarrow> applet_state option" where
  "resolveTarget s e =
     (case e of
        Resume \<Rightarrow> Some Visible
      | Error \<Rightarrow> Some Destroyed
      | MemoryPressure \<Rightarrow> None
      | _ \<Rightarrow> nextState s e)"

definition side_command :: "applet_event_type \<Rightarrow> surface_command option" where
  "side_command e =
     (case e of
        Show \<Rightarrow> Some CShow
      | Restore \<Rightarrow> Some CShow
      | Resume \<Rightarrow> Some CShow
      | Hide \<Rightarrow> Some CHide
      | Suspend \<Rightarrow> Some CDetach
      | _ \<Rightarrow> None)"

definition applySideEffect ::
  "applet_event_type \<Rightarrow> string \<Rightarrow> string \<Rightarrow> kernel \<Rightarrow> kernel" where
  "applySideEffect e app i k =
     (case side_command e of None \<Rightarrow> k | Some c \<Rightarrow> emit (ApplySurface c app i) k)"

text \<open>
  What a suspended dispatch remembers: the event, the state it read, the target it resolved and,
  for a reclaim, the session id it will destroy next.
\<close>

datatype pending =
    AwaitSurfaceDestroy applet_event applet_state applet_state string
  | AwaitSessionDestroy applet_event applet_state applet_state
  | AwaitSideEffect applet_event applet_state applet_state

definition reject_illegal ::
  "applet_event \<Rightarrow> applet_state \<Rightarrow> string \<Rightarrow> kernel \<Rightarrow> (dispatch_result + pending) \<times> kernel" where
  "reject_illegal ev s attempted k =
     (Inl (rejected s (''illegal-transition:'' @ state_name s @ ''-'' @ event_name (ev_type ev)
                       @ ''->'' @ attempted)),
      klog LWarn ''lifecycle transition rejected''
        [(''instanceId'', LStr (ev_instanceId ev)), (''from'', LStr (state_name s)),
         (''event'', LStr (event_name (ev_type ev))), (''target'', LStr attempted)] k)"

definition record_crash :: "applet_event \<Rightarrow> applet_state \<Rightarrow> kernel \<Rightarrow> kernel" where
  "record_crash ev s k =
     (let (n, r) = reg_incrementCrashCount (k_registry k) (ev_instanceId ev)
      in klog LWarn ''applet crashed, reclaiming instance''
           [(''instanceId'', LStr (ev_instanceId ev)), (''from'', LStr (state_name s)),
            (''crashCount'', LNum n)] (k\<lparr>k_registry := r\<rparr>))"

definition dispatch_start ::
  "applet_event \<Rightarrow> kernel \<Rightarrow> (dispatch_result + pending) \<times> kernel" where
  "dispatch_start ev k =
     (case reg_get (k_registry k) (ev_instanceId ev) of
        None \<Rightarrow>
          (Inl (rejected Cold ''instance-not-found''),
           klog LWarn ''lifecycle event for unknown instance''
             [(''instanceId'', LStr (ev_instanceId ev)),
              (''event'', LStr (event_name (ev_type ev)))] k)
      | Some inst \<Rightarrow>
          (case resolveTarget (state inst) (ev_type ev) of
             None \<Rightarrow> reject_illegal ev (state inst) ''unsupported'' k
           | Some target \<Rightarrow>
               if \<not> isValidTransition (state inst) (ev_type ev) target
               then reject_illegal ev (state inst) (state_name target) k
               else if ev_type ev = Destroy \<or> ev_type ev = Error then
                 (Inr (AwaitSurfaceDestroy ev (state inst) target (sessionId inst)),
                  emit (ApplySurface CDestroy (appletId inst) (instanceId inst))
                    (if ev_type ev = Error then record_crash ev (state inst) k else k))
               else
                 (Inr (AwaitSideEffect ev (state inst) target),
                  applySideEffect (ev_type ev) (appletId inst) (instanceId inst) k)))"

definition side_effect_failed ::
  "applet_event \<Rightarrow> applet_state \<Rightarrow> applet_state \<Rightarrow> string \<Rightarrow> kernel
     \<Rightarrow> (dispatch_result + pending) \<times> kernel" where
  "side_effect_failed ev s target err k =
     (Inl (rejected s ''side-effect-failed''),
      klog LError ''lifecycle side-effect failed''
        [(''instanceId'', LStr (ev_instanceId ev)), (''from'', LStr (state_name s)),
         (''event'', LStr (event_name (ev_type ev))), (''target'', LStr (state_name target)),
         (''error'', LStr err)] k)"

text \<open>
  \<^verbatim>\<open>launch\<close>, \<^verbatim>\<open>ready\<close> and \<^verbatim>\<open>pause\<close> await a side effect that calls nothing and so
  cannot fail.
\<close>

fun dispatch_continue ::
  "pending \<Rightarrow> string option \<Rightarrow> kernel \<Rightarrow> (dispatch_result + pending) \<times> kernel" where
  "dispatch_continue (AwaitSurfaceDestroy ev s target sid) outcome k =
     (case outcome of
        Some err \<Rightarrow> side_effect_failed ev s target err k
      | None \<Rightarrow> (Inr (AwaitSessionDestroy ev s target), emit (DestroySession sid) k))"
| "dispatch_continue (AwaitSessionDestroy ev s target) outcome k =
     (case session_destroy_settle outcome k of
        (Inl err, k') \<Rightarrow> side_effect_failed ev s target err k'
      | (Inr _, k') \<Rightarrow>
          (Inl (accepted_to s target),
           k'\<lparr>k_registry := reg_remove (k_registry k') (ev_instanceId ev)\<rparr>))"
| "dispatch_continue (AwaitSideEffect ev s target) outcome k =
     (case (side_command (ev_type ev), outcome) of
        (Some _, Some err) \<Rightarrow> side_effect_failed ev s target err k
      | _ \<Rightarrow>
          (Inl (accepted_to s target),
           k\<lparr>k_registry := snd (reg_setState (k_registry k) (ev_instanceId ev) target
                                 (ev_timestamp ev))\<rparr>))"

section \<open>One dispatch at a time\<close>

text \<open>
  A world answers a call given all calls made so far, the last being the one awaited.
\<close>

type_synonym world = "effect list \<Rightarrow> string option"

fun stage :: "pending \<Rightarrow> nat" where
  "stage (AwaitSurfaceDestroy _ _ _ _) = 2"
| "stage (AwaitSessionDestroy _ _ _) = 1"
| "stage (AwaitSideEffect _ _ _) = 1"

lemma dispatch_continue_stage:
  "dispatch_continue p out k = (Inr q, k') \<Longrightarrow> stage q < stage p"
  by (induction p out k rule: dispatch_continue.induct)
    (auto simp: side_effect_failed_def session_destroy_settle_def split: option.splits)

function drive :: "world \<Rightarrow> (dispatch_result + pending) \<times> kernel \<Rightarrow> dispatch_result \<times> kernel" where
  "drive w (Inl res, k) = (res, k)"
| "drive w (Inr p, k) = drive w (dispatch_continue p (w (k_effects k)) k)"
  by pat_completeness auto

termination
proof (relation "measure (\<lambda>(w, c). case fst c of Inl _ \<Rightarrow> 0 | Inr p \<Rightarrow> stage p)", goal_cases)
  case 1
  then show ?case by simp
next
  case (2 w p k)
  show ?case
  proof (cases "dispatch_continue p (w (k_effects k)) k")
    case (Pair a k')
    have "0 < stage p" by (cases p) auto
    with Pair show ?thesis by (cases a) (auto dest: dispatch_continue_stage)
  qed
qed

definition dispatch :: "world \<Rightarrow> applet_event \<Rightarrow> kernel \<Rightarrow> dispatch_result \<times> kernel" where
  "dispatch w ev k = drive w (dispatch_start ev k)"

fun dispatchAll :: "world \<Rightarrow> applet_event list \<Rightarrow> kernel \<Rightarrow> dispatch_result list \<times> kernel" where
  "dispatchAll w [] k = ([], k)"
| "dispatchAll w (ev # evs) k =
     (let (res, k') = dispatch w ev k; (rest, k'') = dispatchAll w evs k' in (res # rest, k''))"

definition runSweep ::
  "world \<Rightarrow> resource_policy \<Rightarrow> int \<Rightarrow> kernel \<Rightarrow> dispatch_result list \<times> kernel" where
  "runSweep w policy now k =
     (let evs = sweep policy (k_registry k) now
      in dispatchAll w evs
           (if evs \<noteq> [] then
              klog LDebug ''resource sweep emitted events'' [(''count'', LNum (int (length evs)))] k
            else k))"

fun level_name :: "memory_pressure_level \<Rightarrow> string" where
  "level_name Low = ''low''"
| "level_name Moderate = ''moderate''"
| "level_name Critical = ''critical''"

definition handleMemoryPressure ::
  "world \<Rightarrow> memory_pressure_level \<Rightarrow> int \<Rightarrow> kernel \<Rightarrow> dispatch_result list \<times> kernel" where
  "handleMemoryPressure w level now k =
     (let evs = onMemoryPressure (k_registry k) level now
      in dispatchAll w evs
           (if evs \<noteq> [] then
              klog LDebug ''memory pressure emitted events''
                [(''level'', LStr (level_name level)), (''count'', LNum (int (length evs)))] k
            else k))"

section \<open>What one dispatch does\<close>

lemma kernel_fields [simp]:
  "k_registry (emit e k) = k_registry k" "k_perms (emit e k) = k_perms k"
  "k_log (emit e k) = k_log k" "k_effects (emit e k) = k_effects k @ [e]"
  "k_registry (klog l m c k) = k_registry k" "k_perms (klog l m c k) = k_perms k"
  "k_log (klog l m c k) = k_log k @ [log_line l m c]" "k_effects (klog l m c k) = k_effects k"
  by (simp_all add: emit_def klog_def)

lemma result_fields [simp]:
  "\<not> accepted (rejected s why)" "dr_from (rejected s why) = s"
  "rejectedReason (rejected s why) = Some why"
  "accepted (accepted_to s t)" "dr_from (accepted_to s t) = s" "dr_to (accepted_to s t) = Some t"
  by (simp_all add: rejected_def accepted_to_def)

lemma record_crash_fields [simp]:
  "k_registry (record_crash ev s k) = snd (reg_incrementCrashCount (k_registry k) (ev_instanceId ev))"
  "k_perms (record_crash ev s k) = k_perms k"
  "k_effects (record_crash ev s k) = k_effects k"
  by (simp_all add: record_crash_def split: prod.split)

lemma applySideEffect_fields [simp]:
  "k_registry (applySideEffect e app i k) = k_registry k"
  "k_perms (applySideEffect e app i k) = k_perms k"
  by (simp_all add: applySideEffect_def split: option.split)

lemma resolveTarget_reclaim:
  "resolveTarget s e = Some t \<Longrightarrow> isValidTransition s e t \<Longrightarrow>
     e = Destroy \<or> e = Error \<longleftrightarrow> t = Destroyed"
  by (cases e) (auto simp: resolveTarget_def contract_defs split: if_splits)

lemma resolveTarget_live:
  "resolveTarget s e = Some t \<Longrightarrow> isValidTransition s e t \<Longrightarrow> t \<noteq> Destroyed \<Longrightarrow> live_state t"
  by (auto simp: live_state_def valid_to_cold)

lemma drive_side:
  "drive w (Inr (AwaitSideEffect ev s t), k) =
     (case (side_command (ev_type ev), w (k_effects k)) of
        (Some _, Some err) \<Rightarrow> drive w (side_effect_failed ev s t err k)
      | _ \<Rightarrow> (accepted_to s t,
           k\<lparr>k_registry := snd (reg_setState (k_registry k) (ev_instanceId ev) t (ev_timestamp ev))\<rparr>))"
  by (simp split: option.split)

lemma drive_reclaim:
  "drive w (Inr (AwaitSurfaceDestroy ev s t sid), k) =
     (case w (k_effects k) of
        Some err \<Rightarrow> drive w (side_effect_failed ev s t err k)
      | None \<Rightarrow>
          let k1 = emit (DestroySession sid) k in
          (case w (k_effects k1) of
             Some err \<Rightarrow> drive w (side_effect_failed ev s t err
                 (klog LError ''session destroy failed'' [(''error'', LStr err)] k1))
           | None \<Rightarrow> (accepted_to s t,
               (klog LDebug ''session destroyed'' [] k1)
                 \<lparr>k_registry := reg_remove (k_registry k) (ev_instanceId ev)\<rparr>)))"
  by (simp add: session_destroy_settle_def Let_def split: option.split)

lemma drive_failed:
  "drive w (side_effect_failed ev s t err k) =
     (rejected s ''side-effect-failed'', snd (side_effect_failed ev s t err k))"
  by (simp add: side_effect_failed_def)

lemma side_effect_failed_fields [simp]:
  "k_registry (snd (side_effect_failed ev s t err k)) = k_registry k"
  "k_perms (snd (side_effect_failed ev s t err k)) = k_perms k"
  by (simp_all add: side_effect_failed_def)

lemma dispatch_side_cases:
  assumes "dispatch w ev k = (res, k')"
    and "reg_get (k_registry k) (ev_instanceId ev) = Some inst"
    and "resolveTarget (state inst) (ev_type ev) = Some t"
    and "isValidTransition (state inst) (ev_type ev) t"
    and "ev_type ev \<noteq> Destroy" "ev_type ev \<noteq> Error"
  shows "k_perms k' = k_perms k \<and>
    (res = rejected (state inst) ''side-effect-failed'' \<and> k_registry k' = k_registry k
     \<or> res = accepted_to (state inst) t
       \<and> k_registry k' = snd (reg_setState (k_registry k) (ev_instanceId ev) t (ev_timestamp ev)))"
proof -
  let ?k1 = "applySideEffect (ev_type ev) (appletId inst) (instanceId inst) k"
  have "dispatch w ev k = drive w (Inr (AwaitSideEffect ev (state inst) t), ?k1)"
    using assms(2-) by (simp add: dispatch_def dispatch_start_def)
  with assms(1) show ?thesis
    by (simp only: drive_side drive_failed) (auto split: option.splits)
qed

lemma dispatch_reclaim_cases:
  assumes "dispatch w ev k = (res, k')"
    and "reg_get (k_registry k) (ev_instanceId ev) = Some inst"
    and "resolveTarget (state inst) (ev_type ev) = Some t"
    and "isValidTransition (state inst) (ev_type ev) t"
    and "ev_type ev = Destroy \<or> ev_type ev = Error"
  shows "k_perms k' = k_perms k \<and> (\<exists>r.
    (r = k_registry k
     \<or> ev_type ev = Error \<and> r = snd (reg_incrementCrashCount (k_registry k) (ev_instanceId ev)))
    \<and> (res = rejected (state inst) ''side-effect-failed'' \<and> k_registry k' = r
        \<or> res = accepted_to (state inst) t \<and> k_registry k' = reg_remove r (ev_instanceId ev)))"
proof -
  let ?k0 = "if ev_type ev = Error then record_crash ev (state inst) k else k"
  let ?k1 = "emit (ApplySurface CDestroy (appletId inst) (instanceId inst)) ?k0"
  have "dispatch w ev k = drive w (Inr (AwaitSurfaceDestroy ev (state inst) t (sessionId inst)), ?k1)"
    using assms(2-) by (simp add: dispatch_def dispatch_start_def)
  with assms(1) have "k_perms k' = k_perms ?k0 \<and>
     (res = rejected (state inst) ''side-effect-failed'' \<and> k_registry k' = k_registry ?k0
      \<or> res = accepted_to (state inst) t
        \<and> k_registry k' = reg_remove (k_registry ?k0) (ev_instanceId ev))"
    by (simp only: drive_reclaim drive_failed Let_def) (auto split: option.splits)
  then show ?thesis by (intro conjI exI [of _ "k_registry ?k0"]) (auto split: if_splits)
qed

text \<open>The three ways a dispatch can end, as a case rule on what becomes of the registry.\<close>

lemma dispatch_cases:
  assumes "dispatch w ev k = (res, k')"
  obtains
    (refused) why where
      "res = rejected (case reg_get (k_registry k) (ev_instanceId ev) of
                         None \<Rightarrow> Cold | Some inst \<Rightarrow> state inst) why"
      "k_perms k' = k_perms k"
      "k_registry k' = k_registry k
       \<or> (ev_type ev = Error
           \<and> k_registry k' = snd (reg_incrementCrashCount (k_registry k) (ev_instanceId ev)))"
  | (moved) inst t where
      "reg_get (k_registry k) (ev_instanceId ev) = Some inst"
      "resolveTarget (state inst) (ev_type ev) = Some t"
      "isValidTransition (state inst) (ev_type ev) t" "t \<noteq> Destroyed"
      "res = accepted_to (state inst) t" "k_perms k' = k_perms k"
      "k_registry k' =
         snd (reg_setState (k_registry k) (ev_instanceId ev) t (ev_timestamp ev))"
  | (reclaimed) inst r where
      "reg_get (k_registry k) (ev_instanceId ev) = Some inst"
      "isValidTransition (state inst) (ev_type ev) Destroyed"
      "res = accepted_to (state inst) Destroyed" "k_perms k' = k_perms k"
      "k_registry k' = reg_remove r (ev_instanceId ev)"
      "r = k_registry k \<or> r = snd (reg_incrementCrashCount (k_registry k) (ev_instanceId ev))"
proof (cases "reg_get (k_registry k) (ev_instanceId ev)")
  case None
  with assms show thesis
    by (intro refused) (auto simp: dispatch_def dispatch_start_def)
next
  case (Some inst)
  note inst = this
  show thesis
  proof (cases "resolveTarget (state inst) (ev_type ev)")
    case None
    with assms inst show thesis
      by (intro refused) (auto simp: dispatch_def dispatch_start_def reject_illegal_def)
  next
    case (Some t)
    note t = this
    consider "\<not> isValidTransition (state inst) (ev_type ev) t"
      | "isValidTransition (state inst) (ev_type ev) t" "t = Destroyed"
      | "isValidTransition (state inst) (ev_type ev) t" "t \<noteq> Destroyed" by blast
    then show thesis
    proof cases
      case 1
      with assms inst t show thesis
        by (intro refused) (auto simp: dispatch_def dispatch_start_def reject_illegal_def)
    next
      case 2
      with resolveTarget_reclaim [OF t] have "ev_type ev = Destroy \<or> ev_type ev = Error" by blast
      from dispatch_reclaim_cases [OF assms inst t 2(1) this] show thesis
        using inst 2 by (elim conjE exE disjE) (auto intro: refused reclaimed)
    next
      case 3
      with resolveTarget_reclaim [OF t] have "ev_type ev \<noteq> Destroy" "ev_type ev \<noteq> Error" by blast+
      from dispatch_side_cases [OF assms inst t 3(1) this] show thesis
        using inst t 3 by (elim conjE disjE) (auto intro: refused moved)
    qed
  qed
qed

lemma dispatch_wf:
  assumes "dispatch w ev k = (res, k')" and "registry_wf (k_registry k)"
  shows "registry_wf (k_registry k')"
  using assms(1)
proof (cases rule: dispatch_cases)
  case (refused why)
  with assms(2) show ?thesis by (auto intro: reg.wf_bump)
next
  case (moved inst t)
  with assms(2) show ?thesis by (auto intro!: reg.wf_setState resolveTarget_live)
next
  case (reclaimed inst r)
  with assms(2) show ?thesis by (auto intro!: reg.wf_remove reg.wf_bump)
qed

lemma dispatch_other:
  assumes "dispatch w ev k = (res, k')" and "j \<noteq> ev_instanceId ev"
  shows "reg_get (k_registry k') j = reg_get (k_registry k) j"
  using assms(1)
  by (cases rule: dispatch_cases)
    (use assms(2) in \<open>auto simp: reg.get_setState reg.get_remove reg.get_bump\<close>)

lemma dispatch_state:
  assumes "dispatch w ev k = (res, k')"
  shows "map_option state (reg_get (k_registry k') (ev_instanceId ev)) =
    (if accepted res then (if dr_to res = Some Destroyed then None else dr_to res)
     else map_option state (reg_get (k_registry k) (ev_instanceId ev)))"
  using assms
proof (cases rule: dispatch_cases)
  case (refused why)
  then show ?thesis using reg.get_bump_state by auto
next
  case (moved inst t)
  then show ?thesis by (simp add: reg.get_setState)
next
  case (reclaimed inst r)
  then show ?thesis by (simp add: reg.get_remove)
qed

lemma dispatch_accepted:
  assumes "dispatch w ev k = (res, k')" and "accepted res"
  shows "\<exists>inst t. reg_get (k_registry k) (ev_instanceId ev) = Some inst
    \<and> dr_from res = state inst \<and> dr_to res = Some t
    \<and> isValidTransition (state inst) (ev_type ev) t"
  using assms(1)
  by (cases rule: dispatch_cases) (use assms(2) in auto)

text \<open>
  One dispatch, whatever the platform answers: the registry stays well formed and no other
  instance is touched; an accepted event is a transition the contract allows from the recorded
  state and the recorded state becomes its target (the record is gone when the target is
  \<^verbatim>\<open>destroyed\<close>); a refused one leaves every recorded state as it was and says why.
\<close>

theorem dispatch_respects_contract:
  assumes "registry_wf (k_registry k)" and "dispatch w ev k = (res, k')"
  shows "registry_wf (k_registry k') \<and> k_perms k' = k_perms k
    \<and> (\<forall>j. j \<noteq> ev_instanceId ev \<longrightarrow> reg_get (k_registry k') j = reg_get (k_registry k) j)
    \<and> (if accepted res
       then \<exists>inst t. reg_get (k_registry k) (ev_instanceId ev) = Some inst
              \<and> dr_from res = state inst \<and> dr_to res = Some t
              \<and> isValidTransition (state inst) (ev_type ev) t
              \<and> map_option state (reg_get (k_registry k') (ev_instanceId ev)) =
                  (if t = Destroyed then None else Some t)
       else rejectedReason res \<noteq> None
              \<and> map_option state (reg_get (k_registry k') (ev_instanceId ev)) =
                  map_option state (reg_get (k_registry k) (ev_instanceId ev)))"
proof (intro conjI allI impI)
  show "registry_wf (k_registry k')" using assms(2,1) by (rule dispatch_wf)
  show "k_perms k' = k_perms k" using assms(2) by (cases rule: dispatch_cases)
  show "reg_get (k_registry k') j = reg_get (k_registry k) j" if "j \<noteq> ev_instanceId ev" for j
    using assms(2) that by (rule dispatch_other)
  have "\<not> accepted res \<Longrightarrow> rejectedReason res \<noteq> None"
    using assms(2) by (cases rule: dispatch_cases) auto
  then show "if accepted res
       then \<exists>inst t. reg_get (k_registry k) (ev_instanceId ev) = Some inst
              \<and> dr_from res = state inst \<and> dr_to res = Some t
              \<and> isValidTransition (state inst) (ev_type ev) t
              \<and> map_option state (reg_get (k_registry k') (ev_instanceId ev)) =
                  (if t = Destroyed then None else Some t)
       else rejectedReason res \<noteq> None
              \<and> map_option state (reg_get (k_registry k') (ev_instanceId ev)) =
                  map_option state (reg_get (k_registry k) (ev_instanceId ev))"
    using dispatch_accepted [OF assms(2)] dispatch_state [OF assms(2)]
    by (cases "accepted res") force+
qed

section \<open>Sequences of dispatches\<close>

text \<open>
  The abstract view of one instance: its recorded state, \<^verbatim>\<open>destroyed\<close> once it has no record.
\<close>

definition abs_state :: "kernel \<Rightarrow> string \<Rightarrow> applet_state" where
  "abs_state k i = (case reg_get (k_registry k) i of None \<Rightarrow> Destroyed | Some inst \<Rightarrow> state inst)"

fun accepted_types ::
  "string \<Rightarrow> applet_event list \<Rightarrow> dispatch_result list \<Rightarrow> applet_event_type list" where
  "accepted_types i (ev # evs) (res # rest) =
     (if accepted res \<and> ev_instanceId ev = i then ev_type ev # accepted_types i evs rest
      else accepted_types i evs rest)"
| "accepted_types i _ _ = []"

lemma dispatch_abs:
  assumes "dispatch w ev k = (res, k')"
  shows "if accepted res \<and> ev_instanceId ev = i
    then isValidTransition (abs_state k i) (ev_type ev) (abs_state k' i)
    else abs_state k' i = abs_state k i"
proof (cases "ev_instanceId ev = i")
  case False
  then show ?thesis using dispatch_other [OF assms, of i] by (auto simp: abs_state_def)
next
  case True
  then show ?thesis
    using dispatch_state [OF assms] dispatch_accepted [OF assms]
    by (auto simp: abs_state_def split: option.splits if_splits)
qed

lemma dispatchAll_refines:
  "dispatchAll w evs k = (ress, k') \<Longrightarrow>
     legal_run (abs_state k i) (accepted_types i evs ress) (abs_state k' i)"
proof (induction evs arbitrary: k ress)
  case Nil
  then show ?case by (auto intro: legal_run.intros)
next
  case (Cons ev evs)
  obtain res k1 where d: "dispatch w ev k = (res, k1)" by (cases "dispatch w ev k")
  obtain rest where r: "dispatchAll w evs k1 = (rest, k')" and ress: "ress = res # rest"
    using Cons.prems d by (auto simp: Let_def split: prod.splits)
  from Cons.IH [OF r] show ?case
    using dispatch_abs [OF d, of i] by (auto simp: ress intro: run_cons split: if_splits)
qed

text \<open>
  C1. Refinement of the state machine: however the platform answers, the events accepted for an
  instance in a sequence of dispatches, taken in order, are a run of the lifecycle contract from its
  recorded state before the sequence to its recorded state after it.
\<close>

theorem dispatchAll_refines_contract:
  assumes "dispatchAll w evs k = (ress, k')"
    and "reg_get (k_registry k) i = Some inst"
  shows "length ress = length evs
    \<and> (case reg_get (k_registry k') i of
         Some inst' \<Rightarrow> legal_run (state inst) (accepted_types i evs ress) (state inst')
       | None \<Rightarrow> legal_run (state inst) (accepted_types i evs ress) Destroyed)"
proof
  show "length ress = length evs"
    using assms(1)
    by (induction evs arbitrary: k ress) (auto simp: Let_def split: prod.splits)
  show "case reg_get (k_registry k') i of
         Some inst' \<Rightarrow> legal_run (state inst) (accepted_types i evs ress) (state inst')
       | None \<Rightarrow> legal_run (state inst) (accepted_types i evs ress) Destroyed"
    using dispatchAll_refines [OF assms(1), of i] assms(2)
    by (simp add: abs_state_def split: option.splits)
qed

section \<open>Reclaiming on a platform that answers\<close>

lemma dispatch_ok:
  assumes "\<And>h. w h = None" and "reg_get (k_registry k) (ev_instanceId ev) = Some inst"
    and "resolveTarget (state inst) (ev_type ev) = Some t"
    and "isValidTransition (state inst) (ev_type ev) t" and "ev_type ev \<noteq> Error"
    and "dispatch w ev k = (res, k')"
  shows "accepted res \<and> k_registry k' =
    (if ev_type ev = Destroy then reg_remove (k_registry k) (ev_instanceId ev)
     else snd (reg_setState (k_registry k) (ev_instanceId ev) t (ev_timestamp ev)))"
  using assms(6)
  by (auto simp: dispatch_def dispatch_start_def assms(1-5) session_destroy_settle_def
      split: option.splits)

text \<open>What one reclaiming event does to the list of records.\<close>

definition reclaim :: "applet_event \<Rightarrow> applet_instance list \<Rightarrow> applet_instance list" where
  "reclaim ev xs =
     (if ev_type ev = Destroy then filter (\<lambda>x. instanceId x \<noteq> ev_instanceId ev) xs
      else map (\<lambda>x. if instanceId x = ev_instanceId ev
                    then stamp Suspended (ev_timestamp ev) x else x) xs)"

definition reclaimable :: "registry \<Rightarrow> applet_event \<Rightarrow> bool" where
  "reclaimable r ev \<longleftrightarrow> (\<exists>inst. reg_get r (ev_instanceId ev) = Some inst
     \<and> (ev_type ev = Suspend \<and> state inst \<in> {HiddenWarm, Paused} \<or> ev_type ev = Destroy))"

lemma dispatch_reclaimable:
  assumes "\<And>h. w h = None" and "registry_wf (k_registry k)" and "reclaimable (k_registry k) ev"
    and "dispatch w ev k = (res, k')"
  shows "accepted res \<and> reg_list (k_registry k') = reclaim ev (reg_list (k_registry k))"
proof -
  obtain inst where i: "reg_get (k_registry k) (ev_instanceId ev) = Some inst"
    and t: "ev_type ev = Suspend \<and> state inst \<in> {HiddenWarm, Paused} \<or> ev_type ev = Destroy"
    using assms(3) by (auto simp: reclaimable_def)
  have "live_state (state inst)" using reg.get_id [OF assms(2) i] by simp
  with t show ?thesis
    using dispatch_ok [OF assms(1) i _ _ _ assms(4)]
    by (auto simp: resolveTarget_def contract_defs live_state_def reclaim_def
        reg.all_setState [OF assms(2)] reg.all_remove [OF assms(2)])
qed

lemma dispatchAll_reclaimable:
  assumes "\<And>h. w h = None" and "registry_wf (k_registry k)"
    and "\<forall>ev \<in> set evs. reclaimable (k_registry k) ev" and "distinct (map ev_instanceId evs)"
    and "dispatchAll w evs k = (ress, k')"
  shows "(\<forall>res \<in> set ress. accepted res) \<and> registry_wf (k_registry k')
    \<and> reg_list (k_registry k') = fold reclaim evs (reg_list (k_registry k))"
  using assms(2-)
proof (induction evs arbitrary: k ress)
  case Nil
  then show ?case by simp
next
  case (Cons ev evs)
  obtain res k1 where d: "dispatch w ev k = (res, k1)" by (cases "dispatch w ev k")
  obtain rest where r: "dispatchAll w evs k1 = (rest, k')" and ress: "ress = res # rest"
    using Cons.prems(4) d by (auto simp: Let_def split: prod.splits)
  have "\<forall>e \<in> set evs. reclaimable (k_registry k1) e"
    using Cons.prems(2,3) dispatch_other [OF d]
    by (auto simp: reclaimable_def) (metis image_eqI)+
  then show ?case
    using Cons.IH [OF dispatch_wf [OF d Cons.prems(1)] _ _ r] Cons.prems
      dispatch_reclaimable [OF assms(1) Cons.prems(1) _ d]
    by (simp add: ress)
qed

lemma filter_reclaim:
  assumes "\<And>x. P x \<Longrightarrow> state x \<noteq> Suspended"
  shows "filter P (reclaim ev xs) = filter (\<lambda>x. P x \<and> instanceId x \<noteq> ev_instanceId ev) xs"
proof -
  have "\<not> P (stamp Suspended at x)" for at x using assms by force
  then show ?thesis
    by (induction xs) (auto simp: reclaim_def)
qed

lemma filter_reclaims:
  assumes "\<And>x. P x \<Longrightarrow> state x \<noteq> Suspended"
  shows "filter P (fold reclaim evs xs) =
    filter (\<lambda>x. P x \<and> instanceId x \<notin> ev_instanceId ` set evs) xs"
proof (induction evs arbitrary: xs)
  case Nil
  then show ?case by simp
next
  case (Cons ev evs)
  have "filter (\<lambda>x. P x \<and> instanceId x \<notin> ev_instanceId ` set evs) (reclaim ev xs) =
      filter (\<lambda>x. instanceId x \<notin> ev_instanceId ` set evs) (filter P (reclaim ev xs))"
    by (simp add: conj_commute)
  then show ?case
    using Cons.IH by (simp add: filter_reclaim [OF assms] conj_ac)
qed

lemma sweep_reclaimable:
  assumes "registry_wf r" and "e \<in> set (sweep policy r now)"
  shows "reclaimable r e"
  using sweep_decisions_ok [OF assms(2)] assms(1)
  by (auto simp: decision_ok_def reclaimable_def reg.all_get_iff)

lemma map_ids_reclaim:
  "map instanceId (reclaim ev xs) =
     (if ev_type ev = Destroy then filter (\<lambda>i. i \<noteq> ev_instanceId ev) (map instanceId xs)
      else map instanceId xs)"
  by (simp add: reclaim_def filter_map comp_def if_distrib cong: if_cong)

lemma ids_reclaims:
  "i \<in> instanceId ` set (fold reclaim evs xs) \<longleftrightarrow>
     i \<in> instanceId ` set xs \<and> \<not> (\<exists>e \<in> set evs. ev_type e = Destroy \<and> ev_instanceId e = i)"
proof (induction evs arbitrary: xs)
  case Nil
  then show ?case by simp
next
  case (Cons ev evs)
  have "i \<in> instanceId ` set (reclaim ev xs) \<longleftrightarrow>
      i \<in> instanceId ` set xs \<and> \<not> (ev_type ev = Destroy \<and> ev_instanceId ev = i)"
    using map_ids_reclaim [of ev xs] by (auto simp flip: set_map)
  then show ?case using Cons.IH by auto
qed

lemma fold_reclaim_destroys:
  "\<forall>e \<in> set evs. ev_type e = Destroy \<Longrightarrow>
     fold reclaim evs xs = filter (\<lambda>x. instanceId x \<notin> ev_instanceId ` set evs) xs"
  by (induction evs arbitrary: xs) (auto simp: reclaim_def intro: filter_cong)

lemma runSweep_fold:
  assumes "\<And>h. w h = None" and "registry_wf (k_registry k)"
    and "runSweep w policy now k = (ress, k')"
  shows "(\<forall>res \<in> set ress. accepted res) \<and> registry_wf (k_registry k')
    \<and> reg_list (k_registry k') =
        fold reclaim (sweep policy (k_registry k) now) (reg_list (k_registry k))"
proof -
  let ?evs = "sweep policy (k_registry k) now"
  obtain k1 where k1: "dispatchAll w ?evs k1 = (ress, k')" "k_registry k1 = k_registry k"
    using assms(3) by (auto simp: runSweep_def Let_def split: if_splits)
  have "\<forall>ev \<in> set ?evs. reclaimable (k_registry k1) ev"
    using assms(2) by (simp add: sweep_reclaimable k1(2))
  from dispatchAll_reclaimable [OF assms(1) _ this sweep_distinct_ids k1(1)] assms(2)
  show ?thesis by (simp add: k1(2))
qed

lemma sweep_spares_visible:
  assumes "registry_wf r" and "x \<in> set (reg_list r)" and "state x = Visible"
  shows "instanceId x \<notin> ev_instanceId ` set (sweep policy r now)"
proof
  assume "instanceId x \<in> ev_instanceId ` set (sweep policy r now)"
  then obtain e where e: "e \<in> set (sweep policy r now)" "ev_instanceId e = instanceId x" by auto
  from sweep_decisions_ok [OF e(1)] e(2) obtain y
    where "y \<in> set (reg_list r)" "instanceId y = instanceId x" "state y \<noteq> Visible"
    by (auto simp: decision_ok_def)
  moreover have "distinct (map instanceId (reg_list r))" using assms(1) by (rule reg.all_distinct)
  ultimately have "y = x" using assms(2) by (metis distinct_map inj_onD)
  with \<open>state y \<noteq> Visible\<close> assms(3) show False by simp
qed

lemma expired_outcome:
  assumes "registry_wf r" and "reg_get r i = Some inst" and e: "e \<in> set evs" "ev_instanceId e = i"
    "ev_type e = (if state inst = Suspended then Destroy else Suspend)"
    and "distinct (map ev_instanceId evs)"
    and wf': "registry_wf r'" and list: "reg_list r' = fold reclaim evs (reg_list r)"
  shows "map_option state (reg_get r' i) = (if state inst = Suspended then None else Some Suspended)"
proof -
  have only: "e' = e" if "e' \<in> set evs" "ev_instanceId e' = i" for e'
    using that e(1,2) assms(6) by (metis distinct_map inj_onD)
  have "inst \<in> set (reg_list r)" "instanceId inst = i"
    using assms(1,2) by (auto simp: reg.all_get_iff)
  then have mem: "i \<in> instanceId ` set (reg_list r)" by blast
  have "(\<exists>e' \<in> set evs. ev_type e' = Destroy \<and> ev_instanceId e' = i) \<longleftrightarrow> ev_type e = Destroy"
    using e(1,2) only by blast
  then have here: "i \<in> instanceId ` set (reg_list r') \<longleftrightarrow> state inst \<noteq> Suspended"
    unfolding list ids_reclaims using mem e(3) by simp
  have "i \<in> ev_instanceId ` set evs" using e(1,2) by blast
  then have "filter (\<lambda>x. instanceId x = i \<and> state x \<noteq> Suspended) (reg_list r') = []"
    unfolding list by (subst filter_reclaims) (auto simp: filter_empty_conv)
  then have "state x = Suspended" if "reg_get r' i = Some x" for x
    using that reg.all_get_iff [OF wf', of i x] by (simp add: filter_empty_conv)
  moreover have "reg_get r' i = None \<longleftrightarrow> i \<notin> instanceId ` set (reg_list r')"
    using reg.all_get_iff [OF wf', of i] by (metis imageE image_eqI not_None_eq)
  ultimately show ?thesis using here by (cases "reg_get r' i") auto
qed

text \<open>
  C7. A sweep the platform carries out enforces the policy: every proposed event is accepted, the
  visible instances keep their records, at most \<^verbatim>\<open>lruSize\<close> instances stay warm unless more
  are visible, an instance hidden or paused past its time to live ends up suspended and one
  suspended past its time to live has no record any more.
\<close>

theorem runSweep_enforces_policy:
  assumes "\<And>h. w h = None" and "registry_wf (k_registry k)"
    and "runSweep w policy now k = (ress, k')"
  shows "(\<forall>res \<in> set ress. accepted res) \<and> registry_wf (k_registry k')
    \<and> reg_listByState (k_registry k') Visible = reg_listByState (k_registry k) Visible
    \<and> int (length (filter (\<lambda>x. isWarmState (state x)) (reg_list (k_registry k'))))
        \<le> max (lruSize policy) (int (length (reg_listByState (k_registry k) Visible)))
    \<and> (\<forall>i inst. reg_get (k_registry k) i = Some inst \<and> expired policy now inst \<longrightarrow>
         map_option state (reg_get (k_registry k') i) =
           (if state inst = Suspended then None else Some Suspended))"
proof (intro conjI allI impI)
  let ?r = "k_registry k" and ?r' = "k_registry k'" and ?evs = "sweep policy (k_registry k) now"
  note wf = assms(2)
  have run: "\<forall>res \<in> set ress. accepted res" "registry_wf ?r'"
    and list: "reg_list ?r' = fold reclaim ?evs (reg_list ?r)"
    using runSweep_fold [OF assms] by auto
  show "\<forall>res \<in> set ress. accepted res" "registry_wf ?r'" by (rule run)+
  show "reg_listByState ?r' Visible = reg_listByState ?r Visible"
    unfolding reg_listByState_def list
    by (subst filter_reclaims) (auto intro: filter_cong dest: sweep_spares_visible [OF wf])
  show "int (length (filter (\<lambda>x. isWarmState (state x)) (reg_list ?r')))
        \<le> max (lruSize policy) (int (length (reg_listByState ?r Visible)))"
    unfolding list reg_listByState_def
    using warm_bound [OF reg.all_distinct [OF wf], of policy now]
    by (subst filter_reclaims) (auto simp: isWarmState_def sweep_ids_has)
  fix i inst
  assume "reg_get ?r i = Some inst \<and> expired policy now inst"
  then have i: "reg_get ?r i = Some inst" and x: "expired policy now inst" by auto
  obtain e where e: "e \<in> set ?evs" "ev_instanceId e = i"
    "ev_type e = (if state inst = Suspended then Destroy else Suspend)"
    using sweep_expired_event [OF wf i x] by blast
  show "map_option state (reg_get ?r' i) = (if state inst = Suspended then None else Some Suspended)"
    using expired_outcome [OF wf i e sweep_distinct_ids run(2) list] .
qed

text \<open>
  Critical memory pressure on a platform that answers leaves exactly the visible instances.
\<close>

theorem critical_pressure_keeps_visible:
  assumes "\<And>h. w h = None" and "registry_wf (k_registry k)"
    and "handleMemoryPressure w Critical now k = (ress, k')"
  shows "(\<forall>res \<in> set ress. accepted res)
    \<and> reg_list (k_registry k') = reg_listByState (k_registry k) Visible"
proof -
  let ?evs = "onMemoryPressure (k_registry k) Critical now" and ?I = "reg_list (k_registry k)"
  have d: "distinct (map instanceId ?I)" using assms(2) by (rule reg.all_distinct)
  have ids: "map ev_instanceId ?evs = map instanceId (filter (\<lambda>x. state x \<noteq> Visible) ?I)"
    and destroy: "\<forall>e \<in> set ?evs. ev_type e = Destroy"
    by (auto simp: onMemoryPressure_def)
  obtain k1 where k1: "dispatchAll w ?evs k1 = (ress, k')" "k_registry k1 = k_registry k"
    using assms(3) by (auto simp: handleMemoryPressure_def Let_def split: if_splits)
  have "\<forall>ev \<in> set ?evs. reclaimable (k_registry k1) ev"
    using assms(2) by (auto simp: onMemoryPressure_def reclaimable_def k1(2) reg.all_get)
  moreover have "distinct (map ev_instanceId ?evs)"
    unfolding ids using d by (rule distinct_map_filter)
  ultimately have "(\<forall>res \<in> set ress. accepted res)"
    and "reg_list (k_registry k') = filter (\<lambda>x. instanceId x \<notin> ev_instanceId ` set ?evs) ?I"
    using dispatchAll_reclaimable [OF assms(1) _ _ _ k1(1)] assms(2)
    by (simp_all add: k1(2) fold_reclaim_destroys [OF destroy])
  moreover have "filter (\<lambda>x. instanceId x \<notin> ev_instanceId ` set ?evs) ?I =
      filter (\<lambda>x. state x = Visible) ?I"
  proof (rule filter_cong)
    fix x assume "x \<in> set ?I"
    moreover have "ev_instanceId ` set ?evs = instanceId ` set (filter (\<lambda>x. state x \<noteq> Visible) ?I)"
      using ids by (metis image_set)
    ultimately show "(instanceId x \<notin> ev_instanceId ` set ?evs) = (state x = Visible)"
      using d by (auto simp: distinct_map inj_on_def)
  qed simp
  ultimately show ?thesis by (simp add: reg_listByState_def)
qed

section \<open>Witnesses\<close>

definition demo_kernel :: kernel where
  "demo_kernel = init_kernel\<lparr>k_registry := demo_registry\<rparr>"

definition demo_event :: "applet_event_type \<Rightarrow> string \<Rightarrow> applet_event" where
  "demo_event t i = \<lparr>ev_type = t, ev_appletId = ''app'', ev_instanceId = i, ev_timestamp = 60,
     ev_reason = None\<rparr>"

lemma demo_kernel_wf: "registry_wf (k_registry demo_kernel)"
  using demo_registry_wf by (simp add: demo_kernel_def)

theorem dispatch_respects_contract_witness:
  "registry_wf (k_registry demo_kernel)
   \<and> accepted (fst (dispatch (\<lambda>_. None) (demo_event Hide ''c'') demo_kernel))
   \<and> map_option state (reg_get (k_registry (snd (dispatch (\<lambda>_. None) (demo_event Hide ''c'')
        demo_kernel))) ''c'') = Some HiddenWarm"
proof -
  let ?d = "dispatch (\<lambda>_. None) (demo_event Hide ''c'') demo_kernel"
  have a: "accepted (fst ?d) \<and> dr_to (fst ?d) = Some HiddenWarm" by code_simp
  have "ev_instanceId (demo_event Hide ''c'') = ''c''" by (simp add: demo_event_def)
  with dispatch_respects_contract [OF demo_kernel_wf, of "\<lambda>_. None" "demo_event Hide ''c''"
      "fst ?d" "snd ?d"] a demo_kernel_wf
  show ?thesis by auto
qed

theorem dispatchAll_refines_contract_witness:
  "\<exists>ress k'. dispatchAll (\<lambda>_. None) [demo_event Hide ''c'', demo_event Ready ''c'',
       demo_event Pause ''c''] demo_kernel = (ress, k')
   \<and> legal_run Visible [Hide, Pause] Paused"
proof -
  let ?evs = "[demo_event Hide ''c'', demo_event Ready ''c'', demo_event Pause ''c'']"
  let ?d = "dispatchAll (\<lambda>_. None) ?evs demo_kernel"
  have g: "reg_get (k_registry demo_kernel) ''c'' = Some (demo_instance ''c'' Visible 40)"
    by code_simp
  have t: "accepted_types ''c'' ?evs (fst ?d) = [Hide, Pause]"
    and s: "map_option state (reg_get (k_registry (snd ?d)) ''c'') = Some Paused"
    by code_simp+
  have "legal_run Visible [Hide, Pause] Paused"
    using dispatchAll_refines_contract [of "\<lambda>_. None" ?evs demo_kernel "fst ?d" "snd ?d", OF _ g]
      t s by (auto simp: demo_instance_def split: option.splits)
  then show ?thesis by (metis surj_pair)
qed

theorem runSweep_enforces_policy_witness:
  "(\<forall>h :: effect list. (\<lambda>_. None :: string option) h = None) \<and> registry_wf (k_registry demo_kernel)
   \<and> map_option state (reg_get (k_registry (snd (runSweep (\<lambda>_. None) demo_policy 5000 demo_kernel)))
        ''a'') = Some Suspended"
proof -
  let ?d = "runSweep (\<lambda>_. None) demo_policy 5000 demo_kernel"
  have g: "reg_get (k_registry demo_kernel) ''a'' = Some (demo_instance ''a'' HiddenWarm 30)"
    and x: "expired demo_policy 5000 (demo_instance ''a'' HiddenWarm 30)"
    by (code_simp, simp add: expired_def demo_policy_def demo_instance_def)
  show ?thesis
    using runSweep_enforces_policy [of "\<lambda>_. None" demo_kernel demo_policy 5000 "fst ?d" "snd ?d"]
      demo_kernel_wf g x by (simp add: demo_instance_def)
qed

theorem critical_pressure_keeps_visible_witness:
  "registry_wf (k_registry demo_kernel)
   \<and> reg_list (k_registry (snd (handleMemoryPressure (\<lambda>_. None) Critical 50 demo_kernel))) =
       [demo_instance ''c'' Visible 40]"
proof -
  let ?d = "handleMemoryPressure (\<lambda>_. None) Critical 50 demo_kernel"
  have "reg_listByState (k_registry demo_kernel) Visible = [demo_instance ''c'' Visible 40]"
    by code_simp
  then show ?thesis
    using critical_pressure_keeps_visible [of "\<lambda>_. None" demo_kernel 50 "fst ?d" "snd ?d"]
      demo_kernel_wf by simp
qed

end
