(* ===== verification/Applet_Concurrency.thy ===== *)
theory Applet_Concurrency
  imports Applet_Kernel
begin

text \<open>
  The applet kernel under concurrency: a host may start a dispatch while others are suspended at an
  \<^verbatim>\<open>await\<close>, and the platform settles its calls in any order.  A configuration is the kernel
  with the dispatches in flight and the results delivered so far; a call is a label of the step
  system.  The lemmas say what holds under every interleaving, what needs one dispatch in flight per
  instance, and that what the kernel logs does not depend on session ids.
\<close>

section \<open>Interleaved executions\<close>

record config =
  c_kernel :: kernel
  c_pending :: "pending list"
  c_results :: "(applet_event \<times> dispatch_result) list"

datatype call =
    CreateInstance int instance_create_input
  | Dispatch applet_event
  | Settle nat "string option"
  | Touch string int
  | UpdateMemory string int
  | SessionCreated string string "string + string"
  | SessionRenewed string "string option"
  | Permission perm_call

fun pending_event :: "pending \<Rightarrow> applet_event" where
  "pending_event (AwaitSurfaceDestroy ev _ _ _) = ev"
| "pending_event (AwaitSessionDestroy ev _ _) = ev"
| "pending_event (AwaitSideEffect ev _ _) = ev"

definition init_config :: config where
  "init_config = \<lparr>c_kernel = init_kernel, c_pending = [], c_results = []\<rparr>"

definition deliver ::
  "applet_event \<Rightarrow> pending list \<Rightarrow> (dispatch_result + pending) \<times> kernel \<Rightarrow> config \<Rightarrow> config" where
  "deliver ev others out c =
     (case out of
        (Inl res, k) \<Rightarrow> \<lparr>c_kernel = k, c_pending = others, c_results = c_results c @ [(ev, res)]\<rparr>
      | (Inr p, k) \<Rightarrow> \<lparr>c_kernel = k, c_pending = others @ [p], c_results = c_results c\<rparr>)"

definition without :: "nat \<Rightarrow> 'a list \<Rightarrow> 'a list" where
  "without n xs = take n xs @ drop (Suc n) xs"

fun config_step :: "call \<Rightarrow> config \<Rightarrow> config" where
  "config_step (CreateInstance now input) c =
     (case reg_create now input (k_registry (c_kernel c)) of
        Inl _ \<Rightarrow> c
      | Inr (_, r) \<Rightarrow> c\<lparr>c_kernel := (c_kernel c)\<lparr>k_registry := r\<rparr>\<rparr>)"
| "config_step (Dispatch ev) c =
     deliver ev (c_pending c) (dispatch_start ev (c_kernel c)) c"
| "config_step (Settle n outcome) c =
     (if n < length (c_pending c) then
        deliver (pending_event (c_pending c ! n)) (without n (c_pending c))
          (dispatch_continue (c_pending c ! n) outcome (c_kernel c)) c
      else c)"
| "config_step (Touch i at) c =
     c\<lparr>c_kernel := (c_kernel c)\<lparr>k_registry := reg_touch (k_registry (c_kernel c)) i at\<rparr>\<rparr>"
| "config_step (UpdateMemory i bytes) c =
     c\<lparr>c_kernel := (c_kernel c)
         \<lparr>k_registry := reg_updateMemoryEstimate (k_registry (c_kernel c)) i bytes\<rparr>\<rparr>"
| "config_step (SessionCreated app i outcome) c =
     c\<lparr>c_kernel := snd (session_create_settle app i outcome
                          (emit (CreateSession app i) (c_kernel c)))\<rparr>"
| "config_step (SessionRenewed sid outcome) c =
     c\<lparr>c_kernel := snd (session_renew_settle outcome (emit (RenewSession sid) (c_kernel c)))\<rparr>"
| "config_step (Permission p) c =
     c\<lparr>c_kernel := (c_kernel c)\<lparr>k_perms := perm_step p (k_perms (c_kernel c))\<rparr>\<rparr>"

inductive reachable :: "config \<Rightarrow> bool" where
  reach_init: "reachable init_config"
| reach_step: "reachable c \<Longrightarrow> reachable (config_step l c)"

text \<open>One dispatch in flight per instance: the discipline of a host that awaits each dispatch.\<close>

fun serial :: "config \<Rightarrow> call \<Rightarrow> bool" where
  "serial c (Dispatch ev) \<longleftrightarrow>
     ev_instanceId ev \<notin> set (map (ev_instanceId \<circ> pending_event) (c_pending c))"
| "serial c _ \<longleftrightarrow> True"

inductive serial_reachable :: "config \<Rightarrow> bool" where
  serial_init: "serial_reachable init_config"
| serial_step: "serial_reachable c \<Longrightarrow> serial c l \<Longrightarrow> serial_reachable (config_step l c)"

definition config_run :: "call list \<Rightarrow> config" where
  "config_run calls = fold config_step calls init_config"

lemma reachable_fold: "reachable c \<Longrightarrow> reachable (fold config_step calls c)"
  by (induction calls arbitrary: c) (auto intro: reach_step)

lemma reachable_run: "reachable (config_run calls)"
  unfolding config_run_def by (intro reachable_fold reach_init)

section \<open>Invariants under every interleaving\<close>

fun pending_from :: "pending \<Rightarrow> applet_state" where
  "pending_from (AwaitSurfaceDestroy _ s _ _) = s"
| "pending_from (AwaitSessionDestroy _ s _) = s"
| "pending_from (AwaitSideEffect _ s _) = s"

fun pending_target :: "pending \<Rightarrow> applet_state" where
  "pending_target (AwaitSurfaceDestroy _ _ t _) = t"
| "pending_target (AwaitSessionDestroy _ _ t) = t"
| "pending_target (AwaitSideEffect _ _ t) = t"

fun is_side :: "pending \<Rightarrow> bool" where
  "is_side (AwaitSideEffect _ _ _) = True"
| "is_side _ = False"

definition pending_ok :: "pending \<Rightarrow> bool" where
  "pending_ok p \<longleftrightarrow>
     isValidTransition (pending_from p) (ev_type (pending_event p)) (pending_target p)
     \<and> (is_side p \<longleftrightarrow> pending_target p \<noteq> Destroyed)"

definition result_ok :: "applet_event \<times> dispatch_result \<Rightarrow> bool" where
  "result_ok = (\<lambda>(ev, res). accepted res \<longrightarrow>
     (\<exists>t. dr_to res = Some t \<and> isValidTransition (dr_from res) (ev_type ev) t))"

definition config_ok :: "config \<Rightarrow> bool" where
  "config_ok c \<longleftrightarrow> registry_wf (k_registry (c_kernel c))
     \<and> (\<forall>p \<in> set (c_pending c). pending_ok p) \<and> (\<forall>x \<in> set (c_results c). result_ok x)"

text \<open>How the first part of a dispatch, and each later part, changes registry and flight list.\<close>

lemma dispatch_start_spec:
  assumes "dispatch_start ev k = (out, k')"
  shows "(case out of
      Inl res \<Rightarrow> \<not> accepted res \<and> k_registry k' = k_registry k
    | Inr p \<Rightarrow> pending_ok p \<and> pending_event p = ev
        \<and> map_option state (reg_get (k_registry k) (ev_instanceId ev)) = Some (pending_from p)
        \<and> (k_registry k' = k_registry k
           \<or> k_registry k' = snd (reg_incrementCrashCount (k_registry k) (ev_instanceId ev))))"
proof (cases "reg_get (k_registry k) (ev_instanceId ev)")
  case None
  with assms show ?thesis by (auto simp: dispatch_start_def)
next
  case (Some inst)
  show ?thesis
  proof (cases "resolveTarget (state inst) (ev_type ev)")
    case None
    with Some assms show ?thesis by (auto simp: dispatch_start_def reject_illegal_def)
  next
    case (Some t)
    note t = this
    show ?thesis
    proof (cases "isValidTransition (state inst) (ev_type ev) t")
      case False
      with t \<open>reg_get _ _ = Some inst\<close> assms show ?thesis
        by (auto simp: dispatch_start_def reject_illegal_def)
    next
      case True
      with resolveTarget_reclaim [OF t] t \<open>reg_get _ _ = Some inst\<close> assms show ?thesis
        by (auto simp: dispatch_start_def pending_ok_def split: if_splits)
    qed
  qed
qed

lemma dispatch_continue_spec:
  assumes "dispatch_continue p outcome k = (out, k')"
  shows "(case out of
      Inr q \<Rightarrow> pending_event q = pending_event p \<and> pending_from q = pending_from p
        \<and> pending_target q = pending_target p \<and> \<not> is_side p \<and> \<not> is_side q
        \<and> k_registry k' = k_registry k
    | Inl res \<Rightarrow> dr_from res = pending_from p
        \<and> (if accepted res
           then dr_to res = Some (pending_target p)
             \<and> k_registry k' =
                 (if is_side p
                  then snd (reg_setState (k_registry k) (ev_instanceId (pending_event p))
                              (pending_target p) (ev_timestamp (pending_event p)))
                  else reg_remove (k_registry k) (ev_instanceId (pending_event p)))
           else k_registry k' = k_registry k))"
  using assms
  by (cases p)
    (auto simp: side_effect_failed_def session_destroy_settle_def split: option.splits)

lemma set_without: "set (without n xs) \<subseteq> set xs"
  by (auto simp: without_def dest: in_set_takeD in_set_dropD)

lemma registry_wf_touch: "registry_wf r \<Longrightarrow> registry_wf (reg_touch r i at)"
  by (auto simp: reg_touch_def split: option.splits intro!: registry_wf_set dest: registry_wf_get)

lemma registry_wf_memory: "registry_wf r \<Longrightarrow> registry_wf (reg_updateMemoryEstimate r i b)"
  by (auto simp: reg_updateMemoryEstimate_def split: option.splits intro!: registry_wf_set
      dest: registry_wf_get)

lemma registry_wf_create:
  "registry_wf r \<Longrightarrow> reg_create now input r = Inr (inst, r') \<Longrightarrow> registry_wf r'"
  by (auto simp: reg_create_def new_instance_def live_state_def split: if_splits
      intro!: registry_wf_set)

lemma session_settle_registry [simp]:
  "k_registry (snd (session_create_settle app i out k)) = k_registry k"
  "k_registry (snd (session_renew_settle out' k)) = k_registry k"
  by (simp_all add: session_create_settle_def session_renew_settle_def split: sum.split option.split)

lemma config_ok_dispatch:
  assumes "config_ok c"
  shows "config_ok (config_step (Dispatch ev) c)"
proof -
  obtain out k where d: "dispatch_start ev (c_kernel c) = (out, k)"
    by (cases "dispatch_start ev (c_kernel c)")
  have "registry_wf (k_registry k)"
    using dispatch_start_spec [OF d] assms
    by (auto simp: config_ok_def split: sum.splits intro: reg.wf_bump)
  then show ?thesis
    using dispatch_start_spec [OF d] assms d
    by (cases out) (auto simp: config_ok_def deliver_def result_ok_def)
qed

lemma pending_ok_live: "pending_ok p \<Longrightarrow> is_side p \<Longrightarrow> live_state (pending_target p)"
  by (auto simp: pending_ok_def live_state_def valid_to_cold)

lemma config_ok_settle:
  assumes "config_ok c"
  shows "config_ok (config_step (Settle n outcome) c)"
proof (cases "n < length (c_pending c)")
  case False
  with assms show ?thesis by simp
next
  case True
  let ?p = "c_pending c ! n"
  have p: "pending_ok ?p" using assms True by (simp add: config_ok_def)
  obtain out k where d: "dispatch_continue ?p outcome (c_kernel c) = (out, k)"
    by (cases "dispatch_continue ?p outcome (c_kernel c)")
  note spec = dispatch_continue_spec [OF d]
  have "registry_wf (k_registry k)"
    using spec assms pending_ok_live [OF p]
    by (auto simp: config_ok_def split: sum.splits if_splits
        intro: reg.wf_setState reg.wf_remove)
  then show ?thesis
    using spec assms d True p set_without [of n "c_pending c"]
    by (cases out) (auto simp: config_ok_def deliver_def result_ok_def pending_ok_def)
qed

lemma config_ok_step: "config_ok c \<Longrightarrow> config_ok (config_step l c)"
proof (cases l)
  case (CreateInstance now input)
  then show "config_ok c \<Longrightarrow> ?thesis"
    by (auto simp: config_ok_def split: sum.split intro: registry_wf_create)
next
  case (Dispatch ev)
  then show "config_ok c \<Longrightarrow> ?thesis" using config_ok_dispatch by simp
next
  case (Settle n outcome)
  then show "config_ok c \<Longrightarrow> ?thesis" using config_ok_settle by simp
qed (auto simp: config_ok_def intro: registry_wf_touch registry_wf_memory)

lemma config_ok_reachable: "reachable c \<Longrightarrow> config_ok c"
proof (induction rule: reachable.induct)
  case reach_init
  then show ?case by (simp add: config_ok_def init_config_def init_kernel_def registry_wf_def)
next
  case (reach_step c l)
  then show ?case by (simp add: config_ok_step)
qed

text \<open>
  Under every interleaving of dispatches, settlements, registrations and other calls: the
  registry stays well formed (unique ids, no cold and no destroyed record), and every accepted
  result reports a transition the contract allows from the state it reports as its origin.
\<close>

theorem interleavings_safe:
  assumes "reachable c"
  shows "registry_wf (k_registry (c_kernel c))
    \<and> (\<forall>(ev, res) \<in> set (c_results c). accepted res \<longrightarrow>
         (\<exists>t. dr_to res = Some t \<and> isValidTransition (dr_from res) (ev_type ev) t))"
  using config_ok_reachable [OF assms] by (auto simp: config_ok_def result_ok_def)

section \<open>One dispatch in flight per instance\<close>

definition reg_state :: "config \<Rightarrow> string \<Rightarrow> applet_state option" where
  "reg_state c i = map_option state (reg_get (k_registry (c_kernel c)) i)"

definition flight_ok :: "config \<Rightarrow> bool" where
  "flight_ok c \<longleftrightarrow> distinct (map (ev_instanceId \<circ> pending_event) (c_pending c))
     \<and> (\<forall>p \<in> set (c_pending c).
          reg_state c (ev_instanceId (pending_event p)) = Some (pending_from p))"

text \<open>The calls that are not settlements keep every recorded state.\<close>

lemma reg_state_keep:
  assumes "\<And>n out. l \<noteq> Settle n out" and "reg_state c i = Some s"
  shows "reg_state (config_step l c) i = Some s"
proof (cases l)
  case (CreateInstance now input)
  then show ?thesis
    using assms(2)
    by (auto simp: reg_state_def reg_create_def reg_get_def map_has_get split: sum.splits if_splits)
next
  case (Dispatch ev)
  obtain out k where d: "dispatch_start ev (c_kernel c) = (out, k)"
    by (cases "dispatch_start ev (c_kernel c)")
  have "k_registry k = k_registry (c_kernel c)
    \<or> k_registry k = snd (reg_incrementCrashCount (k_registry (c_kernel c)) (ev_instanceId ev))"
    using dispatch_start_spec [OF d] by (auto split: sum.splits)
  then have "map_option state (reg_get (k_registry k) i) = Some s"
    using assms(2) unfolding reg_state_def by (elim disjE) (simp_all only: reg.get_bump_state)
  then show ?thesis using Dispatch d by (cases out) (auto simp: reg_state_def deliver_def)
next
  case (Settle n out)
  with assms(1) show ?thesis by blast
qed (use assms(2) in \<open>auto simp: reg_state_def reg_touch_def reg_updateMemoryEstimate_def
       reg_get_def split: option.splits\<close>)

lemma pending_keep:
  assumes "\<And>n out. l \<noteq> Settle n out" and "\<And>ev. l \<noteq> Dispatch ev"
  shows "c_pending (config_step l c) = c_pending c"
  using assms by (cases l) (auto split: sum.splits)

lemma nth_without:
  "n < length xs \<Longrightarrow> distinct (map f xs) \<Longrightarrow> x \<in> set (without n xs) \<Longrightarrow> f x \<noteq> f (xs ! n)"
  using id_take_nth_drop [of n xs] unfolding without_def
  by (metis Un_iff distinct.simps(2) distinct_append distinct_map image_eqI inj_onD list.set_intros(1)
      list.set_intros(2) list.simps(9) map_append set_append list.set_map disjoint_iff)

lemma distinct_without:
  assumes "distinct (map f xs)"
  shows "distinct (map f (without n xs))"
proof -
  have "map f (without n xs) = take n (map f xs) @ drop (Suc n) (map f xs)"
    by (simp add: without_def take_map drop_map)
  then show ?thesis
    using assms set_take_disj_set_drop_if_distinct [OF assms, of n "Suc n"] by simp
qed

text \<open>A settlement moves only its own instance, and along a transition of the contract.\<close>

lemma settle_spec:
  assumes "config_ok c" and "flight_ok c" and n: "n < length (c_pending c)"
  defines "p \<equiv> c_pending c ! n"
  defines "i \<equiv> ev_instanceId (pending_event p)"
  shows "(\<forall>j. j \<noteq> i \<longrightarrow> reg_state (config_step (Settle n outcome) c) j = reg_state c j)
    \<and> (reg_state (config_step (Settle n outcome) c) i = reg_state c i
       \<or> isValidTransition (pending_from p) (ev_type (pending_event p)) (pending_target p)
         \<and> reg_state (config_step (Settle n outcome) c) i =
             (if pending_target p = Destroyed then None else Some (pending_target p)))"
proof -
  have ok: "pending_ok p" using assms(1) n by (simp add: config_ok_def p_def)
  have cur: "reg_state c i = Some (pending_from p)"
    using assms(2) n by (simp add: flight_ok_def i_def p_def)
  obtain out k where d: "dispatch_continue p outcome (c_kernel c) = (out, k)"
    by (cases "dispatch_continue p outcome (c_kernel c)")
  have st: "reg_state (config_step (Settle n outcome) c) j = map_option state (reg_get (k_registry k) j)"
    for j using n d by (cases out) (simp_all add: reg_state_def deliver_def p_def)
  show ?thesis
    unfolding st using dispatch_continue_spec [OF d] ok cur
    by (auto simp: reg_state_def pending_ok_def i_def reg.get_setState reg.get_remove
        split: sum.splits if_splits)
qed

lemma flight_ok_settle:
  assumes "config_ok c" and "flight_ok c" and n: "n < length (c_pending c)"
  shows "flight_ok (config_step (Settle n outcome) c)"
proof -
  let ?p = "c_pending c ! n" and ?c' = "config_step (Settle n outcome) c"
  let ?f = "ev_instanceId \<circ> pending_event"
  have d: "distinct (map ?f (c_pending c))" using assms(2) by (simp add: flight_ok_def)
  have others: "reg_state ?c' (?f q) = Some (pending_from q)" if "q \<in> set (without n (c_pending c))" for q
    using settle_spec [OF assms, of outcome] nth_without [OF n d that] assms(2) that
      set_without [of n "c_pending c"] by (auto simp: flight_ok_def)
  obtain out k where o: "dispatch_continue ?p outcome (c_kernel c) = (out, k)"
    by (cases "dispatch_continue ?p outcome (c_kernel c)")
  note spec = dispatch_continue_spec [OF o]
  show ?thesis
  proof (cases out)
    case (Inl res)
    then have "c_pending ?c' = without n (c_pending c)" using n o by (simp add: deliver_def)
    with others d show ?thesis by (simp add: flight_ok_def distinct_without)
  next
    case (Inr q)
    then have q: "c_pending ?c' = without n (c_pending c) @ [q]" using n o by (simp add: deliver_def)
    have "reg_state ?c' (?f ?p) = reg_state c (?f ?p)"
      using spec Inr n o by (simp add: reg_state_def deliver_def)
    moreover have "reg_state c (?f ?p) = Some (pending_from ?p)"
      using assms(2) n by (simp add: flight_ok_def)
    moreover have "?f q = ?f ?p" "pending_from q = pending_from ?p" using spec Inr by simp_all
    ultimately have new: "reg_state ?c' (?f q) = Some (pending_from q)"
      and fq: "?f q = ?f ?p" by (simp_all del: config_step.simps)
    have "?f q \<notin> ?f ` set (without n (c_pending c))"
      unfolding fq using nth_without [OF n d] by (metis imageE)
    then have "distinct (map ?f (without n (c_pending c) @ [q]))"
      using distinct_without [OF d, of n] by simp
    with others new show ?thesis
      unfolding flight_ok_def q by (simp del: config_step.simps)
  qed
qed

lemma flight_ok_keep:
  assumes "\<And>n out. l \<noteq> Settle n out" and "\<And>ev. l \<noteq> Dispatch ev" and "flight_ok c"
  shows "flight_ok (config_step l c)"
  using assms(3) reg_state_keep [OF assms(1)]
  unfolding flight_ok_def pending_keep [OF assms(1,2)] by blast

lemma flight_ok_step:
  assumes "config_ok c" and "flight_ok c" and "serial c l"
  shows "flight_ok (config_step l c)"
proof (cases l)
  case (Dispatch ev)
  obtain out k where d: "dispatch_start ev (c_kernel c) = (out, k)"
    by (cases "dispatch_start ev (c_kernel c)")
  have keep: "reg_state (config_step l c) i = Some s" if "reg_state c i = Some s" for i s
    using that Dispatch by (intro reg_state_keep) auto
  show ?thesis
  proof (cases out)
    case (Inl res)
    with Dispatch d have "c_pending (config_step l c) = c_pending c" by (simp add: deliver_def)
    with assms(2) keep show ?thesis by (simp add: flight_ok_def)
  next
    case (Inr p)
    with Dispatch d have q: "c_pending (config_step l c) = c_pending c @ [p]"
      by (simp add: deliver_def)
    have "pending_event p = ev" and "reg_state c (ev_instanceId ev) = Some (pending_from p)"
      using dispatch_start_spec [OF d] Inr by (simp_all add: reg_state_def)
    with q assms(2,3) keep Dispatch show ?thesis by (auto simp: flight_ok_def)
  qed
next
  case (Settle n outcome)
  show ?thesis
  proof (cases "n < length (c_pending c)")
    case True
    show ?thesis unfolding Settle using assms(1,2) True by (rule flight_ok_settle)
  qed (use assms(2) Settle in simp)
qed (intro flight_ok_keep [OF _ _ assms(2)]; simp)+

lemma flight_ok_serial: "serial_reachable c \<Longrightarrow> config_ok c \<and> flight_ok c"
proof (induction rule: serial_reachable.induct)
  case serial_init
  then show ?case
    using config_ok_reachable [OF reach_init] by (simp add: flight_ok_def init_config_def)
next
  case (serial_step c l)
  then show ?case by (simp add: config_ok_step flight_ok_step)
qed

text \<open>
  C13. With one dispatch in flight per instance, every step moves the recorded state of an instance
  along the contract: it stays, or the step settles a dispatch for that instance whose event leads
  from the state recorded now to the new one, the record disappearing exactly for
  \<^verbatim>\<open>destroyed\<close>.
\<close>

theorem serial_steps_follow_contract:
  assumes "serial_reachable c" and "serial c l" and "reg_state c i = Some s"
  shows "reg_state (config_step l c) i = Some s
    \<or> (\<exists>n outcome t. l = Settle n outcome \<and> n < length (c_pending c)
         \<and> ev_instanceId (pending_event (c_pending c ! n)) = i
         \<and> isValidTransition s (ev_type (pending_event (c_pending c ! n))) t
         \<and> reg_state (config_step l c) i = (if t = Destroyed then None else Some t))"
proof (cases "\<exists>n outcome. l = Settle n outcome \<and> n < length (c_pending c)")
  case False
  then show ?thesis
    using assms(3) reg_state_keep [of l c i s] by (cases l) auto
next
  case True
  then obtain n outcome where l: "l = Settle n outcome" and n: "n < length (c_pending c)" by blast
  let ?p = "c_pending c ! n"
  have ok: "config_ok c" "flight_ok c" using flight_ok_serial [OF assms(1)] by auto
  have cur: "reg_state c (ev_instanceId (pending_event ?p)) = Some (pending_from ?p)"
    using ok(2) n by (simp add: flight_ok_def)
  show ?thesis
  proof (cases "i = ev_instanceId (pending_event ?p)")
    case False
    with settle_spec [OF ok n, of outcome] assms(3) show ?thesis
      by (simp add: l del: config_step.simps)
  next
    case True
    with cur assms(3) have s: "s = pending_from ?p" by simp
    from settle_spec [OF ok n, of outcome, THEN conjunct2] show ?thesis
      unfolding True [symmetric] s [symmetric]
    proof
      assume "reg_state (config_step (Settle n outcome) c) i = reg_state c i"
      with assms(3) l show ?thesis by (simp del: config_step.simps)
    next
      assume "isValidTransition s (ev_type (pending_event ?p)) (pending_target ?p)
        \<and> reg_state (config_step (Settle n outcome) c) i =
            (if pending_target ?p = Destroyed then None else Some (pending_target ?p))"
      with l n True show ?thesis
        by (intro disjI2 exI [of _ n] exI [of _ outcome] exI [of _ "pending_target ?p"])
          (simp del: config_step.simps)
    qed
  qed
qed

section \<open>Two dispatches in flight for one instance\<close>

definition demo_calls :: "call list" where
  "demo_calls =
     [CreateInstance 1 demo_input, Dispatch (demo_event Ready ''i1''), Settle 0 None,
      Dispatch (demo_event Hide ''i1''), Dispatch (demo_event Pause ''i1''), Settle 1 None]"

text \<open>
  C17. The orchestrator does not look at the recorded state again after its \<^verbatim>\<open>await\<close>: with a
  \<^verbatim>\<open>hide\<close> and a \<^verbatim>\<open>pause\<close> in flight for one instance, the hide that settles last is
  accepted and moves the record from \<^verbatim>\<open>paused\<close> to \<^verbatim>\<open>hidden-warm\<close>, which the
  contract forbids.
\<close>

theorem stale_commit:
  "\<exists>c. reachable c \<and> reg_state c ''i1'' = Some Paused
     \<and> reg_state (config_step (Settle 0 None) c) ''i1'' = Some HiddenWarm
     \<and> map (accepted \<circ> snd) (c_results (config_step (Settle 0 None) c)) = [True, True, True]
     \<and> \<not> isValidTransition Paused Hide HiddenWarm
     \<and> map (ev_type \<circ> pending_event) (c_pending c) = [Hide]"
proof (intro exI [of _ "config_run demo_calls"] conjI)
  show "reachable (config_run demo_calls)" by (rule reachable_run)
qed code_simp+

section \<open>Session ids are not logged\<close>

definition mask_instance :: "applet_instance \<Rightarrow> applet_instance" where
  "mask_instance inst = inst\<lparr>sessionId := []\<rparr>"

definition mask_registry :: "registry \<Rightarrow> registry" where
  "mask_registry r = map (\<lambda>p. (fst p, mask_instance (snd p))) r"

fun mask_effect :: "effect \<Rightarrow> effect" where
  "mask_effect (RenewSession _) = RenewSession []"
| "mask_effect (DestroySession _) = DestroySession []"
| "mask_effect e = e"

fun mask_pending :: "pending \<Rightarrow> pending" where
  "mask_pending (AwaitSurfaceDestroy ev s t _) = AwaitSurfaceDestroy ev s t []"
| "mask_pending p = p"

definition mask_kernel :: "kernel \<Rightarrow> kernel" where
  "mask_kernel k = k\<lparr>k_registry := mask_registry (k_registry k),
                     k_effects := map mask_effect (k_effects k)\<rparr>"

definition mask_config :: "config \<Rightarrow> config" where
  "mask_config c = c\<lparr>c_kernel := mask_kernel (c_kernel c),
                     c_pending := map mask_pending (c_pending c)\<rparr>"

fun mask_call :: "call \<Rightarrow> call" where
  "mask_call (CreateInstance now input) = CreateInstance now (input\<lparr>in_sessionId := []\<rparr>)"
| "mask_call (SessionCreated app i (Inr _)) = SessionCreated app i (Inr [])"
| "mask_call (SessionRenewed _ outcome) = SessionRenewed [] outcome"
| "mask_call l = l"

lemma mask_get: "map_get (mask_registry r) i = map_option mask_instance (map_get r i)"
  by (induction r) (auto simp: mask_registry_def)

lemma mask_set: "mask_registry (map_set i x r) = map_set i (mask_instance x) (mask_registry r)"
  by (induction r) (auto simp: mask_registry_def map_set_def)

lemma mask_del: "mask_registry (map_del i r) = map_del i (mask_registry r)"
  by (induction r) (auto simp: mask_registry_def map_del_def)

lemma mask_fields [simp]:
  "state (mask_instance x) = state x" "appletId (mask_instance x) = appletId x"
  "instanceId (mask_instance x) = instanceId x" "crashCount (mask_instance x) = crashCount x"
  "sessionId (mask_instance x) = []"
  "stamp s at (mask_instance x) = mask_instance (stamp s at x)"
  "(mask_instance x)\<lparr>crashCount := n\<rparr> = mask_instance (x\<lparr>crashCount := n\<rparr>)"
  "(mask_instance x)\<lparr>lastTouchedAt := n\<rparr> = mask_instance (x\<lparr>lastTouchedAt := n\<rparr>)"
  "(mask_instance x)\<lparr>memoryEstimate := n\<rparr> = mask_instance (x\<lparr>memoryEstimate := n\<rparr>)"
  by (simp_all add: mask_instance_def stamp_def Let_def)

lemma mask_reg_get [simp]:
  "reg_get (mask_registry r) i = map_option mask_instance (reg_get r i)"
  by (simp add: reg_get_def mask_get)

lemma mask_reg_ops:
  "snd (reg_setState (mask_registry r) i s at) = mask_registry (snd (reg_setState r i s at))"
  "reg_touch (mask_registry r) i at = mask_registry (reg_touch r i at)"
  "reg_updateMemoryEstimate (mask_registry r) i b = mask_registry (reg_updateMemoryEstimate r i b)"
  "reg_remove (mask_registry r) i = mask_registry (reg_remove r i)"
  "reg_incrementCrashCount (mask_registry r) i =
     map_prod id mask_registry (reg_incrementCrashCount r i)"
  by (simp_all add: reg_setState_def reg_touch_def reg_updateMemoryEstimate_def reg_remove_def
      reg_incrementCrashCount_def mask_get mask_set mask_del split: option.split)

lemma mask_kernel_fields [simp]:
  "k_registry (mask_kernel k) = mask_registry (k_registry k)"
  "k_perms (mask_kernel k) = k_perms k" "k_log (mask_kernel k) = k_log k"
  "k_effects (mask_kernel k) = map mask_effect (k_effects k)"
  "emit (mask_effect e) (mask_kernel k) = mask_kernel (emit e k)"
  "klog l m ctx (mask_kernel k) = mask_kernel (klog l m ctx k)"
  by (simp_all add: mask_kernel_def emit_def klog_def)

lemma mask_registry_update:
  "(mask_kernel k)\<lparr>k_registry := mask_registry r\<rparr> = mask_kernel (k\<lparr>k_registry := r\<rparr>)"
  by (simp add: mask_kernel_def)

abbreviation mask_out ::
  "(dispatch_result + pending) \<times> kernel \<Rightarrow> (dispatch_result + pending) \<times> kernel" where
  "mask_out \<equiv> map_prod (map_sum id mask_pending) mask_kernel"

lemma mask_emit:
  "emit (ApplySurface c app i) (mask_kernel k) = mask_kernel (emit (ApplySurface c app i) k)"
  "emit (DestroySession []) (mask_kernel k) = mask_kernel (emit (DestroySession sid) k)"
  "emit (RenewSession []) (mask_kernel k) = mask_kernel (emit (RenewSession sid) k)"
  "emit (CreateSession app i) (mask_kernel k) = mask_kernel (emit (CreateSession app i) k)"
  using mask_kernel_fields(5) [of "ApplySurface c app i"] mask_kernel_fields(5) [of "DestroySession sid"]
    mask_kernel_fields(5) [of "RenewSession sid"] mask_kernel_fields(5) [of "CreateSession app i"]
  by simp_all

lemma mask_record_crash: "record_crash ev s (mask_kernel k) = mask_kernel (record_crash ev s k)"
  by (simp add: record_crash_def mask_reg_ops mask_registry_update split: prod.split)

lemma mask_failed: "side_effect_failed ev s t err (mask_kernel k) = mask_out (side_effect_failed ev s t err k)"
  by (simp add: side_effect_failed_def)

lemma mask_dispatch_start: "dispatch_start ev (mask_kernel k) = mask_out (dispatch_start ev k)"
  by (simp add: dispatch_start_def reject_illegal_def applySideEffect_def mask_emit mask_record_crash
      split: option.split)

lemma mask_dispatch_continue:
  "dispatch_continue (mask_pending p) outcome (mask_kernel k) = mask_out (dispatch_continue p outcome k)"
  by (cases p) (auto simp: mask_failed mask_emit(2) session_destroy_settle_def mask_reg_ops
      mask_registry_update simp del: kernel_fields split: option.split)

lemma mask_pending_event [simp]: "pending_event (mask_pending p) = pending_event p"
  by (cases p) auto

lemma mask_deliver:
  "deliver ev (map mask_pending others) (mask_out out) (mask_config c) =
     mask_config (deliver ev others out c)"
  by (cases out; cases "fst out") (auto simp: deliver_def mask_config_def)

lemma mask_step: "config_step (mask_call l) (mask_config c) = mask_config (config_step l c)"
proof (cases l)
  case (CreateInstance now input)
  have "reg_create now (input\<lparr>in_sessionId := []\<rparr>) (mask_registry r) =
      map_sum id (map_prod mask_instance mask_registry) (reg_create now input r)" for r
    by (simp add: reg_create_def map_has_get mask_get mask_set new_instance_def mask_instance_def)
  with CreateInstance show ?thesis
    by (auto simp: mask_config_def mask_registry_update split: sum.split)
next
  case (Dispatch ev)
  then show ?thesis
    using mask_deliver [of ev "c_pending c" "dispatch_start ev (c_kernel c)" c]
    by (simp add: mask_config_def mask_dispatch_start)
next
  case (Settle n outcome)
  have "without n (map mask_pending ps) = map mask_pending (without n ps)" for ps
    by (simp add: without_def take_map drop_map)
  with Settle show ?thesis
    using mask_deliver [of "pending_event (c_pending c ! n)" "without n (c_pending c)"
        "dispatch_continue (c_pending c ! n) outcome (c_kernel c)" c]
    by (simp add: mask_config_def mask_dispatch_continue)
next
  case (SessionCreated app i outcome)
  then show ?thesis
    by (cases outcome) (simp_all add: mask_config_def session_create_settle_def mask_emit)
next
  case (SessionRenewed sid outcome)
  then show ?thesis
    by (simp add: mask_config_def session_renew_settle_def mask_emit(3) [of _ sid] split: option.split)
qed (simp_all add: mask_config_def mask_kernel_def mask_reg_ops)

lemma mask_run: "config_run (map mask_call calls) = mask_config (config_run calls)"
proof -
  have "fold config_step (map mask_call calls) (mask_config c) = mask_config (fold config_step calls c)"
    for c by (induction calls arbitrary: c) (simp_all add: mask_step)
  moreover have "mask_config init_config = init_config"
    by (simp add: mask_config_def init_config_def mask_kernel_def init_kernel_def mask_registry_def)
  ultimately show ?thesis by (metis config_run_def)
qed

text \<open>
  C14. Session ids are capability secrets and never reach the log: two executions that differ only
  in the session ids handed to the kernel (created, stored, renewed or destroyed) write the same
  log, under every interleaving and every outcome of the platform's calls.
\<close>

theorem session_ids_not_logged:
  assumes "map mask_call calls = map mask_call calls'"
  shows "k_log (c_kernel (config_run calls)) = k_log (c_kernel (config_run calls'))"
proof -
  have "mask_config (config_run calls) = mask_config (config_run calls')"
    using mask_run [of calls] mask_run [of calls'] assms by simp
  then have "k_log (c_kernel (mask_config (config_run calls))) =
      k_log (c_kernel (mask_config (config_run calls')))" by simp
  then show ?thesis by (simp add: mask_config_def)
qed

section \<open>Witnesses\<close>

theorem interleavings_safe_witness:
  "reachable (config_run demo_calls) \<and> registry_wf (k_registry (c_kernel (config_run demo_calls)))"
  using interleavings_safe [OF reachable_run, of demo_calls] reachable_run by blast

theorem serial_steps_follow_contract_witness:
  "\<exists>c. serial_reachable c \<and> reg_state c ''i1'' = Some Materializing
     \<and> serial c (Settle 0 None) \<and> reg_state (config_step (Settle 0 None) c) ''i1'' = Some Visible
     \<and> isValidTransition Materializing Ready Visible"
proof -
  let ?l1 = "CreateInstance 1 demo_input" and ?l2 = "Dispatch (demo_event Ready ''i1'')"
  let ?c = "config_step ?l2 (config_step ?l1 init_config)"
  have "serial_reachable (config_step ?l1 init_config)"
    by (rule serial_step [OF serial_init]) simp
  then have r: "serial_reachable ?c" by (rule serial_step) code_simp
  have s: "serial ?c (Settle 0 None)" by simp
  have st: "reg_state ?c ''i1'' = Some Materializing" by code_simp
  have after: "reg_state (config_step (Settle 0 None) ?c) ''i1'' = Some Visible" by code_simp
  have ev: "map (ev_type \<circ> pending_event) (c_pending ?c) = [Ready]" by code_simp
  from serial_steps_follow_contract [OF r s st] after ev
  have "isValidTransition Materializing Ready Visible"
    by (auto simp del: config_step.simps split: if_splits)
  with r s st after show ?thesis by blast
qed

theorem session_ids_not_logged_witness:
  "map mask_call [CreateInstance 1 demo_input, SessionRenewed ''tok'' None] =
     map mask_call [CreateInstance 1 (demo_input\<lparr>in_sessionId := ''other''\<rparr>), SessionRenewed ''t2'' None]
   \<and> k_log (c_kernel (config_run [CreateInstance 1 demo_input, SessionRenewed ''tok'' None])) =
     k_log (c_kernel (config_run
       [CreateInstance 1 (demo_input\<lparr>in_sessionId := ''other''\<rparr>), SessionRenewed ''t2'' None]))"
proof -
  have "map mask_call [CreateInstance 1 demo_input, SessionRenewed ''tok'' None] =
     map mask_call [CreateInstance 1 (demo_input\<lparr>in_sessionId := ''other''\<rparr>), SessionRenewed ''t2'' None]"
    by simp
  from session_ids_not_logged [OF this] this show ?thesis by blast
qed

end
