(* ===== verification/Mobile_Types.thy ===== *)
theory Mobile_Types
  imports Prelude
begin

text \<open>
  The data of the mobile lifecycle kernel, \<^verbatim>\<open>apps/mobile/src/app/lifecycle/types.ts\<close>.  The hooks
  of a runtime descriptor (\<^verbatim>\<open>bootstrap\<close>, \<^verbatim>\<open>suspend\<close>, \<^verbatim>\<open>resume\<close>, \<^verbatim>\<open>teardown\<close>) are code
  of the runtimes, not of the kernel; a descriptor carries an object identity \<open>d_ref\<close> instead, and
  what its hooks do is a parameter of the operations that call them.  Measured durations are not
  kept.
\<close>

datatype lifecycle_phase =
    COLD | BOOTSTRAPPING | ACTIVE | SUSPENDING | SUSPENDED | RESUMING | TEARDOWN | TEARDOWN_FAILED

datatype launch_state =
    app_boot | station_selection | station_handshake | access_gate_chain | runtime_critical | shell
  | station_change | logout_state | background | resume_state

datatype transition_reason =
    app_start | app_unmount | access_granted | app_background | app_resume | reliability_recovery
  | native_resume | visibility_change | window_focus | station_replace | actor_replace | logout
  | revocation | acceptance_restart | acceptance_suspend | acceptance_resume

datatype draft_disposition = retain | discard

record teardown_context =
  tc_reason :: transition_reason
  tc_draftDisposition :: "draft_disposition option"

datatype runtime_status =
    pending | bootstrapping | ready | suspended | resuming | tearing_down | torn_down | failed

record operation_result =
  or_runtimeId :: string
  or_success :: bool
  or_errorMessage :: "string option"

record aggregate_teardown =
  at_results :: "operation_result list"
  at_allSuccessful :: bool

datatype readiness_status = RPending | RReady | RFailed

record runtime_readiness =
  rr_status :: readiness_status
  rr_errorKey :: "string option"
  rr_diagnosticError :: "string option"

record runtime_descriptor =
  d_id :: string
  d_title :: string
  d_responsibility :: string
  d_dependsOn :: "string list"
  d_ref :: nat

record runtime_entry =
  re_descriptor :: runtime_descriptor
  re_status :: runtime_status
  re_lastError :: "string option"
  re_readiness :: "runtime_readiness option"

record lifecycle_state =
  ls_phase :: lifecycle_phase
  ls_launchState :: launch_state
  ls_generation :: int
  ls_runtimes :: "(string, runtime_entry) jsmap"
  ls_bootOrder :: "string list"
  ls_error :: "string option"

record runtime_snapshot =
  rs_id :: string
  rs_status :: runtime_status
  rs_errorKey :: "string option"

record kernel_snapshot =
  ks_phase :: lifecycle_phase
  ks_launchState :: launch_state
  ks_generation :: int
  ks_bootOrder :: "string list"
  ks_runtimes :: "runtime_snapshot list"
  ks_errorKey :: "string option"

datatype lifecycle_event =
    PhaseChanged lifecycle_phase lifecycle_phase
  | LaunchStateChanged launch_state launch_state
  | GenerationAdvanced int transition_reason
  | RuntimeStatusChanged string runtime_status
  | BootstrapComplete "operation_result list"
  | TeardownComplete aggregate_teardown
  | ErrorEvent string

end
