(* ===== verification/Mobile_Topology.thy ===== *)
theory Mobile_Topology
  imports Mobile_Types
begin

text \<open>
  The bootstrap order of the mobile runtimes, \<^verbatim>\<open>apps/mobile/src/app/lifecycle/topologicalSort.ts\<close>:
  depth-first search with three colours over the \<^verbatim>\<open>dependsOn\<close> edges.  The search mutates the
  colour map, the order and the list of cycle participants, which are threaded through it here.
  Its recursion is nested in its loop; it ends because each visit turns one unvisited runtime grey
  and none becomes unvisited again.
\<close>

section \<open>The search\<close>

datatype visit_state = unvisited | visiting | visited_done

type_synonym adjacency = "(string, string list) jsmap"

record dfs_state =
  visited :: "(string, visit_state) jsmap"
  dfs_order :: "string list"
  cycleParticipants :: "string list"

definition deps_of :: "adjacency \<Rightarrow> string \<Rightarrow> string list" where
  "deps_of adj i = (case map_get adj i of None \<Rightarrow> [] | Some ds \<Rightarrow> ds)"

definition set_visit :: "string \<Rightarrow> visit_state \<Rightarrow> dfs_state \<Rightarrow> dfs_state" where
  "set_visit i v s = s\<lparr>visited := map_set i v (visited s)\<rparr>"

definition note_cycle :: "string list \<Rightarrow> dfs_state \<Rightarrow> dfs_state" where
  "note_cycle ids s = s\<lparr>cycleParticipants := cycleParticipants s @ ids\<rparr>"

definition finish :: "string \<Rightarrow> dfs_state \<Rightarrow> dfs_state" where
  "finish i s = (set_visit i visited_done s)\<lparr>dfs_order := dfs_order s @ [i]\<rparr>"

function (sequential) dfsVisit :: "adjacency \<Rightarrow> string \<Rightarrow> dfs_state \<Rightarrow> bool \<times> dfs_state"
  and dfs_deps :: "adjacency \<Rightarrow> string \<Rightarrow> string list \<Rightarrow> dfs_state \<Rightarrow> bool \<times> dfs_state" where
  "dfsVisit adj i s =
     (case dfs_deps adj i (deps_of adj i) (set_visit i visiting s) of
        (False, s') \<Rightarrow> (False, s')
      | (True, s') \<Rightarrow> (True, finish i s'))"
| "dfs_deps adj i [] s = (True, s)"
| "dfs_deps adj i (dep # ds) s =
     (if map_get (visited s) dep = Some visiting then (False, note_cycle [i, dep] s)
      else if map_get (visited s) dep = Some unvisited then
        (case dfsVisit adj dep s of
           (False, s') \<Rightarrow> (False, note_cycle [i] s')
         | (True, s') \<Rightarrow> dfs_deps adj i ds s')
      else dfs_deps adj i ds s)"
  by pat_completeness auto

definition white :: "dfs_state \<Rightarrow> string set" where
  "white s = {x. map_get (visited s) x = Some unvisited}"

definition gray :: "dfs_state \<Rightarrow> string set" where
  "gray s = {x. map_get (visited s) x = Some visiting}"

definition black :: "dfs_state \<Rightarrow> string set" where
  "black s = {x. map_get (visited s) x = Some visited_done}"

lemma finite_white [simp, intro]: "finite (white s)"
proof (rule finite_subset)
  show "white s \<subseteq> set (map_keys (visited s))"
    by (auto simp: white_def in_map_keys_get)
qed simp

lemma colours_simps [simp]:
  "white (set_visit i visiting s) = white s - {i}"
  "gray (set_visit i visiting s) = insert i (gray s)"
  "black (set_visit i visiting s) = black s - {i}"
  "white (finish i s) = white s - {i}"
  "gray (finish i s) = gray s - {i}"
  "black (finish i s) = insert i (black s)"
  "white (note_cycle xs s) = white s" "gray (note_cycle xs s) = gray s"
  "black (note_cycle xs s) = black s"
  by (auto simp: white_def gray_def black_def set_visit_def finish_def note_cycle_def)

lemma order_simps [simp]:
  "dfs_order (set_visit i v s) = dfs_order s"
  "dfs_order (finish i s) = dfs_order s @ [i]"
  "dfs_order (note_cycle xs s) = dfs_order s"
  by (simp_all add: set_visit_def finish_def note_cycle_def)

lemma white_partial:
  "dfsVisit_dfs_deps_dom (Inl (adj, i, s)) \<Longrightarrow> white (snd (dfsVisit adj i s)) \<subseteq> white s - {i}"
  "dfsVisit_dfs_deps_dom (Inr (adj, i, ds, s)) \<Longrightarrow> white (snd (dfs_deps adj i ds s)) \<subseteq> white s"
proof (induction rule: dfsVisit_dfs_deps.pinduct)
  case (1 adj i s)
  then show ?case
    by (auto simp: dfsVisit.psimps split: prod.splits bool.splits)
next
  case (2 adj i s)
  then show ?case by (simp add: dfs_deps.psimps)
next
  case (3 adj i dep ds s)
  then show ?case
    by (auto simp: dfs_deps.psimps split: prod.splits bool.splits if_splits) blast+
qed

termination dfsVisit
proof (relation "inv_image (less_than <*lex*> less_than <*lex*> less_than)
    (\<lambda>x. case x of
       Inl (adj, i, s) \<Rightarrow> (card (white s - {i}), 1::nat, 0::nat)
     | Inr (adj, i, ds, s) \<Rightarrow> (card (white s), 0, length ds))", goal_cases)
  case 1
  then show ?case by (simp add: wf_lex_prod)
next
  case (2 adj i s)
  then show ?case by simp
next
  case (3 adj i dep ds s)
  then have dep: "dep \<in> white s" by (simp add: white_def)
  then have "0 < card (white s)" by (metis card_gt_0_iff empty_iff finite_white)
  with dep show ?case by simp
next
  case (4 adj i dep ds s b s')
  then have "white s' \<subseteq> white s - {dep}"
    using white_partial(1) [of adj dep s] by (metis snd_conv)
  moreover have "dep \<in> white s" using 4 by (simp add: white_def)
  ultimately have "card (white s') < card (white s)"
    by (metis Diff_iff finite_white insertI1 psubsetI psubset_card_mono subset_iff)
  then show ?case by simp
next
  case (5 adj i dep ds s)
  then show ?case by simp
qed

section \<open>Sorting the runtimes\<close>

record missing_dependency =
  md_runtimeId :: string
  md_dependencyId :: string

record topological_result =
  tr_order :: "string list"
  tr_hasCycle :: bool
  tr_cycleParticipants :: "string list"
  tr_missing :: "missing_dependency list"

fun dfs_all :: "adjacency \<Rightarrow> string list \<Rightarrow> dfs_state \<Rightarrow> bool \<times> dfs_state" where
  "dfs_all adj [] s = (True, s)"
| "dfs_all adj (i # is) s =
     (if map_get (visited s) i = Some unvisited then
        (case dfsVisit adj i s of
           (False, s') \<Rightarrow> (False, s')
         | (True, s') \<Rightarrow> dfs_all adj is s')
      else dfs_all adj is s)"

definition id_set :: "runtime_descriptor list \<Rightarrow> string list" where
  "id_set descriptors = set_of_list (map d_id descriptors)"

definition adjacency_of :: "runtime_descriptor list \<Rightarrow> adjacency" where
  "adjacency_of descriptors = fold (\<lambda>d. map_set (d_id d) (d_dependsOn d)) descriptors []"

definition missing_of :: "runtime_descriptor list \<Rightarrow> missing_dependency list" where
  "missing_of descriptors =
     concat (map (\<lambda>d. map (\<lambda>dep. \<lparr>md_runtimeId = d_id d, md_dependencyId = dep\<rparr>)
                          (filter (\<lambda>dep. dep \<notin> set (id_set descriptors)) (d_dependsOn d)))
                descriptors)"

definition init_dfs :: "string list \<Rightarrow> dfs_state" where
  "init_dfs ids = \<lparr>visited = fold (\<lambda>i. map_set i unvisited) ids [], dfs_order = [],
                   cycleParticipants = []\<rparr>"

definition topologicalSortRuntimes :: "runtime_descriptor list \<Rightarrow> topological_result" where
  "topologicalSortRuntimes descriptors =
     (if missing_of descriptors \<noteq> [] then
        \<lparr>tr_order = [], tr_hasCycle = False, tr_cycleParticipants = [],
         tr_missing = missing_of descriptors\<rparr>
      else (case dfs_all (adjacency_of descriptors) (id_set descriptors)
                   (init_dfs (id_set descriptors)) of
              (False, s) \<Rightarrow>
                \<lparr>tr_order = [], tr_hasCycle = True,
                 tr_cycleParticipants = set_of_list (cycleParticipants s), tr_missing = []\<rparr>
            | (True, s) \<Rightarrow>
                \<lparr>tr_order = dfs_order s, tr_hasCycle = False, tr_cycleParticipants = [],
                 tr_missing = []\<rparr>))"

definition reverseTeardownOrder :: "string list \<Rightarrow> string list" where
  "reverseTeardownOrder order = rev order"

section \<open>Correctness of the search\<close>

definition edges :: "adjacency \<Rightarrow> (string \<times> string) set" where
  "edges adj = {(x, y). y \<in> set (deps_of adj x)}"

text \<open>Every element comes after all its dependencies.\<close>

definition deps_first :: "adjacency \<Rightarrow> string list \<Rightarrow> bool" where
  "deps_first adj xs \<longleftrightarrow> (\<forall>n < length xs. set (deps_of adj (xs ! n)) \<subseteq> set (take n xs))"

lemma deps_first_snoc:
  "deps_first adj (xs @ [x]) \<longleftrightarrow> deps_first adj xs \<and> set (deps_of adj x) \<subseteq> set xs"
  by (auto simp: deps_first_def nth_append less_Suc_eq)

definition dfs_inv :: "adjacency \<Rightarrow> string set \<Rightarrow> dfs_state \<Rightarrow> bool" where
  "dfs_inv adj V s \<longleftrightarrow> white s \<union> gray s \<union> black s = V \<and> set (dfs_order s) = black s
     \<and> distinct (dfs_order s) \<and> deps_first adj (dfs_order s)"

lemma colours_disjoint:
  "x \<in> white s \<Longrightarrow> x \<notin> gray s" "x \<in> white s \<Longrightarrow> x \<notin> black s" "x \<in> gray s \<Longrightarrow> x \<notin> black s"
  by (auto simp: white_def gray_def black_def)

lemma dfs_inv_visiting:
  "dfs_inv adj V s \<Longrightarrow> i \<in> white s \<Longrightarrow> dfs_inv adj V (set_visit i visiting s)"
  by (auto simp: dfs_inv_def colours_disjoint)

lemma dfs_inv_finish:
  "dfs_inv adj V s \<Longrightarrow> i \<in> gray s \<Longrightarrow> set (deps_of adj i) \<subseteq> black s \<Longrightarrow> dfs_inv adj V (finish i s)"
  by (auto simp: dfs_inv_def colours_disjoint deps_first_snoc)

abbreviation search_ok :: "adjacency \<Rightarrow> string set \<Rightarrow> dfs_state \<Rightarrow> string set \<Rightarrow> bool \<times> dfs_state \<Rightarrow> bool" where
  "search_ok adj V s target out \<equiv>
     (if fst out then dfs_inv adj V (snd out) \<and> gray (snd out) = gray s
        \<and> black s \<subseteq> black (snd out) \<and> target \<subseteq> black (snd out)
      else \<exists>x. (x, x) \<in> (edges adj)\<^sup>+)"

lemma dfs_correct:
  "i \<in> white s \<Longrightarrow> dfs_inv adj V s \<Longrightarrow> \<forall>x \<in> V. set (deps_of adj x) \<subseteq> V \<Longrightarrow>
     \<forall>g \<in> gray s. (g, i) \<in> (edges adj)\<^sup>+ \<Longrightarrow> search_ok adj V s {i} (dfsVisit adj i s)"
  "i \<in> gray s \<Longrightarrow> dfs_inv adj V s \<Longrightarrow> \<forall>x \<in> V. set (deps_of adj x) \<subseteq> V \<Longrightarrow>
     \<forall>g \<in> gray s. (g, i) \<in> (edges adj)\<^sup>* \<Longrightarrow> set ds \<subseteq> set (deps_of adj i) \<Longrightarrow>
     search_ok adj V s (set ds) (dfs_deps adj i ds s)"
proof (induction adj i s and adj i ds s rule: dfsVisit_dfs_deps.induct)
  case (1 adj i s)
  let ?s1 = "set_visit i visiting s"
  have "\<forall>g \<in> gray ?s1. (g, i) \<in> (edges adj)\<^sup>*"
    using 1(5) by (auto intro: trancl_into_rtrancl)
  with 1 have ih: "search_ok adj V ?s1 (set (deps_of adj i)) (dfs_deps adj i (deps_of adj i) ?s1)"
    by (intro 1(1)) (auto intro: dfs_inv_visiting)
  obtain b s' where d: "dfs_deps adj i (deps_of adj i) ?s1 = (b, s')"
    by (cases "dfs_deps adj i (deps_of adj i) ?s1")
  show ?case
  proof (cases b)
    case True
    have "black s \<subseteq> black ?s1" using colours_disjoint(2) [OF 1(2)] by simp
    with True ih d 1(2) show ?thesis
      by (auto simp: dfs_inv_finish colours_disjoint)
  next
    case False
    with ih d show ?thesis by simp
  qed
next
  case (2 adj i s)
  then show ?case by simp
next
  case (3 adj i dep ds s)
  have dep: "(i, dep) \<in> edges adj" using 3(8) by (simp add: edges_def)
  have "dep \<in> V" using 3(4-6,8) by (auto simp: dfs_inv_def)
  then consider (gray) "dep \<in> gray s" | (white) "dep \<in> white s" | (black) "dep \<in> black s"
    using 3(5) by (auto simp: dfs_inv_def)
  then show ?case
  proof cases
    case gray
    then have "(dep, dep) \<in> (edges adj)\<^sup>+" using 3(7) dep by (meson rtrancl_into_trancl1)
    with gray show ?thesis by (auto simp: gray_def)
  next
    case white
    then have m: "map_get (visited s) dep = Some unvisited" by (simp add: white_def)
    have "\<forall>g \<in> gray s. (g, dep) \<in> (edges adj)\<^sup>+" using 3(7) dep by (meson rtrancl_into_trancl1)
    then have ih: "search_ok adj V s {dep} (dfsVisit adj dep s)"
      using white 3(5,6) m by (intro 3(1)) auto
    obtain b s' where d: "dfsVisit adj dep s = (b, s')" by (cases "dfsVisit adj dep s")
    show ?thesis
    proof (cases b)
      case True
      with ih d have "dfs_inv adj V s'" "gray s' = gray s" "black s \<subseteq> black s'" "dep \<in> black s'"
        by auto
      moreover from this have "search_ok adj V s' (set ds) (dfs_deps adj i ds s')"
        using 3(4,6-8) True d m by (intro 3(2)) auto
      ultimately show ?thesis using True d m by (auto split: if_splits)
    next
      case False
      with ih d m show ?thesis by simp
    qed
  next
    case black
    then have m: "map_get (visited s) dep = Some visited_done" by (simp add: black_def)
    with 3(3) 3(4-8) black show ?thesis by auto
  qed
qed

lemma dfs_all_correct:
  "dfs_inv adj V s \<Longrightarrow> gray s = {} \<Longrightarrow> \<forall>x \<in> V. set (deps_of adj x) \<subseteq> V \<Longrightarrow> set is \<subseteq> V \<Longrightarrow>
     search_ok adj V s (set is) (dfs_all adj is s)"
proof (induction "is" arbitrary: s)
  case Nil
  then show ?case by simp
next
  case (Cons i "is")
  show ?case
  proof (cases "i \<in> white s")
    case True
    then have m: "map_get (visited s) i = Some unvisited" by (simp add: white_def)
    have ih: "search_ok adj V s {i} (dfsVisit adj i s)"
      using True Cons.prems by (intro dfs_correct(1)) auto
    obtain b s' where d: "dfsVisit adj i s = (b, s')" by (cases "dfsVisit adj i s")
    show ?thesis
    proof (cases b)
      case True
      with ih d have "dfs_inv adj V s'" "gray s' = {}" "black s \<subseteq> black s'" "i \<in> black s'"
        using Cons.prems by auto
      moreover from this Cons.prems have "search_ok adj V s' (set is) (dfs_all adj is s')"
        by (intro Cons.IH) auto
      ultimately show ?thesis using True d m Cons.prems(2) by (auto split: if_splits)
    next
      case False
      with ih d m show ?thesis by simp
    qed
  next
    case False
    then have "map_get (visited s) i \<noteq> Some unvisited" and "i \<in> black s"
      using Cons.prems by (auto simp: white_def dfs_inv_def)
    with Cons.IH [OF Cons.prems(1-3)] Cons.prems(4) show ?thesis by (auto split: if_splits)
  qed
qed

section \<open>Orders and cycles\<close>

definition rank :: "'a list \<Rightarrow> 'a \<Rightarrow> nat" where
  "rank xs x = length (takeWhile (\<lambda>y. y \<noteq> x) xs)"

lemma rank_take: "x \<in> set (take n xs) \<Longrightarrow> rank xs x < n"
proof (induction xs arbitrary: n)
  case Nil
  then show ?case by simp
next
  case (Cons y ys)
  then show ?case by (cases n) (auto simp: rank_def)
qed

lemma rank_nth: "x \<in> set xs \<Longrightarrow> rank xs x < length xs \<and> xs ! rank xs x = x"
  by (induction xs) (auto simp: rank_def)

lemma deps_first_rank:
  assumes "deps_first adj xs" and "x \<in> set xs" and "(x, y) \<in> edges adj"
  shows "rank xs y < rank xs x"
proof -
  have "set (deps_of adj x) \<subseteq> set (take (rank xs x) xs)"
    using assms(1) rank_nth [OF assms(2)] unfolding deps_first_def by metis
  with assms(3) show ?thesis by (auto simp: edges_def intro: rank_take)
qed

lemma deps_first_acyclic:
  assumes "deps_first adj xs" and "\<And>x. x \<notin> set xs \<Longrightarrow> deps_of adj x = []"
  shows "acyclic (edges adj)"
proof -
  have "(edges adj)\<inverse> \<subseteq> measure (rank xs)"
  proof
    fix p assume "p \<in> (edges adj)\<inverse>"
    then obtain x y where p: "p = (y, x)" "(x, y) \<in> edges adj" by auto
    then have "x \<in> set xs" using assms(2) by (force simp: edges_def)
    with deps_first_rank [OF assms(1) _ p(2)] p(1) show "p \<in> measure (rank xs)" by simp
  qed
  then have "acyclic ((edges adj)\<inverse>)" by (metis acyclic_subset wf_acyclic wf_measure)
  then show ?thesis by simp
qed

section \<open>The installed graph\<close>

lemma map_get_adjacency:
  "map_get (fold (\<lambda>d. map_set (d_id d) (d_dependsOn d)) ds m) x =
     (case find (\<lambda>d. d_id d = x) (rev ds) of
        None \<Rightarrow> map_get m x | Some d \<Rightarrow> Some (d_dependsOn d))"
proof (induction ds arbitrary: m)
  case Nil
  then show ?case by simp
next
  case (Cons d ds)
  then show ?case by (simp add: find_append split: option.split)
qed

lemma deps_of_adjacency:
  "deps_of (adjacency_of ds) x =
     (case find (\<lambda>d. d_id d = x) (rev ds) of None \<Rightarrow> [] | Some d \<Rightarrow> d_dependsOn d)"
  by (simp add: deps_of_def adjacency_of_def map_get_adjacency split: option.split)

lemma set_id_set [simp]: "set (id_set ds) = d_id ` set ds"
  by (simp add: id_set_def)

lemma distinct_id_set [simp]: "distinct (id_set ds)"
  by (simp add: id_set_def)

lemma deps_of_outside: "x \<notin> d_id ` set ds \<Longrightarrow> deps_of (adjacency_of ds) x = []"
  by (auto simp: deps_of_adjacency split: option.splits dest!: find_Some_in)

lemma missing_none: "missing_of ds = [] \<longleftrightarrow> (\<forall>d \<in> set ds. set (d_dependsOn d) \<subseteq> d_id ` set ds)"
  by (auto simp: missing_of_def filter_empty_conv)

lemma deps_closed:
  assumes "missing_of ds = []"
  shows "\<forall>x \<in> d_id ` set ds. set (deps_of (adjacency_of ds) x) \<subseteq> d_id ` set ds"
proof
  fix x
  show "set (deps_of (adjacency_of ds) x) \<subseteq> d_id ` set ds"
  proof (cases "find (\<lambda>d. d_id d = x) (rev ds)")
    case None
    then show ?thesis by (simp add: deps_of_adjacency)
  next
    case (Some d)
    then have "d \<in> set ds" using find_Some_in by fastforce
    with Some assms show ?thesis by (simp add: deps_of_adjacency missing_none)
  qed
qed

lemma init_dfs_inv: "dfs_inv adj (set ids) (init_dfs ids) \<and> gray (init_dfs ids) = {}"
proof -
  have "map_get (fold (\<lambda>i. map_set i unvisited) ids m) x =
      (if x \<in> set ids then Some unvisited else map_get m x)" for m x
    by (induction ids arbitrary: m) auto
  then show ?thesis
    by (auto simp: dfs_inv_def white_def gray_def black_def init_dfs_def deps_first_def)
qed

lemma sort_search:
  assumes "missing_of ds = []"
  shows "search_ok (adjacency_of ds) (d_id ` set ds) (init_dfs (id_set ds)) (d_id ` set ds)
           (dfs_all (adjacency_of ds) (id_set ds) (init_dfs (id_set ds)))"
proof -
  have "dfs_inv (adjacency_of ds) (d_id ` set ds) (init_dfs (id_set ds))"
    and "gray (init_dfs (id_set ds)) = {}"
    using init_dfs_inv [of "adjacency_of ds" "id_set ds"] by simp_all
  from dfs_all_correct [OF this deps_closed [OF assms], of "id_set ds", unfolded set_id_set]
  show ?thesis by blast
qed

lemma deps_of_member:
  assumes "distinct (map d_id ds)" and "d \<in> set ds"
  shows "deps_of (adjacency_of ds) (d_id d) = d_dependsOn d"
proof -
  have "find (\<lambda>x. d_id x = d_id d) (rev ds) \<noteq> None"
    using assms(2) by (auto simp: find_None_iff)
  then obtain d' where f: "find (\<lambda>x. d_id x = d_id d) (rev ds) = Some d'" by blast
  then have "d' \<in> set ds" "d_id d' = d_id d" using find_Some_in [OF f] by simp_all
  then have "d' = d" using assms by (metis distinct_map inj_onD)
  with f show ?thesis by (simp add: deps_of_adjacency)
qed

text \<open>The dependency relation the descriptors declare.\<close>

definition depends :: "runtime_descriptor list \<Rightarrow> (string \<times> string) set" where
  "depends ds = {(d_id d, dep) |d dep. d \<in> set ds \<and> dep \<in> set (d_dependsOn d)}"

lemma edges_depends: "distinct (map d_id ds) \<Longrightarrow> edges (adjacency_of ds) = depends ds"
  unfolding edges_def depends_def
  using deps_of_member deps_of_outside [of _ ds] by fastforce

lemma missing_depends: "missing_of ds = [] \<longleftrightarrow> depends ds `` UNIV \<subseteq> d_id ` set ds"
proof -
  have "depends ds `` UNIV = (\<Union>d \<in> set ds. set (d_dependsOn d))"
    by (auto simp: depends_def Image_def)
  then show ?thesis by (simp add: missing_none UN_subset_iff)
qed

lemma sort_order:
  assumes "tr_missing (topologicalSortRuntimes ds) = []" and "\<not> tr_hasCycle (topologicalSortRuntimes ds)"
  shows "distinct (tr_order (topologicalSortRuntimes ds))"
    "set (tr_order (topologicalSortRuntimes ds)) = d_id ` set ds"
    "deps_first (adjacency_of ds) (tr_order (topologicalSortRuntimes ds))"
proof -
  have none: "missing_of ds = []"
    using assms(1) by (auto simp: topologicalSortRuntimes_def split: if_splits)
  obtain b s where r: "dfs_all (adjacency_of ds) (id_set ds) (init_dfs (id_set ds)) = (b, s)"
    by (cases "dfs_all (adjacency_of ds) (id_set ds) (init_dfs (id_set ds))")
  have b: "b" using assms(2) none r by (auto simp: topologicalSortRuntimes_def split: bool.splits)
  then have "tr_order (topologicalSortRuntimes ds) = dfs_order s"
    using none r by (simp add: topologicalSortRuntimes_def)
  moreover have "dfs_inv (adjacency_of ds) (d_id ` set ds) s" "d_id ` set ds \<subseteq> black s"
    using sort_search [OF none, unfolded r fst_conv snd_conv] b by auto
  ultimately show "distinct (tr_order (topologicalSortRuntimes ds))"
    "set (tr_order (topologicalSortRuntimes ds)) = d_id ` set ds"
    "deps_first (adjacency_of ds) (tr_order (topologicalSortRuntimes ds))"
    by (auto simp: dfs_inv_def)
qed

text \<open>
  C18. The sort of the runtime graph is correct: a dependency on an uninstalled runtime is reported
  exactly when there is one; otherwise a cycle is reported exactly when the dependency relation has
  one; in both cases no order is produced; and when neither is reported the order lists every
  runtime once, each after all the runtimes it depends on.
\<close>

theorem topologicalSortRuntimes_correct:
  assumes "distinct (map d_id ds)"
  shows "let res = topologicalSortRuntimes ds in
    (tr_missing res = [] \<longleftrightarrow> depends ds `` UNIV \<subseteq> d_id ` set ds)
    \<and> (tr_missing res = [] \<longrightarrow> (tr_hasCycle res \<longleftrightarrow> \<not> acyclic (depends ds)))
    \<and> (tr_missing res \<noteq> [] \<or> tr_hasCycle res \<longrightarrow> tr_order res = [])
    \<and> (tr_missing res = [] \<and> \<not> tr_hasCycle res \<longrightarrow>
         distinct (tr_order res) \<and> set (tr_order res) = d_id ` set ds
         \<and> (\<forall>n < length (tr_order res). \<forall>d \<in> set ds. d_id d = tr_order res ! n \<longrightarrow>
              set (d_dependsOn d) \<subseteq> set (take n (tr_order res))))"
proof (cases "missing_of ds = []")
  case False
  then show ?thesis
    using missing_depends [of ds] by (simp add: topologicalSortRuntimes_def)
next
  case True
  let ?adj = "adjacency_of ds"
  obtain b s where r: "dfs_all ?adj (id_set ds) (init_dfs (id_set ds)) = (b, s)"
    by (cases "dfs_all ?adj (id_set ds) (init_dfs (id_set ds))")
  note search = sort_search [OF True, unfolded r fst_conv snd_conv]
  have none: "depends ds `` UNIV \<subseteq> d_id ` set ds"
    using True by (simp add: missing_depends)
  show ?thesis
  proof (cases b)
    case False
    with search have "\<not> acyclic (depends ds)"
      by (simp add: acyclic_def flip: edges_depends [OF assms])
    with False r True none show ?thesis by (simp add: topologicalSortRuntimes_def)
  next
    case True
    with search have inv: "dfs_inv ?adj (d_id ` set ds) s" "d_id ` set ds \<subseteq> black s" by auto
    then have o: "set (dfs_order s) = d_id ` set ds" "distinct (dfs_order s)"
      "deps_first ?adj (dfs_order s)" by (auto simp: dfs_inv_def)
    have "acyclic (depends ds)"
      using deps_first_acyclic [OF o(3)] deps_of_outside [of _ ds] o(1)
      by (simp add: edges_depends [OF assms])
    moreover have "set (d_dependsOn d) \<subseteq> set (take n (dfs_order s))"
      if "n < length (dfs_order s)" "d \<in> set ds" "d_id d = dfs_order s ! n" for n d
      using o(3) that deps_of_member [OF assms that(2)] unfolding deps_first_def by metis
    ultimately show ?thesis
      using True r \<open>missing_of ds = []\<close> none o by (simp add: topologicalSortRuntimes_def)
  qed
qed

text \<open>Teardown order: a runtime comes before everything it depends on.\<close>

lemma reverseTeardownOrder_rank:
  assumes "distinct xs" and "x \<in> set xs" and "y \<in> set xs" and "rank xs y < rank xs x"
  shows "rank (reverseTeardownOrder xs) x < rank (reverseTeardownOrder xs) y"
proof -
  have "rank (rev xs) z = length xs - Suc (rank xs z)" if "z \<in> set xs" for z
  proof -
    let ?n = "rank xs z" and ?m = "rank (rev xs) z"
    have n: "?n < length xs" "xs ! ?n = z" using rank_nth [OF that] by auto
    have m: "?m < length xs" "rev xs ! ?m = z" using rank_nth [of z "rev xs"] that by auto
    then have "xs ! (length xs - Suc ?m) = z" by (simp add: rev_nth)
    then have "?n = length xs - Suc ?m"
      using n m(1) nth_eq_iff_index_eq [OF assms(1), of ?n "length xs - Suc ?m"] by simp
    with m(1) show ?thesis by simp
  qed
  then have "rank (rev xs) x = length xs - Suc (rank xs x)"
    and "rank (rev xs) y = length xs - Suc (rank xs y)" using assms by blast+
  moreover have "rank xs x < length xs" using rank_nth [OF assms(2)] by blast
  ultimately show ?thesis using assms(4) by (simp add: reverseTeardownOrder_def diff_less_mono2)
qed

section \<open>Examples\<close>

definition demo_runtime :: "string \<Rightarrow> string list \<Rightarrow> runtime_descriptor" where
  "demo_runtime i deps =
     \<lparr>d_id = i, d_title = i, d_responsibility = [], d_dependsOn = deps, d_ref = 0\<rparr>"

theorem topologicalSortRuntimes_correct_witness:
  "distinct (map d_id [demo_runtime ''chat'' [''store''], demo_runtime ''store'' []])
   \<and> tr_order (topologicalSortRuntimes [demo_runtime ''chat'' [''store''], demo_runtime ''store'' []])
       = [''store'', ''chat'']
   \<and> acyclic (depends [demo_runtime ''chat'' [''store''], demo_runtime ''store'' []])"
proof -
  let ?ds = "[demo_runtime ''chat'' [''store''], demo_runtime ''store'' []]"
  have d: "distinct (map d_id ?ds)" by (simp add: demo_runtime_def)
  have "topologicalSortRuntimes ?ds = \<lparr>tr_order = [''store'', ''chat''], tr_hasCycle = False,
      tr_cycleParticipants = [], tr_missing = []\<rparr>" by code_simp
  with topologicalSortRuntimes_correct [OF d] d show ?thesis by (simp add: Let_def)
qed

text \<open>
  The reported participants include runtimes that only lead to the cycle: \<^verbatim>\<open>a\<close> depends on it
  but is not part of it.
\<close>

lemma cycle_participants_example:
  "tr_cycleParticipants (topologicalSortRuntimes
     [demo_runtime ''a'' [''b''], demo_runtime ''b'' [''c''], demo_runtime ''c'' [''b'']]) =
   [''c'', ''b'', ''a'']"
  by code_simp

end
