(* ===== verification/Mobile_Reducer.thy ===== *)
theory Mobile_Reducer
  imports Mobile_Topology
begin

text \<open>
  The pure state transitions of the mobile lifecycle kernel,
  \<^verbatim>\<open>apps/mobile/src/app/lifecycle/lifecycleReducer.ts\<close>, the tables of legal phase and launch
  transitions, and the derived availability of a runtime (\<^verbatim>\<open>runtimeAvailability.ts\<close>).
\<close>

section \<open>Actions\<close>

datatype lifecycle_action =
    REGISTER_RUNTIMES "runtime_descriptor list" "string list"
  | SET_LAUNCH_STATE launch_state
  | SET_GENERATION int
  | BEGIN_BOOTSTRAP
  | RUNTIME_BOOTSTRAPPING string
  | RUNTIME_READY string
  | RUNTIME_FAILED string string
  | RUNTIME_READINESS string runtime_readiness
  | BOOTSTRAP_COMPLETE "operation_result list"
  | BEGIN_SUSPEND
  | RUNTIME_SUSPENDED string
  | RUNTIME_SUSPEND_FAILED string string
  | SUSPEND_COMPLETE "string option"
  | BEGIN_RESUME
  | RUNTIME_RESUMING string
  | RUNTIME_RESUMED string
  | RUNTIME_RESUME_FAILED string string
  | RESUME_COMPLETE "string option"
  | BEGIN_TEARDOWN
  | RUNTIME_TEARING_DOWN string
  | RUNTIME_TORN_DOWN string
  | RUNTIME_TEARDOWN_FAILED string string
  | TEARDOWN_COMPLETE aggregate_teardown
  | SET_ERROR string

definition initialLifecycleState :: "int \<Rightarrow> launch_state \<Rightarrow> lifecycle_state" where
  "initialLifecycleState gen launch =
     \<lparr>ls_phase = COLD, ls_launchState = launch, ls_generation = gen, ls_runtimes = [],
      ls_bootOrder = [], ls_error = None\<rparr>"

section \<open>Reducer\<close>

text \<open>A patch leaves a field alone where it is \<^verbatim>\<open>undefined\<close>.\<close>

record entry_patch =
  pt_status :: "runtime_status option"
  pt_lastError :: "string option option"
  pt_readiness :: "runtime_readiness option option"

definition apply_patch :: "entry_patch \<Rightarrow> runtime_entry \<Rightarrow> runtime_entry" where
  "apply_patch p e =
     e\<lparr>re_status := (case pt_status p of None \<Rightarrow> re_status e | Some s \<Rightarrow> s),
       re_lastError := (case pt_lastError p of None \<Rightarrow> re_lastError e | Some x \<Rightarrow> x),
       re_readiness := (case pt_readiness p of None \<Rightarrow> re_readiness e | Some x \<Rightarrow> x)\<rparr>"

definition updateRuntimeEntry :: "string \<Rightarrow> entry_patch \<Rightarrow> lifecycle_state \<Rightarrow> lifecycle_state" where
  "updateRuntimeEntry i p st =
     (case map_get (ls_runtimes st) i of
        None \<Rightarrow> st
      | Some e \<Rightarrow> st\<lparr>ls_runtimes := map_set i (apply_patch p e) (ls_runtimes st)\<rparr>)"

definition updateRuntimeStatus :: "string \<Rightarrow> runtime_status \<Rightarrow> lifecycle_state \<Rightarrow> lifecycle_state" where
  "updateRuntimeStatus i s st =
     updateRuntimeEntry i \<lparr>pt_status = Some s, pt_lastError = Some None, pt_readiness = None\<rparr> st"

definition failure_patch :: "runtime_status \<Rightarrow> string \<Rightarrow> entry_patch" where
  "failure_patch s err = \<lparr>pt_status = Some s, pt_lastError = Some (Some err), pt_readiness = None\<rparr>"

definition new_entry :: "runtime_descriptor \<Rightarrow> runtime_entry" where
  "new_entry d = \<lparr>re_descriptor = d, re_status = pending, re_lastError = None, re_readiness = None\<rparr>"

definition truthy :: "string option \<Rightarrow> bool" where
  "truthy e \<longleftrightarrow> e \<noteq> None \<and> e \<noteq> Some []"

fun lifecycleReducer :: "lifecycle_action \<Rightarrow> lifecycle_state \<Rightarrow> lifecycle_state" where
  "lifecycleReducer (SET_LAUNCH_STATE l) st = st\<lparr>ls_launchState := l\<rparr>"
| "lifecycleReducer (SET_GENERATION g) st = st\<lparr>ls_generation := g\<rparr>"
| "lifecycleReducer (REGISTER_RUNTIMES ds order) st =
     st\<lparr>ls_runtimes := fold (\<lambda>d. map_set (d_id d) (new_entry d)) ds [],
        ls_bootOrder := order, ls_error := None\<rparr>"
| "lifecycleReducer BEGIN_BOOTSTRAP st = st\<lparr>ls_phase := BOOTSTRAPPING, ls_error := None\<rparr>"
| "lifecycleReducer (RUNTIME_BOOTSTRAPPING i) st = updateRuntimeStatus i bootstrapping st"
| "lifecycleReducer (RUNTIME_READY i) st = updateRuntimeStatus i ready st"
| "lifecycleReducer (RUNTIME_FAILED i err) st = updateRuntimeEntry i (failure_patch failed err) st"
| "lifecycleReducer (RUNTIME_READINESS i r) st =
     updateRuntimeEntry i \<lparr>pt_status = None, pt_lastError = None, pt_readiness = Some (Some r)\<rparr> st"
| "lifecycleReducer (BOOTSTRAP_COMPLETE _) st = st\<lparr>ls_phase := ACTIVE\<rparr>"
| "lifecycleReducer BEGIN_SUSPEND st = st\<lparr>ls_phase := SUSPENDING\<rparr>"
| "lifecycleReducer (RUNTIME_SUSPENDED i) st = updateRuntimeStatus i suspended st"
| "lifecycleReducer (RUNTIME_SUSPEND_FAILED i err) st =
     updateRuntimeEntry i (failure_patch suspended err) st"
| "lifecycleReducer (SUSPEND_COMPLETE err) st = st\<lparr>ls_phase := SUSPENDED, ls_error := err\<rparr>"
| "lifecycleReducer BEGIN_RESUME st = st\<lparr>ls_phase := RESUMING\<rparr>"
| "lifecycleReducer (RUNTIME_RESUMING i) st =
     updateRuntimeEntry i
       \<lparr>pt_status = Some resuming, pt_lastError = Some None, pt_readiness = Some None\<rparr> st"
| "lifecycleReducer (RUNTIME_RESUMED i) st = updateRuntimeStatus i ready st"
| "lifecycleReducer (RUNTIME_RESUME_FAILED i err) st =
     updateRuntimeEntry i (failure_patch suspended err) st"
| "lifecycleReducer (RESUME_COMPLETE err) st =
     st\<lparr>ls_phase := (if truthy err then SUSPENDED else ACTIVE), ls_error := err\<rparr>"
| "lifecycleReducer BEGIN_TEARDOWN st = st\<lparr>ls_phase := TEARDOWN\<rparr>"
| "lifecycleReducer (RUNTIME_TEARING_DOWN i) st = updateRuntimeStatus i tearing_down st"
| "lifecycleReducer (RUNTIME_TORN_DOWN i) st = updateRuntimeStatus i torn_down st"
| "lifecycleReducer (RUNTIME_TEARDOWN_FAILED i err) st =
     updateRuntimeEntry i (failure_patch failed err) st"
| "lifecycleReducer (TEARDOWN_COMPLETE res) st =
     st\<lparr>ls_phase := (if at_allSuccessful res then COLD else TEARDOWN_FAILED),
        ls_error := (if at_allSuccessful res then None
                     else Some ''mobile.lifecycle.teardownIncomplete'')\<rparr>"
| "lifecycleReducer (SET_ERROR err) st = st\<lparr>ls_error := Some err\<rparr>"

section \<open>Legal transitions\<close>

fun VALID_TRANSITIONS :: "lifecycle_phase \<Rightarrow> lifecycle_phase list" where
  "VALID_TRANSITIONS COLD = [BOOTSTRAPPING]"
| "VALID_TRANSITIONS BOOTSTRAPPING = [ACTIVE, TEARDOWN]"
| "VALID_TRANSITIONS ACTIVE = [SUSPENDING, TEARDOWN]"
| "VALID_TRANSITIONS SUSPENDING = [SUSPENDED, TEARDOWN]"
| "VALID_TRANSITIONS SUSPENDED = [RESUMING, TEARDOWN]"
| "VALID_TRANSITIONS RESUMING = [ACTIVE, TEARDOWN]"
| "VALID_TRANSITIONS TEARDOWN = [COLD, TEARDOWN_FAILED]"
| "VALID_TRANSITIONS TEARDOWN_FAILED = [TEARDOWN]"

definition isValidPhaseTransition :: "lifecycle_phase \<Rightarrow> lifecycle_phase \<Rightarrow> bool" where
  "isValidPhaseTransition p q \<longleftrightarrow> q \<in> set (VALID_TRANSITIONS p)"

fun VALID_LAUNCH_TRANSITIONS :: "launch_state \<Rightarrow> launch_state list" where
  "VALID_LAUNCH_TRANSITIONS app_boot = [station_selection]"
| "VALID_LAUNCH_TRANSITIONS station_selection = [station_handshake, runtime_critical]"
| "VALID_LAUNCH_TRANSITIONS station_handshake =
     [station_selection, access_gate_chain, runtime_critical]"
| "VALID_LAUNCH_TRANSITIONS access_gate_chain =
     [station_selection, station_handshake, runtime_critical]"
| "VALID_LAUNCH_TRANSITIONS runtime_critical = [station_selection, access_gate_chain, shell]"
| "VALID_LAUNCH_TRANSITIONS shell = [station_change, logout_state, background]"
| "VALID_LAUNCH_TRANSITIONS station_change = [station_selection]"
| "VALID_LAUNCH_TRANSITIONS logout_state =
     [station_selection, station_handshake, access_gate_chain]"
| "VALID_LAUNCH_TRANSITIONS background = [resume_state]"
| "VALID_LAUNCH_TRANSITIONS resume_state =
     [station_selection, access_gate_chain, runtime_critical, shell]"

definition isValidLaunchStateTransition :: "launch_state \<Rightarrow> launch_state \<Rightarrow> bool" where
  "isValidLaunchStateTransition p q \<longleftrightarrow> p = q \<or> q \<in> set (VALID_LAUNCH_TRANSITIONS p)"

section \<open>What the reducer keeps\<close>

fun runtime_action :: "lifecycle_action \<Rightarrow> string option" where
  "runtime_action (RUNTIME_BOOTSTRAPPING i) = Some i"
| "runtime_action (RUNTIME_READY i) = Some i"
| "runtime_action (RUNTIME_FAILED i _) = Some i"
| "runtime_action (RUNTIME_READINESS i _) = Some i"
| "runtime_action (RUNTIME_SUSPENDED i) = Some i"
| "runtime_action (RUNTIME_SUSPEND_FAILED i _) = Some i"
| "runtime_action (RUNTIME_RESUMING i) = Some i"
| "runtime_action (RUNTIME_RESUMED i) = Some i"
| "runtime_action (RUNTIME_RESUME_FAILED i _) = Some i"
| "runtime_action (RUNTIME_TEARING_DOWN i) = Some i"
| "runtime_action (RUNTIME_TORN_DOWN i) = Some i"
| "runtime_action (RUNTIME_TEARDOWN_FAILED i _) = Some i"
| "runtime_action _ = None"

definition entry_status :: "lifecycle_state \<Rightarrow> string \<Rightarrow> runtime_status option" where
  "entry_status st i = map_option re_status (map_get (ls_runtimes st) i)"

definition entry_deps :: "lifecycle_state \<Rightarrow> string \<Rightarrow> string list" where
  "entry_deps st i =
     (case map_get (ls_runtimes st) i of None \<Rightarrow> [] | Some e \<Rightarrow> d_dependsOn (re_descriptor e))"

lemma updateRuntimeEntry_fields [simp]:
  "ls_phase (updateRuntimeEntry i p st) = ls_phase st"
  "ls_launchState (updateRuntimeEntry i p st) = ls_launchState st"
  "ls_generation (updateRuntimeEntry i p st) = ls_generation st"
  "ls_bootOrder (updateRuntimeEntry i p st) = ls_bootOrder st"
  "ls_error (updateRuntimeEntry i p st) = ls_error st"
  by (simp_all add: updateRuntimeEntry_def split: option.split)

lemma updateRuntimeEntry_get:
  "map_get (ls_runtimes (updateRuntimeEntry i p st)) j =
     (if j = i then map_option (apply_patch p) (map_get (ls_runtimes st) i)
      else map_get (ls_runtimes st) j)"
  by (simp add: updateRuntimeEntry_def split: option.split)

lemma updateRuntimeStatus_fields [simp]:
  "ls_phase (updateRuntimeStatus i s st) = ls_phase st"
  "ls_launchState (updateRuntimeStatus i s st) = ls_launchState st"
  "ls_generation (updateRuntimeStatus i s st) = ls_generation st"
  "ls_bootOrder (updateRuntimeStatus i s st) = ls_bootOrder st"
  "ls_error (updateRuntimeStatus i s st) = ls_error st"
  by (simp_all add: updateRuntimeStatus_def)

lemma entry_deps_update [simp]:
  "entry_deps (updateRuntimeEntry i p st) j = entry_deps st j"
  "entry_deps (updateRuntimeStatus i s st) j = entry_deps st j"
  by (auto simp: entry_deps_def updateRuntimeStatus_def updateRuntimeEntry_get apply_patch_def
      split: option.splits)

lemma entry_status_update:
  "entry_status (updateRuntimeEntry i p st) j =
     (if j = i then (case pt_status p of None \<Rightarrow> entry_status st i
                     | Some s \<Rightarrow> map_option (\<lambda>_. s) (entry_status st i))
      else entry_status st j)"
  by (auto simp: entry_status_def updateRuntimeEntry_get apply_patch_def option.map_comp comp_def
      split: option.split)

lemma entry_status_updateStatus [simp]:
  "entry_status (updateRuntimeStatus i s st) j =
     (if j = i then map_option (\<lambda>_. s) (entry_status st i) else entry_status st j)"
  by (simp add: updateRuntimeStatus_def entry_status_update)

lemma runtime_action_keeps:
  assumes "runtime_action a = Some i"
  shows "ls_phase (lifecycleReducer a st) = ls_phase st"
    "ls_launchState (lifecycleReducer a st) = ls_launchState st"
    "ls_generation (lifecycleReducer a st) = ls_generation st"
    "ls_bootOrder (lifecycleReducer a st) = ls_bootOrder st"
    "ls_error (lifecycleReducer a st) = ls_error st"
    "entry_deps (lifecycleReducer a st) j = entry_deps st j"
    "j \<noteq> i \<Longrightarrow> entry_status (lifecycleReducer a st) j = entry_status st j"
  using assms by (cases a; simp add: entry_status_update)+

end
