(* ===== verification/Mobile_Availability.thy ===== *)
theory Mobile_Availability
  imports Mobile_Reducer
begin

text \<open>
  The derived availability of a mobile runtime,
  \<^verbatim>\<open>apps/mobile/src/app/lifecycle/runtimeAvailability.ts\<close>.  The source recurses along
  \<^verbatim>\<open>dependsOn\<close> without a guard; the model carries the remaining stack depth and is \<open>None\<close> when it
  is used up.  On a graph installed by the kernel, whose boot order lists dependencies first, the
  depth \<open>Suc (rank order i)\<close> is enough, and the result is the intended one.
\<close>

definition publicRuntimeErrorKey :: "string \<Rightarrow> string" where
  "publicRuntimeErrorKey err =
     (if starts_with ''mobile.lifecycle.'' err then err else ''mobile.lifecycle.runtimeFailed'')"

definition own_snapshot :: "string \<Rightarrow> runtime_entry \<Rightarrow> runtime_snapshot" where
  "own_snapshot i e =
     \<lparr>rs_id = i, rs_status = re_status e,
      rs_errorKey = (if truthy (re_lastError e)
                     then map_option publicRuntimeErrorKey (re_lastError e) else None)\<rparr>"

definition dependency_snapshot :: "string \<Rightarrow> string \<Rightarrow> runtime_snapshot option \<Rightarrow> runtime_snapshot" where
  "dependency_snapshot i dep r =
     \<lparr>rs_id = i,
      rs_status = (case r of
          Some s \<Rightarrow> if rs_status s = pending \<or> rs_status s = bootstrapping \<or> rs_status s = resuming
                    then bootstrapping else failed
        | None \<Rightarrow> failed),
      rs_errorKey = Some (''mobile.lifecycle.dependencyFailed:'' @ dep)\<rparr>"

fun readRuntimeAvailability ::
  "nat \<Rightarrow> lifecycle_state \<Rightarrow> string \<Rightarrow> runtime_snapshot option option"
and availability_deps ::
  "nat \<Rightarrow> lifecycle_state \<Rightarrow> string \<Rightarrow> runtime_snapshot \<Rightarrow> string list \<Rightarrow> runtime_snapshot option option"
where
  "readRuntimeAvailability 0 st i = None"
| "readRuntimeAvailability (Suc n) st i =
     (case map_get (ls_runtimes st) i of
        None \<Rightarrow> Some None
      | Some e \<Rightarrow>
          if re_status e \<noteq> ready then Some (Some (own_snapshot i e))
          else (case re_readiness e of
                  Some r \<Rightarrow>
                    if rr_status r \<noteq> RReady then
                      Some (Some \<lparr>rs_id = i,
                        rs_status = (if rr_status r = RPending then bootstrapping else failed),
                        rs_errorKey = rr_errorKey r\<rparr>)
                    else availability_deps n st i (own_snapshot i e) (d_dependsOn (re_descriptor e))
                | None \<Rightarrow>
                    availability_deps n st i (own_snapshot i e) (d_dependsOn (re_descriptor e))))"
| "availability_deps n st i result [] = Some (Some result)"
| "availability_deps n st i result (dep # deps) =
     (case readRuntimeAvailability n st dep of
        None \<Rightarrow> None
      | Some r \<Rightarrow>
          if (case r of None \<Rightarrow> True | Some s \<Rightarrow> rs_status s \<noteq> ready)
          then Some (Some (dependency_snapshot i dep r))
          else availability_deps n st i result deps)"

section \<open>What availability means\<close>

definition own_ready :: "runtime_entry \<Rightarrow> bool" where
  "own_ready e \<longleftrightarrow> re_status e = ready
     \<and> (case re_readiness e of None \<Rightarrow> True | Some r \<Rightarrow> rr_status r = RReady)"

text \<open>A runtime is available when it and everything it depends on, transitively, is ready.\<close>

inductive available :: "lifecycle_state \<Rightarrow> string \<Rightarrow> bool" for st where
  availableI: "map_get (ls_runtimes st) i = Some e \<Longrightarrow> own_ready e \<Longrightarrow>
     \<forall>dep \<in> set (d_dependsOn (re_descriptor e)). available st dep \<Longrightarrow> available st i"

inductive_simps available_iff: "available st i"

definition entry_adjacency :: "lifecycle_state \<Rightarrow> adjacency" where
  "entry_adjacency st = map (\<lambda>p. (fst p, d_dependsOn (re_descriptor (snd p)))) (ls_runtimes st)"

definition graph_ordered :: "lifecycle_state \<Rightarrow> bool" where
  "graph_ordered st \<longleftrightarrow> distinct (ls_bootOrder st)
     \<and> (\<forall>i. map_get (ls_runtimes st) i \<noteq> None \<longleftrightarrow> i \<in> set (ls_bootOrder st))
     \<and> (\<forall>i e. map_get (ls_runtimes st) i = Some e \<longrightarrow> d_id (re_descriptor e) = i)
     \<and> deps_first (entry_adjacency st) (ls_bootOrder st)"

lemma deps_of_entry_adjacency: "deps_of (entry_adjacency st) i = entry_deps st i"
proof -
  have "map_get (map (\<lambda>p. (fst p, d_dependsOn (re_descriptor (snd p)))) m) i =
      map_option (\<lambda>e. d_dependsOn (re_descriptor e)) (map_get m i)" for m :: "(string, runtime_entry) jsmap"
    by (induction m) auto
  then show ?thesis
    by (simp add: deps_of_def entry_adjacency_def entry_deps_def split: option.split)
qed

lemma graph_ordered_rank:
  assumes "graph_ordered st" and "map_get (ls_runtimes st) i = Some e"
    and "dep \<in> set (d_dependsOn (re_descriptor e))"
  shows "rank (ls_bootOrder st) dep < rank (ls_bootOrder st) i"
    and "map_get (ls_runtimes st) dep \<noteq> None"
proof -
  have i: "i \<in> set (ls_bootOrder st)" and d: "deps_first (entry_adjacency st) (ls_bootOrder st)"
    using assms(1,2) by (auto simp: graph_ordered_def)
  have e: "dep \<in> set (deps_of (entry_adjacency st) i)"
    using assms(2,3) by (simp add: deps_of_entry_adjacency entry_deps_def)
  then show "rank (ls_bootOrder st) dep < rank (ls_bootOrder st) i"
    using deps_first_rank [OF d i] by (simp add: edges_def)
  have "dep \<in> set (ls_bootOrder st)"
    using d e rank_nth [OF i] unfolding deps_first_def by (metis in_set_takeD subsetD)
  then show "map_get (ls_runtimes st) dep \<noteq> None" using assms(1) by (simp add: graph_ordered_def)
qed

lemma availability_deps_spec:
  assumes "\<And>dep. dep \<in> set deps \<Longrightarrow>
      \<exists>s. readRuntimeAvailability n st dep = Some (Some s) \<and> (rs_status s = ready \<longleftrightarrow> available st dep)"
    and "rs_status result = ready"
  shows "\<exists>s. availability_deps n st i result deps = Some (Some s) \<and>
    (rs_status s = ready \<longleftrightarrow> (\<forall>dep \<in> set deps. available st dep))"
  using assms(1)
proof (induction deps)
  case Nil
  with assms(2) show ?case by simp
next
  case (Cons dep deps)
  obtain s where s: "readRuntimeAvailability n st dep = Some (Some s)"
    "rs_status s = ready \<longleftrightarrow> available st dep" using Cons.prems [of dep] by auto
  show ?case
  proof (cases "rs_status s = ready")
    case True
    with s Cons show ?thesis by auto
  next
    case False
    with s show ?thesis by (auto simp: dependency_snapshot_def)
  qed
qed

lemma availability_total:
  assumes "graph_ordered st"
  shows "map_get (ls_runtimes st) i \<noteq> None \<Longrightarrow> rank (ls_bootOrder st) i < n \<Longrightarrow>
    \<exists>s. readRuntimeAvailability n st i = Some (Some s) \<and> (rs_status s = ready \<longleftrightarrow> available st i)"
proof (induction n arbitrary: i)
  case 0
  then show ?case by simp
next
  case (Suc n)
  then obtain e where e: "map_get (ls_runtimes st) i = Some e" by blast
  let ?deps = "d_dependsOn (re_descriptor e)"
  have ih: "\<exists>s. readRuntimeAvailability n st dep = Some (Some s) \<and> (rs_status s = ready \<longleftrightarrow> available st dep)"
    if "dep \<in> set ?deps" for dep
    using Suc.IH [of dep] graph_ordered_rank [OF assms e that] Suc.prems(2) by auto
  have av: "available st i \<longleftrightarrow> own_ready e \<and> (\<forall>dep \<in> set ?deps. available st dep)"
    using e by (subst available_iff) auto
  show ?case
  proof (cases "own_ready e")
    case True
    then have "rs_status (own_snapshot i e) = ready" by (simp add: own_snapshot_def own_ready_def)
    from availability_deps_spec [OF ih this, where ?deps = ?deps] True e av show ?thesis
      by (auto simp: own_ready_def split: option.splits)
  next
    case False
    with e av show ?thesis
      by (auto simp: own_ready_def own_snapshot_def split: option.splits)
  qed
qed

text \<open>
  C21. On an installed graph the recursion along the dependencies ends within a stack as deep as
  the runtime's place in the boot order, and it reports a runtime as \<^verbatim>\<open>ready\<close> exactly when the
  runtime itself and every runtime it depends on, transitively, is bootstrapped and has no pending
  or failed readiness.
\<close>

theorem readRuntimeAvailability_correct:
  assumes "graph_ordered st" and "i \<in> set (ls_bootOrder st)"
    and "length (ls_bootOrder st) \<le> n"
  shows "\<exists>s. readRuntimeAvailability n st i = Some (Some s)
    \<and> (rs_status s = ready \<longleftrightarrow> available st i)"
proof -
  have "map_get (ls_runtimes st) i \<noteq> None" using assms(1,2) by (simp add: graph_ordered_def)
  moreover have "rank (ls_bootOrder st) i < n" using rank_nth [OF assms(2)] assms(3) by simp
  ultimately show ?thesis by (rule availability_total [OF assms(1)])
qed

definition demo_state :: lifecycle_state where
  "demo_state = (initialLifecycleState 1 shell)
     \<lparr>ls_phase := ACTIVE, ls_bootOrder := [''store'', ''chat''],
      ls_runtimes :=
       [(''store'', (new_entry (demo_runtime ''store'' []))\<lparr>re_status := ready\<rparr>),
        (''chat'', (new_entry (demo_runtime ''chat'' [''store'']))\<lparr>re_status := ready\<rparr>)]\<rparr>"

lemma demo_state_ordered: "graph_ordered demo_state"
  unfolding graph_ordered_def deps_first_def deps_of_entry_adjacency
  by (auto simp: demo_state_def initialLifecycleState_def new_entry_def
      demo_runtime_def entry_deps_def less_Suc_eq)

theorem readRuntimeAvailability_correct_witness:
  "graph_ordered demo_state \<and> available demo_state ''chat''"
proof -
  have i: "''chat'' \<in> set (ls_bootOrder demo_state)" and n: "length (ls_bootOrder demo_state) \<le> 2"
    by (simp_all add: demo_state_def)
  have "map_option (map_option rs_status) (readRuntimeAvailability 2 demo_state ''chat'')
      = Some (Some ready)" by code_simp
  then show ?thesis
    using readRuntimeAvailability_correct [OF demo_state_ordered i n] demo_state_ordered by auto
qed

end
