(* ===== verification/Prelude_Numbers.thy ===== *)
theory Prelude_Numbers
  imports Complex_Main Prelude
begin

text \<open>
  JavaScript numbers as the clients use them: the three special values and the finite numbers, of
  which every integer up to \<open>2 ^ 53 - 1\<close> in absolute value is exact.
\<close>

datatype jsnum = NaN | PosInf | NegInf | Num rat

text \<open>\<^verbatim>\<open>Number.isSafeInteger\<close>, with the integer.\<close>

definition safe_integer :: "jsnum \<Rightarrow> int option" where
  "safe_integer n =
     (case n of
        Num q \<Rightarrow> (case quotient_of q of (a, b) \<Rightarrow>
                   if b = 1 \<and> \<bar>a\<bar> \<le> 9007199254740991 then Some a else None)
      | _ \<Rightarrow> None)"

text \<open>The decimal text of a natural number.\<close>

definition decimal_digit :: "nat \<Rightarrow> char" where
  "decimal_digit d = char_of (48 + d)"

fun decimal :: "nat \<Rightarrow> string" where
  "decimal n = (if n < 10 then [decimal_digit n] else decimal (n div 10) @ [decimal_digit (n mod 10)])"

declare decimal.simps [simp del]

lemma decimal_digit_inject: "d < 10 \<Longrightarrow> e < 10 \<Longrightarrow> decimal_digit d = decimal_digit e \<longleftrightarrow> d = e"
  by (auto simp: decimal_digit_def dest: arg_cong [where f = "of_char :: char \<Rightarrow> nat"])

lemma decimal_not_Nil [simp]: "decimal n \<noteq> []" "[] \<noteq> decimal n"
  by (subst decimal.simps, simp)+

lemma decimal_inject: "decimal m = decimal n \<longleftrightarrow> m = n"
proof (induction m arbitrary: n rule: decimal.induct)
  case (1 m)
  show ?case
  proof
    assume eq: "decimal m = decimal n"
    show "m = n"
    proof (cases "m < 10 \<or> n < 10")
      case True
      with eq show ?thesis
        by (subst (asm) (1 2) decimal.simps) (auto simp: decimal_digit_inject split: if_splits)
    next
      case False
      with eq have "decimal (m div 10) = decimal (n div 10)" "m mod 10 = n mod 10"
        by (subst (asm) (1 2) decimal.simps; simp add: decimal_digit_inject)+
      with 1 False have "m div 10 = n div 10" by blast
      with \<open>m mod 10 = n mod 10\<close> show ?thesis by (metis div_mult_mod_eq)
    qed
  qed simp
qed

end
