(* ===== verification/Mobile_Kernel.thy ===== *)
theory Mobile_Kernel
  imports Mobile_Availability Prelude_Numbers
begin

text \<open>
  The mobile lifecycle kernel, \<^verbatim>\<open>apps/mobile/src/app/lifecycle/MobileLifecycleKernel.ts\<close>.

  The kernel object is the record \<open>mobile\<close>.  An operation is a function from the object to an
  outcome (left: the thrown value) and the object as it is then; a throw keeps what was done before
  it.  The runtimes' hooks and the graph dependencies are code outside the kernel: a \<open>world\<close> answers
  each call given all calls made so far, and says which callbacks (readiness updates, their
  timeouts, launch transitions requested by the application) run while the kernel awaits the answer.
  Every action dispatched to the reducer, every event emitted and every outside call is kept in
  order.
\<close>

section \<open>Thrown values\<close>

datatype js_thrown =
    TText string
  | TErr string "string option"
  | TObj "js_thrown option" "string option" "string option"
  | TNullish

text \<open>
  \<^verbatim>\<open>apps/mobile/src/utils/errorMessage.ts\<close>.  \<open>TText\<close> is a string, or a number or boolean by its
  text; \<open>TErr\<close> an \<^verbatim>\<open>Error\<close> with its message and its string \<^verbatim>\<open>code\<close>; \<open>TObj\<close> any other object:
  the first of \<^verbatim>\<open>message, msg, detail, error, reason, code\<close> that is present, its JSON text
  where it has one, and its string \<^verbatim>\<open>code\<close>.
\<close>

fun readableErrorMessage :: "js_thrown \<Rightarrow> string \<Rightarrow> string" where
  "readableErrorMessage (TText s) fallback = s"
| "readableErrorMessage (TErr msg _) fallback = (if msg = [] then fallback else msg)"
| "readableErrorMessage (TObj (Some nested) _ _) fallback = readableErrorMessage nested fallback"
| "readableErrorMessage (TObj None json _) fallback =
     (case json of Some text \<Rightarrow> text | None \<Rightarrow> fallback)"
| "readableErrorMessage TNullish fallback = fallback"

fun str_includes :: "string \<Rightarrow> string \<Rightarrow> bool" where
  "str_includes sub [] \<longleftrightarrow> sub = []"
| "str_includes sub (c # cs) \<longleftrightarrow> starts_with sub (c # cs) \<or> str_includes sub cs"

fun thrown_code :: "js_thrown \<Rightarrow> string option" where
  "thrown_code (TErr _ code) = code"
| "thrown_code (TObj _ _ code) = code"
| "thrown_code _ = None"

definition runtimeDiagnosticError :: "js_thrown \<Rightarrow> string" where
  "runtimeDiagnosticError err =
     (let message = readableErrorMessage err ''mobile.lifecycle.runtimeFailed''
      in case thrown_code err of
           Some code \<Rightarrow>
             if code \<noteq> [] \<and> \<not> str_includes code message then code @ '': '' @ message else message
         | None \<Rightarrow> message)"

section \<open>The kernel object\<close>

record runtime_context =
  cx_generation :: int
  cx_incarnation :: int
  cx_descriptor :: runtime_descriptor

record update_handle =
  uh_context :: runtime_context
  uh_settled :: bool

datatype outside_call =
    CallBootstrap string | CallSuspend string | CallResume string
  | CallTeardown string teardown_context
  | CreateDescriptors | ReadGeneration | AdvanceGeneration | ResolveLaunchState
  | FenceProjections int transition_reason
  | ScopeTransition transition_reason

record mobile =
  mk_state :: lifecycle_state
  mk_graph :: "nat option"
  mk_incarnation :: int
  mk_revision :: int
  mk_updates :: "(string, int) jsmap"
  mk_timeouts :: "(string, int) jsmap"
  mk_handles :: "(int, update_handle) jsmap"
  mk_contexts :: "runtime_context list"
  mk_actions :: "lifecycle_action list"
  mk_events :: "lifecycle_event list"
  mk_calls :: "outside_call list"

definition new_mobile :: mobile where
  "new_mobile =
     \<lparr>mk_state = initialLifecycleState 0 app_boot, mk_graph = None, mk_incarnation = 0,
      mk_revision = 0, mk_updates = [], mk_timeouts = [], mk_handles = [], mk_contexts = [],
      mk_actions = [], mk_events = [], mk_calls = []\<rparr>"

definition m_dispatch :: "lifecycle_action \<Rightarrow> mobile \<Rightarrow> mobile" where
  "m_dispatch a m =
     m\<lparr>mk_state := lifecycleReducer a (mk_state m), mk_actions := mk_actions m @ [a]\<rparr>"

definition emitEvent :: "lifecycle_event \<Rightarrow> mobile \<Rightarrow> mobile" where
  "emitEvent e m = m\<lparr>mk_events := mk_events m @ [e]\<rparr>"

section \<open>Operations that may throw\<close>

type_synonym 'a op = "mobile \<Rightarrow> (js_thrown + 'a) \<times> mobile"

definition op_return :: "'a \<Rightarrow> 'a op" where
  "op_return x m = (Inr x, m)"

definition op_throw :: "string \<Rightarrow> 'a op" where
  "op_throw msg m = (Inl (TErr msg None), m)"

definition op_bind :: "'a op \<Rightarrow> ('a \<Rightarrow> 'b op) \<Rightarrow> 'b op" where
  "op_bind f g m = (case f m of (Inl err, m') \<Rightarrow> (Inl err, m') | (Inr x, m') \<Rightarrow> g x m')"

definition op_do :: "(mobile \<Rightarrow> mobile) \<Rightarrow> unit op" where
  "op_do f m = (Inr (), f m)"

definition op_read :: "(mobile \<Rightarrow> 'a) \<Rightarrow> 'a op" where
  "op_read f m = (Inr (f m), m)"

definition op_then :: "unit op \<Rightarrow> 'b op \<Rightarrow> 'b op" where
  "op_then f g = op_bind f (\<lambda>_. g)"

section \<open>Launch state\<close>

fun launch_name :: "launch_state \<Rightarrow> string" where
  "launch_name app_boot = ''app-boot''"
| "launch_name station_selection = ''station-selection''"
| "launch_name station_handshake = ''station-handshake''"
| "launch_name access_gate_chain = ''access-gate-chain''"
| "launch_name runtime_critical = ''runtime-critical''"
| "launch_name shell = ''shell''"
| "launch_name station_change = ''station-change''"
| "launch_name logout_state = ''logout''"
| "launch_name background = ''background''"
| "launch_name resume_state = ''resume''"

fun phase_name :: "lifecycle_phase \<Rightarrow> string" where
  "phase_name COLD = ''COLD''"
| "phase_name BOOTSTRAPPING = ''BOOTSTRAPPING''"
| "phase_name ACTIVE = ''ACTIVE''"
| "phase_name SUSPENDING = ''SUSPENDING''"
| "phase_name SUSPENDED = ''SUSPENDED''"
| "phase_name RESUMING = ''RESUMING''"
| "phase_name TEARDOWN = ''TEARDOWN''"
| "phase_name TEARDOWN_FAILED = ''TEARDOWN_FAILED''"

definition transitionLaunchState :: "launch_state \<Rightarrow> unit op" where
  "transitionLaunchState target m =
     (let previous = ls_launchState (mk_state m) in
      if previous = target then op_return () m
      else if \<not> isValidLaunchStateTransition previous target then
        op_throw (''mobile.lifecycle.invalidLaunchTransition:'' @ launch_name previous @ ''->''
                  @ launch_name target) m
      else op_do (\<lambda>m. emitEvent (LaunchStateChanged target previous)
                       (m_dispatch (SET_LAUNCH_STATE target) m)) m)"

section \<open>Readiness updates\<close>

definition invalidate_runtime :: "string \<Rightarrow> mobile \<Rightarrow> mobile" where
  "invalidate_runtime i m =
     m\<lparr>mk_timeouts := map_del i (mk_timeouts m), mk_updates := map_del i (mk_updates m)\<rparr>"

definition invalidate_all :: "mobile \<Rightarrow> mobile" where
  "invalidate_all m = m\<lparr>mk_timeouts := [], mk_updates := []\<rparr>"

definition isContextCurrent :: "runtime_context \<Rightarrow> mobile \<Rightarrow> bool" where
  "isContextCurrent cx m \<longleftrightarrow>
     ls_generation (mk_state m) = cx_generation cx
     \<and> mk_incarnation m = cx_incarnation cx
     \<and> (case map_get (ls_runtimes (mk_state m)) (d_id (cx_descriptor cx)) of
          None \<Rightarrow> False
        | Some e \<Rightarrow> re_descriptor e = cx_descriptor cx
            \<and> re_status e \<in> set [bootstrapping, ready, resuming])
     \<and> ls_phase (mk_state m) \<in> set [BOOTSTRAPPING, ACTIVE, RESUMING]"

definition isCurrent :: "int \<Rightarrow> mobile \<Rightarrow> bool" where
  "isCurrent revision m \<longleftrightarrow>
     (case map_get (mk_handles m) revision of
        None \<Rightarrow> False
      | Some h \<Rightarrow> \<not> uh_settled h \<and> isContextCurrent (uh_context h) m
          \<and> map_get (mk_updates m) (d_id (cx_descriptor (uh_context h))) = Some revision)"

definition pending_readiness :: runtime_readiness where
  "pending_readiness = \<lparr>rr_status = RPending, rr_errorKey = None, rr_diagnosticError = None\<rparr>"

definition beginReadinessUpdate :: "runtime_context \<Rightarrow> mobile \<Rightarrow> mobile" where
  "beginReadinessUpdate cx m =
     (let i = d_id (cx_descriptor cx);
          revision = mk_revision m + 1;
          m1 = m\<lparr>mk_revision := revision,
                 mk_handles := map_set revision \<lparr>uh_context = cx, uh_settled = False\<rparr> (mk_handles m)\<rparr>;
          m2 = (if isContextCurrent cx m1 then
                  m_dispatch (RUNTIME_READINESS i pending_readiness)
                    ((invalidate_runtime i m1)
                       \<lparr>mk_updates := map_set i revision (mk_updates (invalidate_runtime i m1))\<rparr>)
                else m1)
      in if isCurrent revision m2
         then m2\<lparr>mk_timeouts := map_set i revision (mk_timeouts m2)\<rparr> else m2)"

definition settle :: "int \<Rightarrow> js_thrown option \<Rightarrow> mobile \<Rightarrow> mobile" where
  "settle revision err m =
     (case map_get (mk_handles m) revision of
        None \<Rightarrow> m
      | Some h \<Rightarrow>
          if \<not> isCurrent revision m then m
          else
            let i = d_id (cx_descriptor (uh_context h));
                diagnostic = map_option runtimeDiagnosticError err
            in m_dispatch
                 (RUNTIME_READINESS i
                    \<lparr>rr_status = (case err of None \<Rightarrow> RReady | Some _ \<Rightarrow> RFailed),
                     rr_errorKey = map_option publicRuntimeErrorKey diagnostic,
                     rr_diagnosticError = diagnostic\<rparr>)
                 (m\<lparr>mk_handles := map_set revision (h\<lparr>uh_settled := True\<rparr>) (mk_handles m),
                    mk_timeouts := map_del i (mk_timeouts m)\<rparr>))"

datatype wait_outcome = WaitObsolete | WaitDependencyFailed string | WaitSatisfied | WaitPending

text \<open>The stack depth that suffices on an installed graph; the model of a deeper one is \<open>None\<close>.\<close>

definition availability :: "mobile \<Rightarrow> string \<Rightarrow> runtime_snapshot option option" where
  "availability m i =
     readRuntimeAvailability (Suc (length (ls_bootOrder (mk_state m)))) (mk_state m) i"

definition waitForDependencies :: "int \<Rightarrow> mobile \<Rightarrow> wait_outcome" where
  "waitForDependencies revision m =
     (if \<not> isCurrent revision m then WaitObsolete
      else case map_get (mk_handles m) revision of
        None \<Rightarrow> WaitObsolete
      | Some h \<Rightarrow>
          let deps = d_dependsOn (cx_descriptor (uh_context h)) in
          (case find (\<lambda>i. case availability m i of
                         Some (Some s) \<Rightarrow> rs_status s = failed | _ \<Rightarrow> True) deps of
             Some i \<Rightarrow> WaitDependencyFailed (''mobile.lifecycle.dependencyFailed:'' @ i)
           | None \<Rightarrow>
               if list_all (\<lambda>i. map_option (map_option rs_status) (availability m i)
                                  = Some (Some ready)) deps
               then WaitSatisfied else WaitPending))"

section \<open>The world outside\<close>

datatype env_event =
    BeginUpdate nat
  | SettleReady int
  | SettleFail int js_thrown
  | UpdateTimeout string
  | RequestLaunch launch_state

fun env_step :: "env_event \<Rightarrow> mobile \<Rightarrow> mobile" where
  "env_step (BeginUpdate n) m =
     (if n < length (mk_contexts m) then beginReadinessUpdate (mk_contexts m ! n) m else m)"
| "env_step (SettleReady revision) m = settle revision None m"
| "env_step (SettleFail revision err) m = settle revision (Some err) m"
| "env_step (UpdateTimeout i) m =
     (case map_get (mk_timeouts m) i of
        None \<Rightarrow> m
      | Some revision \<Rightarrow> settle revision (Some (TErr ''mobile.lifecycle.runtimeTimedOut'' None)) m)"
| "env_step (RequestLaunch target) m = snd (transitionLaunchState target m)"

datatype 'a outcome = Resolved 'a | Rejected js_thrown | TimedOut

record world =
  w_env :: "outside_call list \<Rightarrow> env_event list"
  w_hook :: "outside_call list \<Rightarrow> unit outcome"
  w_teardown :: "outside_call list \<Rightarrow> operation_result outcome"
  w_generation :: "outside_call list \<Rightarrow> jsnum outcome"
  w_launch :: "outside_call list \<Rightarrow> launch_state outcome"
  w_descriptors :: "outside_call list \<Rightarrow> js_thrown + runtime_descriptor list"
  w_fence :: "outside_call list \<Rightarrow> js_thrown option"
  w_transition :: "outside_call list \<Rightarrow> js_thrown option"

definition call_now :: "outside_call \<Rightarrow> mobile \<Rightarrow> mobile" where
  "call_now c m = m\<lparr>mk_calls := mk_calls m @ [c]\<rparr>"

definition await_call :: "world \<Rightarrow> outside_call \<Rightarrow> mobile \<Rightarrow> mobile" where
  "await_call w c m =
     (let m1 = call_now c m in fold env_step (w_env w (mk_calls m1)) m1)"

definition withTimeout :: "string \<Rightarrow> 'a outcome \<Rightarrow> js_thrown + 'a" where
  "withTimeout key out =
     (case out of Resolved x \<Rightarrow> Inr x | Rejected err \<Rightarrow> Inl err | TimedOut \<Rightarrow> Inl (TErr key None))"

section \<open>Running the hooks\<close>

fun operation_name :: "outside_call \<Rightarrow> string" where
  "operation_name (CallBootstrap _) = ''bootstrap''"
| "operation_name (CallSuspend _) = ''suspend''"
| "operation_name (CallResume _) = ''resume''"
| "operation_name _ = ''teardown''"

definition timeout_key :: "string \<Rightarrow> outside_call \<Rightarrow> string" where
  "timeout_key i c = ''mobile.lifecycle.runtimeTimedOut:'' @ i @ '':'' @ operation_name c"

definition failure_result :: "string \<Rightarrow> js_thrown \<Rightarrow> operation_result" where
  "failure_result i err =
     \<lparr>or_runtimeId = i, or_success = False, or_errorMessage = Some (runtimeDiagnosticError err)\<rparr>"

definition runVoidRuntimeOperation ::
  "world \<Rightarrow> string \<Rightarrow> outside_call \<Rightarrow> mobile \<Rightarrow> operation_result \<times> mobile" where
  "runVoidRuntimeOperation w i c m =
     (let m' = await_call w c m in
      ((case withTimeout (timeout_key i c) (w_hook w (mk_calls m')) of
          Inr _ \<Rightarrow> \<lparr>or_runtimeId = i, or_success = True, or_errorMessage = None\<rparr>
        | Inl err \<Rightarrow> failure_result i err), m'))"

definition runTeardownOperation ::
  "world \<Rightarrow> string \<Rightarrow> outside_call \<Rightarrow> mobile \<Rightarrow> operation_result \<times> mobile" where
  "runTeardownOperation w i c m =
     (let m' = await_call w c m in
      ((case withTimeout (timeout_key i c) (w_teardown w (mk_calls m')) of
          Inr res \<Rightarrow> res\<lparr>or_runtimeId := i\<rparr>
        | Inl err \<Rightarrow> failure_result i err), m'))"

definition runtimeContext :: "runtime_descriptor \<Rightarrow> mobile \<Rightarrow> mobile" where
  "runtimeContext d m =
     m\<lparr>mk_contexts := mk_contexts m @
         [\<lparr>cx_generation = ls_generation (mk_state m), cx_incarnation = mk_incarnation m,
           cx_descriptor = d\<rparr>]\<rparr>"

definition error_or :: "operation_result \<Rightarrow> string \<Rightarrow> string" where
  "error_or res fallback = (case or_errorMessage res of None \<Rightarrow> fallback | Some msg \<Rightarrow> msg)"

section \<open>Bootstrap, suspend, resume, teardown\<close>

definition assertPhaseTransition :: "lifecycle_phase \<Rightarrow> unit op" where
  "assertPhaseTransition target m =
     (if \<not> isValidPhaseTransition (ls_phase (mk_state m)) target
      then op_throw (''mobile.lifecycle.invalidTransition:'' @ phase_name (ls_phase (mk_state m))
                     @ ''->'' @ phase_name target) m
      else op_return () m)"

definition dependency_failure :: "string \<Rightarrow> string \<Rightarrow> operation_result" where
  "dependency_failure i dep =
     \<lparr>or_runtimeId = i, or_success = False,
      or_errorMessage = Some (''mobile.lifecycle.dependencyFailed:'' @ dep)\<rparr>"

text \<open>
  One round of the bootstrap loop.  \<^verbatim>\<open>find\<close> returns the id of a failed dependency, and an empty id
  is falsy.
\<close>

type_synonym loop_state = "operation_result list \<times> string list \<times> mobile"

definition failed_dependency :: "runtime_entry \<Rightarrow> string list \<Rightarrow> string option" where
  "failed_dependency e failedIds =
     (case find (\<lambda>dep. dep \<in> set failedIds) (d_dependsOn (re_descriptor e)) of
        Some dep \<Rightarrow> if dep = [] then None else Some dep
      | None \<Rightarrow> None)"

definition bootstrap_one :: "world \<Rightarrow> string \<Rightarrow> loop_state \<Rightarrow> loop_state" where
  "bootstrap_one w i ls =
     (case ls of (results, failedIds, m) \<Rightarrow>
      (case map_get (ls_runtimes (mk_state m)) i of
         None \<Rightarrow> (results, failedIds, m)
       | Some e \<Rightarrow>
           (case failed_dependency e failedIds of
              Some dep \<Rightarrow>
                (results @ [dependency_failure i dep], set_add i failedIds,
                 m_dispatch (RUNTIME_FAILED i (''mobile.lifecycle.dependencyFailed:'' @ dep)) m)
            | None \<Rightarrow>
                let (res, m') = runVoidRuntimeOperation w i (CallBootstrap i)
                                  (runtimeContext (re_descriptor e)
                                     (m_dispatch (RUNTIME_BOOTSTRAPPING i) m))
                in if or_success res then
                     (results @ [res], failedIds,
                      emitEvent (RuntimeStatusChanged i ready) (m_dispatch (RUNTIME_READY i) m'))
                   else
                     (results @ [res], set_add i failedIds,
                      emitEvent (RuntimeStatusChanged i failed)
                        (m_dispatch (RUNTIME_FAILED i
                                       (error_or res ''mobile.lifecycle.bootstrapFailed''))
                           (invalidate_runtime i m'))))))"

definition bootstrapRuntimes :: "world \<Rightarrow> operation_result list op" where
  "bootstrapRuntimes w =
     op_then (assertPhaseTransition BOOTSTRAPPING)
       (\<lambda>m. let m1 = m_dispatch BEGIN_BOOTSTRAP m;
                (results, _, m2) = fold (bootstrap_one w) (ls_bootOrder (mk_state m1)) ([], [], m1)
            in (Inr results,
                emitEvent (BootstrapComplete results)
                  (emitEvent (PhaseChanged ACTIVE BOOTSTRAPPING)
                     (m_dispatch (BOOTSTRAP_COMPLETE results) m2))))"

definition aggregateFailureKey :: "string \<Rightarrow> operation_result list \<Rightarrow> string option" where
  "aggregateFailureKey operation failures =
     (if failures = [] then None
      else Some (''mobile.lifecycle.'' @ operation @ ''Incomplete:''
                 @ join_with '','' (map or_runtimeId failures)))"

definition suspend_one ::
  "world \<Rightarrow> string \<Rightarrow> operation_result list \<times> mobile \<Rightarrow> operation_result list \<times> mobile" where
  "suspend_one w i ls =
     (case ls of (failures, m) \<Rightarrow>
      (case map_get (ls_runtimes (mk_state m)) i of
         None \<Rightarrow> (failures, m)
       | Some e \<Rightarrow>
           if re_status e \<noteq> ready then (failures, m)
           else
             let (res, m') = runVoidRuntimeOperation w i (CallSuspend i) m
             in if or_success res then (failures, m_dispatch (RUNTIME_SUSPENDED i) m')
                else (failures @ [res],
                      m_dispatch (RUNTIME_SUSPEND_FAILED i
                                    (error_or res ''mobile.lifecycle.suspendFailed'')) m')))"

definition throw_if :: "string option \<Rightarrow> unit op" where
  "throw_if err m =
     (case err of
        None \<Rightarrow> op_return () m
      | Some key \<Rightarrow> op_throw key (emitEvent (ErrorEvent key) m))"

definition suspendRuntimes :: "world \<Rightarrow> unit op" where
  "suspendRuntimes w =
     op_then (assertPhaseTransition SUSPENDING)
       (\<lambda>m. let m1 = m_dispatch BEGIN_SUSPEND (invalidate_all m);
                (failures, m2) =
                  fold (suspend_one w) (reverseTeardownOrder (ls_bootOrder (mk_state m1))) ([], m1);
                err = aggregateFailureKey ''suspend'' failures
            in throw_if err (emitEvent (PhaseChanged SUSPENDED SUSPENDING)
                               (m_dispatch (SUSPEND_COMPLETE err) m2)))"

definition resume_one :: "world \<Rightarrow> string \<Rightarrow> loop_state \<Rightarrow> loop_state" where
  "resume_one w i ls =
     (case ls of (failures, failedIds, m) \<Rightarrow>
      (case map_get (ls_runtimes (mk_state m)) i of
         None \<Rightarrow> (failures, failedIds, m)
       | Some e \<Rightarrow>
           if re_status e \<noteq> suspended then (failures, failedIds, m)
           else
           (case failed_dependency e failedIds of
              Some dep \<Rightarrow>
                (failures @ [dependency_failure i dep], set_add i failedIds,
                 m_dispatch (RUNTIME_RESUME_FAILED i (''mobile.lifecycle.dependencyFailed:'' @ dep)) m)
            | None \<Rightarrow>
                let (res, m') = runVoidRuntimeOperation w i (CallResume i)
                                  (runtimeContext (re_descriptor e)
                                     (m_dispatch (RUNTIME_RESUMING i) m))
                in if or_success res then
                     (failures, failedIds, m_dispatch (RUNTIME_RESUMED i) m')
                   else
                     (failures @ [res], set_add i failedIds,
                      m_dispatch (RUNTIME_RESUME_FAILED i
                                    (error_or res ''mobile.lifecycle.resumeFailed''))
                        (invalidate_runtime i m')))))"

definition resumeRuntimes :: "world \<Rightarrow> unit op" where
  "resumeRuntimes w =
     op_then (assertPhaseTransition RESUMING)
       (\<lambda>m. let m1 = m_dispatch BEGIN_RESUME m;
                (failures, _, m2) = fold (resume_one w) (ls_bootOrder (mk_state m1)) ([], [], m1);
                err = aggregateFailureKey ''resume'' failures
            in throw_if err
                 (emitEvent (PhaseChanged (if truthy err then SUSPENDED else ACTIVE) RESUMING)
                    (m_dispatch (RESUME_COMPLETE err) m2)))"

definition teardown_one ::
  "world \<Rightarrow> teardown_context \<Rightarrow> string \<Rightarrow> operation_result list \<times> mobile
     \<Rightarrow> operation_result list \<times> mobile" where
  "teardown_one w tc i ls =
     (case ls of (results, m) \<Rightarrow>
      (case map_get (ls_runtimes (mk_state m)) i of
         None \<Rightarrow> (results, m)
       | Some e \<Rightarrow>
           if re_status e = pending \<or> re_status e = torn_down then (results, m)
           else
             let (res, m') = runTeardownOperation w i (CallTeardown i tc)
                               (m_dispatch (RUNTIME_TEARING_DOWN i) m)
             in (results @ [res],
                 m_dispatch (if or_success res then RUNTIME_TORN_DOWN i
                             else RUNTIME_TEARDOWN_FAILED i
                                    (error_or res ''mobile.lifecycle.teardownFailed'')) m')))"

definition teardownRuntimes :: "world \<Rightarrow> teardown_context \<Rightarrow> aggregate_teardown op" where
  "teardownRuntimes w tc =
     op_bind (op_read (\<lambda>m. ls_phase (mk_state m))) (\<lambda>previous.
     op_then (assertPhaseTransition TEARDOWN)
       (\<lambda>m. let m1 = m_dispatch BEGIN_TEARDOWN (invalidate_all m);
                (results, m2) = fold (teardown_one w tc)
                                  (reverseTeardownOrder (ls_bootOrder (mk_state m1))) ([], m1);
                aggregate = \<lparr>at_results = results, at_allSuccessful = list_all or_success results\<rparr>;
                m3 = m_dispatch (TEARDOWN_COMPLETE aggregate) m2
            in (Inr aggregate,
                emitEvent (TeardownComplete aggregate)
                  (emitEvent (PhaseChanged (ls_phase (mk_state m3)) previous) m3))))"

definition emptyTeardownResult :: aggregate_teardown where
  "emptyTeardownResult = \<lparr>at_results = [], at_allSuccessful = True\<rparr>"

section \<open>Generations\<close>

definition jsnum_gt :: "jsnum \<Rightarrow> int \<Rightarrow> bool" where
  "jsnum_gt n g \<longleftrightarrow> (case n of NaN \<Rightarrow> False | PosInf \<Rightarrow> True | NegInf \<Rightarrow> False | Num q \<Rightarrow> of_int g < q)"

definition applyGeneration :: "jsnum \<Rightarrow> transition_reason \<Rightarrow> bool \<Rightarrow> int op" where
  "applyGeneration n reason requireAdvance m =
     (case safe_integer n of
        None \<Rightarrow> op_throw ''mobile.lifecycle.invalidGeneration'' m
      | Some g \<Rightarrow>
          if g < 0 \<or> g < ls_generation (mk_state m)
             \<or> (requireAdvance \<and> g = ls_generation (mk_state m))
          then op_throw ''mobile.lifecycle.invalidGeneration'' m
          else (Inr g, emitEvent (GenerationAdvanced g reason)
                         (m_dispatch (SET_GENERATION g) (invalidate_all m))))"

definition await_generation :: "world \<Rightarrow> outside_call \<Rightarrow> string \<Rightarrow> jsnum op" where
  "await_generation w c key m =
     (let m' = await_call w c m in (withTimeout key (w_generation w (mk_calls m')), m'))"

definition readGeneration :: "world \<Rightarrow> jsnum op" where
  "readGeneration w = await_generation w ReadGeneration ''mobile.lifecycle.readGenerationTimedOut''"

definition advanceGeneration :: "world \<Rightarrow> jsnum op" where
  "advanceGeneration w =
     await_generation w AdvanceGeneration ''mobile.lifecycle.advanceGenerationTimedOut''"

definition fenceProjections :: "world \<Rightarrow> int \<Rightarrow> transition_reason \<Rightarrow> unit op" where
  "fenceProjections w g reason m =
     (let m' = call_now (FenceProjections g reason) m in
      (case w_fence w (mk_calls m') of None \<Rightarrow> (Inr (), m') | Some err \<Rightarrow> (Inl err, m')))"

definition requireGraphDependencies :: "unit op" where
  "requireGraphDependencies m =
     (case mk_graph m of
        None \<Rightarrow> op_throw ''mobile.lifecycle.graphNotConfigured'' m | Some _ \<Rightarrow> op_return () m)"

definition fenceAndTeardown :: "world \<Rightarrow> teardown_context \<Rightarrow> aggregate_teardown op" where
  "fenceAndTeardown w tc =
     op_then requireGraphDependencies
    (op_bind (advanceGeneration w) (\<lambda>n.
     op_bind (applyGeneration n (tc_reason tc) True) (\<lambda>g.
     op_then (fenceProjections w g (tc_reason tc))
       (\<lambda>m. if ls_phase (mk_state m) = COLD then op_return emptyTeardownResult m
            else teardownRuntimes w tc m))))"

section \<open>Installing and starting the graph\<close>

definition reset :: "unit op" where
  "reset m =
     (if ls_phase (mk_state m) \<noteq> COLD
      then op_throw (''mobile.lifecycle.resetInvalidPhase:'' @ phase_name (ls_phase (mk_state m))) m
      else op_do (\<lambda>m. (invalidate_all m)\<lparr>mk_state :=
             initialLifecycleState (ls_generation (mk_state m)) (ls_launchState (mk_state m))\<rparr>) m)"

definition registerRuntimes :: "runtime_descriptor list \<Rightarrow> unit op" where
  "registerRuntimes ds m =
     (let m1 = m\<lparr>mk_incarnation := mk_incarnation m + 1\<rparr>;
          ids = map d_id ds;
          res = topologicalSortRuntimes ds
      in if length (set_of_list ids) \<noteq> length ids
         then op_throw ''mobile.lifecycle.duplicateRuntime'' m1
         else if tr_missing res \<noteq> []
         then op_throw (''mobile.lifecycle.missingDependency:''
                @ join_with '','' (map (\<lambda>x. md_runtimeId x @ ''->'' @ md_dependencyId x) (tr_missing res))) m1
         else if tr_hasCycle res
         then op_throw (''mobile.lifecycle.dependencyCycle:''
                @ join_with ''->'' (tr_cycleParticipants res)) m1
         else op_do (m_dispatch (REGISTER_RUNTIMES ds (tr_order res))) m1)"

definition createDescriptors :: "world \<Rightarrow> runtime_descriptor list op" where
  "createDescriptors w m =
     (let m' = call_now CreateDescriptors m in (w_descriptors w (mk_calls m'), m'))"

definition startRuntimeGraphNow :: "world \<Rightarrow> unit op" where
  "startRuntimeGraphNow w =
     op_then (\<lambda>m. if ls_phase (mk_state m) \<noteq> COLD
                  then op_throw (''mobile.lifecycle.startInvalidPhase:''
                                 @ phase_name (ls_phase (mk_state m))) m
                  else if ls_runtimes (mk_state m) \<noteq> [] then reset m else op_return () m)
    (op_then requireGraphDependencies
    (op_bind (createDescriptors w) (\<lambda>ds.
     op_then (registerRuntimes ds)
    (op_bind (bootstrapRuntimes w) (\<lambda>_. op_return ())))))"

section \<open>Launch state after a runtime transition\<close>

fun reason_name :: "transition_reason \<Rightarrow> string" where
  "reason_name app_start = ''app-start''"
| "reason_name app_unmount = ''app-unmount''"
| "reason_name access_granted = ''access-granted''"
| "reason_name app_background = ''app-background''"
| "reason_name app_resume = ''app-resume''"
| "reason_name reliability_recovery = ''reliability-recovery''"
| "reason_name native_resume = ''native-resume''"
| "reason_name visibility_change = ''visibility-change''"
| "reason_name window_focus = ''window-focus''"
| "reason_name station_replace = ''station-replace''"
| "reason_name actor_replace = ''actor-replace''"
| "reason_name logout = ''logout''"
| "reason_name revocation = ''revocation''"
| "reason_name acceptance_restart = ''acceptance-restart''"
| "reason_name acceptance_suspend = ''acceptance-suspend''"
| "reason_name acceptance_resume = ''acceptance-resume''"

definition launch_when :: "(launch_state \<Rightarrow> bool) \<Rightarrow> launch_state \<Rightarrow> unit op" where
  "launch_when cond target m =
     (if cond (ls_launchState (mk_state m)) then transitionLaunchState target m else op_return () m)"

definition transitionToResolvedLaunchState :: "launch_state \<Rightarrow> transition_reason \<Rightarrow> unit op" where
  "transitionToResolvedLaunchState target reason m =
     (if ls_launchState (mk_state m) = target then op_return () m
      else
        op_then (launch_when (\<lambda>l. l = shell)
                   (if target = station_selection then station_change else logout_state))
       (op_then (launch_when (\<lambda>l. l = station_change \<and> target \<noteq> station_selection) station_selection)
       (op_then (launch_when (\<lambda>l. l = app_boot \<or> (l = logout_state \<and> target = shell)) station_selection)
       (op_then (launch_when (\<lambda>l. l = station_selection \<and> target = access_gate_chain) station_handshake)
       (op_then (launch_when (\<lambda>l. target = shell \<and> l \<noteq> runtime_critical
                                 \<and> (l = station_selection \<or> l = access_gate_chain
                                    \<or> l = station_handshake)) runtime_critical)
         (\<lambda>m. if \<not> isValidLaunchStateTransition (ls_launchState (mk_state m)) target
              then op_throw (''mobile.lifecycle.unresolvedLaunchTransition:'' @ reason_name reason
                     @ '':'' @ launch_name (ls_launchState (mk_state m)) @ ''->'' @ launch_name target) m
              else transitionLaunchState target m))))) m)"

definition reconcileLaunchStateAfterRuntime :: "world \<Rightarrow> transition_reason \<Rightarrow> unit op" where
  "reconcileLaunchStateAfterRuntime w reason =
     op_then requireGraphDependencies
    (op_bind (\<lambda>m. let m' = await_call w ResolveLaunchState m in
                  (withTimeout ''mobile.lifecycle.resolveLaunchStateTimedOut''
                     (w_launch w (mk_calls m')), m'))
       (\<lambda>target. transitionToResolvedLaunchState target reason))"

definition enterScopeLaunchTransition :: "transition_reason \<Rightarrow> unit op" where
  "enterScopeLaunchTransition reason =
     launch_when (\<lambda>l. l = shell) (if reason = station_replace then station_change else logout_state)"

section \<open>Snapshots\<close>

definition publicLifecycleErrorKey :: "string option \<Rightarrow> string option" where
  "publicLifecycleErrorKey err = (if truthy err then map_option publicRuntimeErrorKey err else None)"

fun snapshot_runtimes :: "mobile \<Rightarrow> string list \<Rightarrow> js_thrown + runtime_snapshot list" where
  "snapshot_runtimes m [] = Inr []"
| "snapshot_runtimes m (i # is) =
     (case availability m i of
        None \<Rightarrow> Inl (TErr ''Maximum call stack size exceeded'' None)
      | Some None \<Rightarrow> Inl (TErr (''mobile.lifecycle.runtimeMissing:'' @ i) None)
      | Some (Some r) \<Rightarrow>
          (case snapshot_runtimes m is of Inl err \<Rightarrow> Inl err | Inr rs \<Rightarrow> Inr (r # rs)))"

definition getSnapshot :: "kernel_snapshot op" where
  "getSnapshot m =
     (let st = mk_state m in
      (case snapshot_runtimes m (ls_bootOrder st) of
         Inl err \<Rightarrow> (Inl err, m)
       | Inr rs \<Rightarrow>
           (Inr \<lparr>ks_phase = ls_phase st, ks_launchState = ls_launchState st,
                 ks_generation = ls_generation st, ks_bootOrder = ls_bootOrder st,
                 ks_runtimes = rs, ks_errorKey = publicLifecycleErrorKey (ls_error st)\<rparr>, m)))"

definition getDiagnosticRuntimeErrors :: "mobile \<Rightarrow> (string \<times> string) list" where
  "getDiagnosticRuntimeErrors m =
     concat (map (\<lambda>i.
       (case map_get (ls_runtimes (mk_state m)) i of
          None \<Rightarrow> []
        | Some e \<Rightarrow>
            let err = (case re_lastError e of
                         Some x \<Rightarrow> Some x
                       | None \<Rightarrow> Option.bind (re_readiness e) rr_diagnosticError)
            in if truthy err then [(i, case err of None \<Rightarrow> [] | Some x \<Rightarrow> x)] else []))
       (ls_bootOrder (mk_state m)))"

section \<open>Public operations\<close>

definition startRuntimeGraph :: "world \<Rightarrow> transition_reason \<Rightarrow> kernel_snapshot op" where
  "startRuntimeGraph w reason m =
     (let phase = ls_phase (mk_state m) in
      if phase = ACTIVE \<or> phase = SUSPENDED then getSnapshot m
      else if phase \<noteq> COLD
      then op_throw (''mobile.lifecycle.startInvalidPhase:'' @ phase_name phase) m
      else
        op_then requireGraphDependencies
       (op_bind (readGeneration w) (\<lambda>observed.
        op_bind (if observed = Num 0 then advanceGeneration w else op_return observed) (\<lambda>n.
        op_bind (applyGeneration n reason False) (\<lambda>_.
        op_then (startRuntimeGraphNow w)
       (op_then (reconcileLaunchStateAfterRuntime w reason) getSnapshot))))) m)"

definition stopRuntimeGraph :: "world \<Rightarrow> transition_reason \<Rightarrow> aggregate_teardown op" where
  "stopRuntimeGraph w reason m =
     (if ls_phase (mk_state m) = COLD then op_return emptyTeardownResult m
      else teardownRuntimes w \<lparr>tc_reason = reason, tc_draftDisposition = None\<rparr> m)"

definition require_complete :: "aggregate_teardown \<Rightarrow> unit op" where
  "require_complete res =
     (if \<not> at_allSuccessful res then op_throw ''mobile.lifecycle.teardownIncomplete''
      else op_return ())"

definition restartRuntimeGraph :: "world \<Rightarrow> transition_reason \<Rightarrow> kernel_snapshot op" where
  "restartRuntimeGraph w reason =
     op_bind (fenceAndTeardown w \<lparr>tc_reason = reason, tc_draftDisposition = None\<rparr>) (\<lambda>res.
     op_then (require_complete res)
    (op_then reset
    (op_then (startRuntimeGraphNow w)
    (op_then (reconcileLaunchStateAfterRuntime w reason) getSnapshot))))"

definition run_transition :: "world \<Rightarrow> transition_reason \<Rightarrow> unit op" where
  "run_transition w reason m =
     (let m' = await_call w (ScopeTransition reason) m in
      (case w_transition w (mk_calls m') of None \<Rightarrow> (Inr (), m') | Some err \<Rightarrow> (Inl err, m')))"

definition transitionScope ::
  "world \<Rightarrow> transition_reason \<Rightarrow> bool \<Rightarrow> draft_disposition option \<Rightarrow> unit op" where
  "transitionScope w reason restart draft =
     op_then (enterScopeLaunchTransition reason)
    (op_bind (fenceAndTeardown w \<lparr>tc_reason = reason, tc_draftDisposition = draft\<rparr>) (\<lambda>res.
     op_then (require_complete res)
    (op_then (run_transition w reason)
    (op_then (if restart then op_then reset (startRuntimeGraphNow w) else op_return ())
       (reconcileLaunchStateAfterRuntime w reason)))))"

definition suspend :: "world \<Rightarrow> kernel_snapshot op" where
  "suspend w m =
     (if ls_phase (mk_state m) = SUSPENDED then getSnapshot m
      else op_then (launch_when (\<lambda>l. l = shell) background)
             (op_then (suspendRuntimes w) getSnapshot) m)"

definition some_failed :: "mobile \<Rightarrow> bool" where
  "some_failed m \<longleftrightarrow>
     list_ex (\<lambda>e. re_status e = failed \<or> map_option rr_status (re_readiness e) = Some RFailed)
       (map_values (ls_runtimes (mk_state m)))"

definition resume :: "world \<Rightarrow> transition_reason \<Rightarrow> kernel_snapshot op" where
  "resume w reason m =
     (if ls_phase (mk_state m) = ACTIVE then getSnapshot m
      else
        op_then (launch_when (\<lambda>l. l = background) resume_state)
       (op_then requireGraphDependencies
       (op_bind (readGeneration w) (\<lambda>observed.
        op_bind (\<lambda>m. if jsnum_gt observed (ls_generation (mk_state m)) then op_return observed m
                     else advanceGeneration w m) (\<lambda>n.
        op_bind (applyGeneration n reason True) (\<lambda>g.
        op_then (fenceProjections w g reason)
       (op_then (\<lambda>m. if some_failed m then
                      op_bind (teardownRuntimes w \<lparr>tc_reason = reason, tc_draftDisposition = None\<rparr>)
                        (\<lambda>res. op_then (require_complete res)
                               (op_then reset (startRuntimeGraphNow w))) m
                    else resumeRuntimes w m)
       (op_then (reconcileLaunchStateAfterRuntime w reason) getSnapshot))))))) m)"

definition reconcileLaunchState :: "world \<Rightarrow> transition_reason \<Rightarrow> kernel_snapshot op" where
  "reconcileLaunchState w reason = op_then (reconcileLaunchStateAfterRuntime w reason) getSnapshot"

definition configureRuntimeGraph :: "nat \<Rightarrow> unit op" where
  "configureRuntimeGraph deps m =
     (if mk_graph m \<noteq> None \<and> ls_phase (mk_state m) \<noteq> COLD \<and> mk_graph m \<noteq> Some deps
      then op_throw ''mobile.lifecycle.graphAlreadyConfigured'' m
      else op_do (\<lambda>m. m\<lparr>mk_graph := Some deps\<rparr>) m)"

section \<open>Histories of the kernel\<close>

text \<open>
  \<^verbatim>\<open>enqueueOperation\<close> chains each operation behind the previous one, whether that one fulfilled or
  rejected, so queued operations run one after the other in the order of their calls.  Between them,
  and while one awaits, callbacks run.
\<close>

datatype mobile_op =
    Start transition_reason | Stop transition_reason | Restart transition_reason
  | Scope transition_reason bool "draft_disposition option"
  | SuspendOp | ResumeOp transition_reason | Reconcile transition_reason

definition forget :: "'a op \<Rightarrow> unit op" where
  "forget f = op_bind f (\<lambda>_. op_return ())"

fun run_op :: "world \<Rightarrow> mobile_op \<Rightarrow> unit op" where
  "run_op w (Start reason) = forget (startRuntimeGraph w reason)"
| "run_op w (Stop reason) = forget (stopRuntimeGraph w reason)"
| "run_op w (Restart reason) = forget (restartRuntimeGraph w reason)"
| "run_op w (Scope reason restart draft) = transitionScope w reason restart draft"
| "run_op w SuspendOp = forget (suspend w)"
| "run_op w (ResumeOp reason) = forget (resume w reason)"
| "run_op w (Reconcile reason) = forget (reconcileLaunchState w reason)"

datatype mobile_input = Queued mobile_op | Callback env_event | Configure nat | ResetCall

fun mobile_step :: "world \<Rightarrow> mobile_input \<Rightarrow> mobile \<Rightarrow> mobile" where
  "mobile_step w (Queued oper) m = snd (run_op w oper m)"
| "mobile_step w (Callback e) m = env_step e m"
| "mobile_step w (Configure deps) m = snd (configureRuntimeGraph deps m)"
| "mobile_step w ResetCall m = snd (reset m)"

definition enqueueOperation :: "world \<Rightarrow> mobile_input list \<Rightarrow> mobile \<Rightarrow> mobile" where
  "enqueueOperation w inputs m = fold (mobile_step w) inputs m"

end
