(* ===== verification/Mobile_Relations.thy ===== *)
theory Mobile_Relations
  imports Mobile_Kernel
begin

text \<open>
  Relations between kernel objects that operations of the mobile lifecycle kernel keep.  The locales
  say which elementary updates have to respect a relation so that every operation, and every history
  of operations and callbacks under every world, respects it.
\<close>

section \<open>Relations kept by operations\<close>

text \<open>
  A reflexive and transitive relation between kernel objects that the elementary updates respect is
  respected by every operation built from them.
\<close>

definition keeps :: "(mobile \<Rightarrow> mobile \<Rightarrow> bool) \<Rightarrow> 'a op \<Rightarrow> bool" where
  "keeps R f \<longleftrightarrow> (\<forall>m. R m (snd (f m)))"

lemma keepsI: "(\<And>m. R m (snd (f m))) \<Longrightarrow> keeps R f"
  by (simp add: keeps_def)

lemma keepsD: "keeps R f \<Longrightarrow> R m (snd (f m))"
  by (simp add: keeps_def)

lemma keeps_cond: "keeps R f \<Longrightarrow> keeps R g \<Longrightarrow> keeps R (\<lambda>m. if P m then f m else g m)"
  by (rule keepsI) (auto dest: keepsD)

locale kernel_relation =
  fixes R :: "mobile \<Rightarrow> mobile \<Rightarrow> bool"
  assumes R_refl: "R m m"
    and R_trans: "R a b \<Longrightarrow> R b c \<Longrightarrow> R a c"
begin

lemma keeps_return [intro]: "keeps R (op_return x)"
  by (simp add: keeps_def op_return_def R_refl)

lemma keeps_throw [intro]: "keeps R (op_throw e)"
  by (simp add: keeps_def op_throw_def R_refl)

lemma keeps_read [intro]: "keeps R (op_read f)"
  by (simp add: keeps_def op_read_def R_refl)

lemma keeps_bind [intro]:
  assumes "keeps R f" and "\<And>x. keeps R (g x)"
  shows "keeps R (op_bind f g)"
proof (rule keepsI)
  fix m
  obtain out m' where f: "f m = (out, m')" by (cases "f m")
  have "R m m'" using keepsD [OF assms(1), of m] f by simp
  moreover have "R m' (snd (g x m'))" for x using assms(2) by (rule keepsD)
  ultimately show "R m (snd (op_bind f g m))"
    using f by (auto simp: op_bind_def split: sum.split intro: R_trans)
qed

lemma keeps_then [intro]: "keeps R f \<Longrightarrow> keeps R g \<Longrightarrow> keeps R (op_then f g)"
  unfolding op_then_def by blast

lemma keeps_forget [intro]: "keeps R f \<Longrightarrow> keeps R (forget f)"
  unfolding forget_def by blast

lemma fold_keeps: "(\<And>x m. x \<in> set xs \<Longrightarrow> R m (f x m)) \<Longrightarrow> R m (fold f xs m)"
proof (induction xs arbitrary: m)
  case Nil
  then show ?case by (simp add: R_refl)
next
  case (Cons x xs)
  then have "R m (f x m)" and "R (f x m) (fold f xs (f x m))" by auto
  then show ?case by (auto intro: R_trans)
qed

lemma fold_keeps_snd:
  "(\<And>x ls. x \<in> set xs \<Longrightarrow> R (p ls) (p (f x ls))) \<Longrightarrow> R (p ls) (p (fold f xs ls))"
proof (induction xs arbitrary: ls)
  case Nil
  then show ?case by (simp add: R_refl)
next
  case (Cons x xs)
  then have "R (p ls) (p (f x ls))" and "R (p (f x ls)) (p (fold f xs (f x ls)))" by auto
  then show ?case by (auto intro: R_trans)
qed

end

text \<open>
  What callbacks may do: they touch runtime readiness and the launch state, and issue revisions.
\<close>

locale env_relation = kernel_relation +
  assumes R_env: "R m (env_step e m)"
    and R_call: "(\<And>r. c \<noteq> ScopeTransition r) \<Longrightarrow> R m (call_now c m)"
    and R_emit: "R m (emitEvent e' m)"
    and R_invalidate: "R m (invalidate_runtime i m)" "R m (invalidate_all m)"
    and R_context: "R m (runtimeContext d m)"
    and R_runtime: "runtime_action a = Some i \<Longrightarrow> R m (m_dispatch a m)"
begin

lemma R_await:
  assumes "\<And>r. c \<noteq> ScopeTransition r"
  shows "R m (await_call w c m)"
proof -
  have "R (call_now c m) (fold env_step es (call_now c m))" for es
    by (rule fold_keeps) (rule R_env)
  then show ?thesis
    unfolding await_call_def Let_def using R_call [OF assms] R_trans by blast
qed

lemma R_chain:
  "R a b \<Longrightarrow> runtime_action x = Some i \<Longrightarrow> R a (m_dispatch x b)"
  "R a b \<Longrightarrow> R a (emitEvent ev b)"
  "R a b \<Longrightarrow> R a (invalidate_runtime j b)"
  "R a b \<Longrightarrow> R a (runtimeContext d b)"
  "R a b \<Longrightarrow> (\<And>r. c \<noteq> ScopeTransition r) \<Longrightarrow> R a (await_call w c b)"
  using R_trans R_runtime R_emit R_invalidate(1) R_context R_await by blast+

lemma R_run:
  "runVoidRuntimeOperation w i c b = (res, m') \<Longrightarrow> (\<And>r. c \<noteq> ScopeTransition r) \<Longrightarrow> R a b \<Longrightarrow> R a m'"
  "runTeardownOperation w i c b = (res, m') \<Longrightarrow> (\<And>r. c \<noteq> ScopeTransition r) \<Longrightarrow> R a b \<Longrightarrow> R a m'"
  using R_chain(5) [of a b c w]
  by (auto simp: runVoidRuntimeOperation_def runTeardownOperation_def Let_def)

lemma R_bootstrap_one: "R (snd (snd ls)) (snd (snd (bootstrap_one w i ls)))"
  by (cases ls) (auto simp: bootstrap_one_def Let_def R_refl split: option.split prod.split
      intro!: R_chain elim!: R_run)

lemma R_suspend_one: "R (snd ls) (snd (suspend_one w i ls))"
  by (cases ls) (auto simp: suspend_one_def Let_def R_refl split: option.split prod.split
      intro!: R_chain elim!: R_run)

lemma R_resume_one: "R (snd (snd ls)) (snd (snd (resume_one w i ls)))"
  by (cases ls) (auto simp: resume_one_def Let_def R_refl split: option.split prod.split
      intro!: R_chain elim!: R_run)

lemma R_teardown_one: "R (snd ls) (snd (teardown_one w tc i ls))"
  by (cases ls) (auto simp: teardown_one_def Let_def R_refl split: option.split prod.split
      intro!: R_chain elim!: R_run)

lemma R_loops:
  "R (snd (snd ls)) (snd (snd (fold (bootstrap_one w) is ls)))"
  "R (snd fs) (snd (fold (suspend_one w) is fs))"
  "R (snd (snd ls)) (snd (snd (fold (resume_one w) is ls)))"
  "R (snd fs) (snd (fold (teardown_one w tc) is fs))"
  by (rule fold_keeps_snd, rule R_bootstrap_one R_suspend_one R_resume_one R_teardown_one)+

end

text \<open>Actions that move the phase.\<close>

fun phase_action :: "lifecycle_action \<Rightarrow> bool" where
  "phase_action BEGIN_BOOTSTRAP = True"
| "phase_action (BOOTSTRAP_COMPLETE _) = True"
| "phase_action BEGIN_SUSPEND = True"
| "phase_action (SUSPEND_COMPLETE _) = True"
| "phase_action BEGIN_RESUME = True"
| "phase_action (RESUME_COMPLETE _) = True"
| "phase_action BEGIN_TEARDOWN = True"
| "phase_action (TEARDOWN_COMPLETE _) = True"
| "phase_action _ = False"

context env_relation
begin

lemma keeps_launch: "keeps R (transitionLaunchState t)"
  using R_env [of _ "RequestLaunch t"] by (simp add: keeps_def)

lemma keeps_launch_when: "keeps R (launch_when cond t)"
  using keepsD [OF keeps_launch] by (simp add: keeps_def launch_when_def op_return_def R_refl)

lemma keeps_assert: "keeps R (assertPhaseTransition p)"
  by (simp add: keeps_def assertPhaseTransition_def op_throw_def op_return_def R_refl)

lemma keeps_require: "keeps R requireGraphDependencies"
  by (simp add: keeps_def requireGraphDependencies_def op_throw_def op_return_def R_refl
      split: option.split)

end

locale phase_relation = env_relation +
  assumes R_phase: "phase_action a \<Longrightarrow> R m (m_dispatch a m)"
begin

lemma R_phase_chain: "R a b \<Longrightarrow> phase_action x \<Longrightarrow> R a (m_dispatch x b)"
  using R_trans R_phase by blast

lemma R_all_chain: "R a b \<Longrightarrow> R a (invalidate_all b)"
  using R_trans R_invalidate(2) by blast

lemma R_loop_chain:
  "fold (bootstrap_one w) is (x, y, b) = (x', y', b') \<Longrightarrow> R a b \<Longrightarrow> R a b'"
  "fold (suspend_one w) is (x, b) = (x', b') \<Longrightarrow> R a b \<Longrightarrow> R a b'"
  "fold (resume_one w) is (x, y, b) = (x', y', b') \<Longrightarrow> R a b \<Longrightarrow> R a b'"
  "fold (teardown_one w tc) is (x, b) = (x', b') \<Longrightarrow> R a b \<Longrightarrow> R a b'"
  using R_loops(1) [of "(x, y, b)" w "is"] R_loops(2) [of "(x, b)" w "is"]
    R_loops(3) [of "(x, y, b)" w "is"] R_loops(4) [of "(x, b)" w tc "is"] R_trans [of a b b']
  by simp_all

lemma R_throw_if: "R a b \<Longrightarrow> R a (snd (throw_if err b))"
  by (auto simp: throw_if_def op_return_def op_throw_def split: option.split intro: R_chain)

lemmas R_body =
  R_refl R_chain R_phase_chain R_all_chain R_throw_if

lemma keeps_bootstrap_loop: "keeps R (bootstrapRuntimes w)"
  unfolding bootstrapRuntimes_def
  by (intro keeps_then keeps_assert keepsI)
    (auto simp: Let_def split: prod.split intro!: R_body elim!: R_loop_chain)

lemma keeps_suspend_loop: "keeps R (suspendRuntimes w)"
  unfolding suspendRuntimes_def
  by (intro keeps_then keeps_assert keepsI)
    (auto simp: Let_def split: prod.split intro!: R_body elim!: R_loop_chain)

lemma keeps_resume_loop: "keeps R (resumeRuntimes w)"
  unfolding resumeRuntimes_def
  by (intro keeps_then keeps_assert keepsI)
    (auto simp: Let_def split: prod.split intro!: R_body elim!: R_loop_chain)

lemma keeps_teardown_loop: "keeps R (teardownRuntimes w tc)"
  unfolding teardownRuntimes_def
  by (intro keeps_bind keeps_read keeps_then keeps_assert keepsI)
    (auto simp: Let_def split: prod.split intro!: R_body elim!: R_loop_chain)

end

text \<open>
  The operations of the kernel, given that the four loops over the graph, the change of generation,
  the installation of a graph and the reset keep the relation.
\<close>

locale op_relation = env_relation +
  assumes keeps_bootstrap: "keeps R (bootstrapRuntimes w)"
    and keeps_suspend: "keeps R (suspendRuntimes w)"
    and keeps_resume: "keeps R (resumeRuntimes w)"
    and keeps_teardown: "keeps R (teardownRuntimes w tc)"
    and R_apply: "R m (snd (applyGeneration n reason adv m))"
    and R_register: "R m (snd (registerRuntimes ds m))"
    and R_reset: "R m (snd (reset m))"
begin

lemma keeps_await_generation:
  "(\<And>r. c \<noteq> ScopeTransition r) \<Longrightarrow> keeps R (await_generation w c key)"
  by (rule keepsI) (simp add: await_generation_def Let_def R_await)

lemma keeps_generation: "keeps R (readGeneration w)" "keeps R (advanceGeneration w)"
  unfolding readGeneration_def advanceGeneration_def by (rule keeps_await_generation; simp)+

lemma keeps_apply: "keeps R (applyGeneration n reason adv)"
  by (rule keepsI) (rule R_apply)

lemma keeps_fence: "keeps R (fenceProjections w g reason)"
  by (rule keepsI) (simp add: fenceProjections_def Let_def R_call split: option.split)

lemma keeps_reset: "keeps R reset"
  by (rule keepsI) (rule R_reset)

lemma keeps_register: "keeps R (registerRuntimes ds)"
  by (rule keepsI) (rule R_register)

lemma keeps_create: "keeps R (createDescriptors w)"
  by (rule keepsI) (simp add: createDescriptors_def Let_def R_call)

lemma keeps_start_now: "keeps R (startRuntimeGraphNow w)"
proof -
  have "keeps R (\<lambda>m. if ls_phase (mk_state m) \<noteq> COLD
                  then op_throw (''mobile.lifecycle.startInvalidPhase:''
                                 @ phase_name (ls_phase (mk_state m))) m
                  else if ls_runtimes (mk_state m) \<noteq> [] then reset m else op_return () m)"
    by (rule keepsI) (auto simp: op_throw_def op_return_def R_refl R_reset)
  then show ?thesis
    unfolding startRuntimeGraphNow_def
    by (intro keeps_then keeps_bind keeps_return keeps_require keeps_create keeps_register
        keeps_bootstrap)
qed

lemma keeps_fence_teardown: "keeps R (fenceAndTeardown w tc)"
  unfolding fenceAndTeardown_def
  by (intro keeps_then keeps_bind keeps_return keeps_require keeps_generation keeps_apply
      keeps_fence keeps_cond keeps_teardown)

lemma keeps_resolved: "keeps R (transitionToResolvedLaunchState target reason)"
  unfolding transitionToResolvedLaunchState_def
  by (intro keeps_cond keeps_return keeps_then keeps_launch_when keeps_launch)
    (simp add: keeps_def op_throw_def R_refl)

lemma keeps_reconcile: "keeps R (reconcileLaunchStateAfterRuntime w reason)"
  unfolding reconcileLaunchStateAfterRuntime_def
  by (intro keeps_then keeps_bind keeps_require keeps_resolved keepsI)
    (simp add: Let_def R_await)

lemma keeps_snapshot: "keeps R getSnapshot"
  by (rule keepsI) (simp add: getSnapshot_def Let_def R_refl split: sum.split)

lemma keeps_complete: "keeps R (require_complete res)"
  unfolding require_complete_def by (auto intro: keeps_throw keeps_return)

lemma keeps_enter: "keeps R (enterScopeLaunchTransition reason)"
  unfolding enterScopeLaunchTransition_def by (rule keeps_launch_when)

lemmas keeps_parts =
  keeps_then keeps_bind keeps_return keeps_require keeps_generation keeps_apply keeps_fence
  keeps_reset keeps_start_now keeps_reconcile keeps_snapshot keeps_complete keeps_fence_teardown
  keeps_teardown keeps_suspend keeps_resume keeps_launch_when keeps_enter keeps_forget

lemma keeps_start: "keeps R (startRuntimeGraph w reason)"
proof -
  have "keeps R (if b then advanceGeneration w else op_return x)" for b x
    by (cases b) (auto intro: keeps_parts)
  then show ?thesis
    unfolding startRuntimeGraph_def Let_def
    by (intro keeps_cond keeps_parts) (simp_all add: keeps_def op_throw_def R_refl)
qed

lemma keeps_stop: "keeps R (stopRuntimeGraph w reason)"
  unfolding stopRuntimeGraph_def by (intro keeps_cond keeps_parts)

lemma keeps_restart: "keeps R (restartRuntimeGraph w reason)"
  unfolding restartRuntimeGraph_def by (intro keeps_parts)

lemma keeps_suspend_op: "keeps R (Mobile_Kernel.suspend w)"
  unfolding suspend_def by (intro keeps_cond keeps_parts)

lemma keeps_resume_op: "keeps R (resume w reason)"
  unfolding resume_def by (intro keeps_cond keeps_parts)

lemma keeps_reconcile_op: "keeps R (reconcileLaunchState w reason)"
  unfolding reconcileLaunchState_def by (intro keeps_parts)

end

locale phase_op_relation = phase_relation +
  assumes R_apply': "R m (snd (applyGeneration n reason adv m))"
    and R_register': "R m (snd (registerRuntimes ds m))"
    and R_reset': "R m (snd (reset m))"

sublocale phase_op_relation \<subseteq> op_relation
  by unfold_locales
    (rule keeps_bootstrap_loop keeps_suspend_loop keeps_resume_loop keeps_teardown_loop
      R_apply' R_register' R_reset')+

locale run_relation = op_relation +
  assumes R_scope: "R m (call_now (ScopeTransition r) m)"
    and R_configure: "R m (snd (configureRuntimeGraph deps m))"
begin

lemma keeps_transition: "keeps R (run_transition w reason)"
proof (rule keepsI)
  fix m
  have "R (call_now c m) (fold env_step es (call_now c m))" for c es
    by (rule fold_keeps) (rule R_env)
  then have "R m (await_call w (ScopeTransition reason) m)"
    unfolding await_call_def Let_def by (rule R_trans [OF R_scope])
  then show "R m (snd (run_transition w reason m))"
    by (simp add: run_transition_def Let_def split: option.split)
qed

lemma keeps_scope: "keeps R (transitionScope w reason restart draft)"
  unfolding transitionScope_def
  by (cases restart) (auto intro!: keeps_parts keeps_transition)

lemma keeps_run_op: "keeps R (run_op w oper)"
  by (cases oper)
    (auto intro: keeps_forget keeps_start keeps_stop keeps_restart keeps_scope keeps_suspend_op
      keeps_resume_op keeps_reconcile_op)

lemma R_step: "R m (mobile_step w inp m)"
  using keepsD [OF keeps_run_op] R_env R_reset R_configure by (cases inp) auto

lemma R_history: "R m (enqueueOperation w inputs m)"
  unfolding enqueueOperation_def by (rule fold_keeps) (rule R_step)

end

text \<open>A relation kept by every elementary update is kept along every history.\<close>

locale history_relation = phase_op_relation +
  assumes R_scope': "R m (call_now (ScopeTransition r) m)"
    and R_configure': "R m (snd (configureRuntimeGraph deps m))"

sublocale history_relation \<subseteq> run_relation
  by unfold_locales (rule R_scope' R_configure')+

section \<open>What the elementary updates do\<close>

lemma mobile_fields [simp]:
  "mk_state (emitEvent e m) = mk_state m" "mk_calls (emitEvent e m) = mk_calls m"
  "mk_state (invalidate_runtime i m) = mk_state m" "mk_calls (invalidate_runtime i m) = mk_calls m"
  "mk_state (invalidate_all m) = mk_state m" "mk_calls (invalidate_all m) = mk_calls m"
  "mk_state (runtimeContext d m) = mk_state m" "mk_calls (runtimeContext d m) = mk_calls m"
  "mk_state (call_now c m) = mk_state m" "mk_calls (call_now c m) = mk_calls m @ [c]"
  "mk_state (m_dispatch a m) = lifecycleReducer a (mk_state m)"
  "mk_calls (m_dispatch a m) = mk_calls m"
  "mk_incarnation (emitEvent e m) = mk_incarnation m"
  "mk_incarnation (invalidate_runtime i m) = mk_incarnation m"
  "mk_incarnation (invalidate_all m) = mk_incarnation m"
  "mk_incarnation (runtimeContext d m) = mk_incarnation m"
  "mk_incarnation (call_now c m) = mk_incarnation m"
  "mk_incarnation (m_dispatch a m) = mk_incarnation m"
  by (simp_all add: emitEvent_def invalidate_runtime_def invalidate_all_def runtimeContext_def
      call_now_def m_dispatch_def)

text \<open>A callback is a launch transition or only touches the readiness of runtimes.\<close>

lemma begin_fields:
  "mk_calls (beginReadinessUpdate cx m) = mk_calls m"
  "mk_incarnation (beginReadinessUpdate cx m) = mk_incarnation m"
  "mk_state (beginReadinessUpdate cx m) = mk_state m
   \<or> (\<exists>i r. mk_state (beginReadinessUpdate cx m) = lifecycleReducer (RUNTIME_READINESS i r) (mk_state m))"
  by (auto simp: beginReadinessUpdate_def Let_def)

lemma settle_fields:
  "mk_calls (settle v err m) = mk_calls m"
  "mk_incarnation (settle v err m) = mk_incarnation m"
  "mk_state (settle v err m) = mk_state m
   \<or> (\<exists>i r. mk_state (settle v err m) = lifecycleReducer (RUNTIME_READINESS i r) (mk_state m))"
  by (auto simp: settle_def Let_def split: option.split)

lemma launch_fields:
  "mk_calls (snd (transitionLaunchState t m)) = mk_calls m"
  "mk_incarnation (snd (transitionLaunchState t m)) = mk_incarnation m"
  "mk_state (snd (transitionLaunchState t m)) = mk_state m
   \<or> (isValidLaunchStateTransition (ls_launchState (mk_state m)) t
       \<and> mk_state (snd (transitionLaunchState t m)) = (mk_state m)\<lparr>ls_launchState := t\<rparr>)"
  by (auto simp: transitionLaunchState_def Let_def op_return_def op_throw_def op_do_def)

lemma env_step_fields:
  "mk_calls (env_step e m) = mk_calls m"
  "mk_incarnation (env_step e m) = mk_incarnation m"
  by (cases e; simp add: begin_fields settle_fields launch_fields split: option.split)+

lemma env_step_state:
  "mk_state (env_step e m) = mk_state m
   \<or> (\<exists>i r. mk_state (env_step e m) = lifecycleReducer (RUNTIME_READINESS i r) (mk_state m))
   \<or> (\<exists>t. isValidLaunchStateTransition (ls_launchState (mk_state m)) t
          \<and> mk_state (env_step e m) = (mk_state m)\<lparr>ls_launchState := t\<rparr>)"
proof (cases e)
  case (BeginUpdate n)
  then show ?thesis using begin_fields(3) [of "mk_contexts m ! n" m] by auto
next
  case (SettleReady v)
  then show ?thesis using settle_fields(3) [of v None m] by auto
next
  case (SettleFail v err)
  then show ?thesis using settle_fields(3) [of v "Some err" m] by auto
next
  case (UpdateTimeout i)
  then show ?thesis
    using settle_fields(3) [of _ "Some (TErr ''mobile.lifecycle.runtimeTimedOut'' None)" m]
    by (auto split: option.split)
next
  case (RequestLaunch t)
  then show ?thesis using launch_fields(3) [of t m] by auto
qed

lemma env_step_simps [simp]:
  "ls_phase (mk_state (env_step e m)) = ls_phase (mk_state m)"
  "ls_generation (mk_state (env_step e m)) = ls_generation (mk_state m)"
  "ls_bootOrder (mk_state (env_step e m)) = ls_bootOrder (mk_state m)"
  "entry_status (mk_state (env_step e m)) i = entry_status (mk_state m) i"
  "entry_deps (mk_state (env_step e m)) i = entry_deps (mk_state m) i"
  using env_step_state [of e m]
  by (auto simp: entry_status_update, auto simp: entry_status_def entry_deps_def)

lemma apply_fields:
  "applyGeneration n reason adv m = (out, m') \<Longrightarrow>
     (case out of
        Inl _ \<Rightarrow> m' = m
      | Inr g \<Rightarrow> mk_state m' = (mk_state m)\<lparr>ls_generation := g\<rparr> \<and> 0 \<le> g \<and> g \<le> 9007199254740991
          \<and> ls_generation (mk_state m) \<le> g \<and> (adv \<longrightarrow> ls_generation (mk_state m) < g)
          \<and> mk_calls m' = mk_calls m \<and> mk_incarnation m' = mk_incarnation m)"
  by (auto simp: applyGeneration_def safe_integer_def op_throw_def
      split: option.splits if_splits jsnum.splits prod.splits)

lemma register_fields:
  "registerRuntimes ds m = (out, m') \<Longrightarrow>
     mk_calls m' = mk_calls m \<and> mk_incarnation m' = mk_incarnation m + 1
     \<and> (mk_state m' = mk_state m
        \<or> mk_state m' = lifecycleReducer (REGISTER_RUNTIMES ds (tr_order (topologicalSortRuntimes ds)))
                         (mk_state m))"
  by (auto simp: registerRuntimes_def Let_def op_throw_def op_do_def split: if_splits)

lemma reset_fields:
  "reset m = (out, m') \<Longrightarrow>
     mk_calls m' = mk_calls m \<and> mk_incarnation m' = mk_incarnation m
     \<and> (mk_state m' = mk_state m \<or> mk_state m' =
          initialLifecycleState (ls_generation (mk_state m)) (ls_launchState (mk_state m)))"
  by (auto simp: reset_def op_throw_def op_do_def split: if_splits)

lemma phase_action_fields:
  "phase_action a \<Longrightarrow> ls_generation (lifecycleReducer a st) = ls_generation st
     \<and> ls_launchState (lifecycleReducer a st) = ls_launchState st
     \<and> ls_runtimes (lifecycleReducer a st) = ls_runtimes st
     \<and> ls_bootOrder (lifecycleReducer a st) = ls_bootOrder st"
  by (cases a) auto

lemma configure_fields:
  "mk_state (snd (configureRuntimeGraph deps m)) = mk_state m"
  "mk_calls (snd (configureRuntimeGraph deps m)) = mk_calls m"
  "mk_incarnation (snd (configureRuntimeGraph deps m)) = mk_incarnation m"
  "mk_contexts (snd (configureRuntimeGraph deps m)) = mk_contexts m"
  by (simp_all add: configureRuntimeGraph_def op_throw_def op_do_def)

lemma runtime_action_fields:
  "runtime_action a = Some i \<Longrightarrow> ls_generation (lifecycleReducer a st) = ls_generation st
     \<and> ls_launchState (lifecycleReducer a st) = ls_launchState st
     \<and> ls_phase (lifecycleReducer a st) = ls_phase st
     \<and> ls_bootOrder (lifecycleReducer a st) = ls_bootOrder st"
  by (simp add: runtime_action_keeps)

lemma apply_fields':
  "(case fst (applyGeneration n reason adv m) of
        Inl _ \<Rightarrow> snd (applyGeneration n reason adv m) = m
      | Inr g \<Rightarrow> mk_state (snd (applyGeneration n reason adv m)) = (mk_state m)\<lparr>ls_generation := g\<rparr>
          \<and> 0 \<le> g \<and> g \<le> 9007199254740991
          \<and> ls_generation (mk_state m) \<le> g \<and> (adv \<longrightarrow> ls_generation (mk_state m) < g)
          \<and> mk_calls (snd (applyGeneration n reason adv m)) = mk_calls m
          \<and> mk_incarnation (snd (applyGeneration n reason adv m)) = mk_incarnation m)"
  using apply_fields [of n reason adv m, OF prod.collapse [symmetric]] .

lemmas register_fields' = register_fields [OF prod.collapse [symmetric]]
lemmas reset_fields' = reset_fields [OF prod.collapse [symmetric]]

end
