(* ===== verification/Mobile_Graph.thy ===== *)
theory Mobile_Graph
  imports Mobile_Safety
begin

text \<open>
  The runtime graph of the mobile lifecycle kernel: an installed graph stays ordered along every
  history, so snapshots are total; which hooks a bootstrap and a teardown call, in which order, and
  what they leave behind; and that the owner's mutation in a scope transition comes after the fence
  and after the teardown of every runtime that was started.
\<close>

section \<open>An installed graph stays ordered\<close>

definition descriptor_of :: "lifecycle_state \<Rightarrow> string \<Rightarrow> runtime_descriptor option" where
  "descriptor_of st i = map_option re_descriptor (map_get (ls_runtimes st) i)"

lemma graph_ordered_iff:
  "graph_ordered st \<longleftrightarrow> distinct (ls_bootOrder st)
     \<and> (\<forall>i. descriptor_of st i \<noteq> None \<longleftrightarrow> i \<in> set (ls_bootOrder st))
     \<and> (\<forall>i d. descriptor_of st i = Some d \<longrightarrow> d_id d = i)
     \<and> (\<forall>n < length (ls_bootOrder st).
          set (case descriptor_of st (ls_bootOrder st ! n) of None \<Rightarrow> [] | Some d \<Rightarrow> d_dependsOn d)
            \<subseteq> set (take n (ls_bootOrder st)))"
proof -
  have deps: "deps_of (entry_adjacency st) i =
      (case descriptor_of st i of None \<Rightarrow> [] | Some d \<Rightarrow> d_dependsOn d)" for i
    by (simp add: deps_of_entry_adjacency entry_deps_def descriptor_of_def split: option.split)
  have here: "map_get (ls_runtimes st) i \<noteq> None \<longleftrightarrow> descriptor_of st i \<noteq> None" for i
    by (simp add: descriptor_of_def)
  have ids: "(\<forall>i e. map_get (ls_runtimes st) i = Some e \<longrightarrow> d_id (re_descriptor e) = i) \<longleftrightarrow>
      (\<forall>i d. descriptor_of st i = Some d \<longrightarrow> d_id d = i)"
    by (auto simp: descriptor_of_def)
  show ?thesis unfolding graph_ordered_def deps_first_def deps here ids ..
qed

lemma graph_ordered_cong:
  "ls_bootOrder st' = ls_bootOrder st \<Longrightarrow> (\<And>i. descriptor_of st' i = descriptor_of st i) \<Longrightarrow>
     graph_ordered st' = graph_ordered st"
  by (simp add: graph_ordered_iff)

lemma descriptor_of_update [simp]:
  "descriptor_of (updateRuntimeEntry i p st) j = descriptor_of st j"
  "descriptor_of (updateRuntimeStatus i s st) j = descriptor_of st j"
  by (auto simp: descriptor_of_def updateRuntimeStatus_def updateRuntimeEntry_get apply_patch_def
      option.map_comp comp_def)

lemma descriptor_of_runtime_action:
  "runtime_action a = Some i \<Longrightarrow> descriptor_of (lifecycleReducer a st) j = descriptor_of st j"
  by (cases a) simp_all

lemma env_step_descriptor [simp]:
  "descriptor_of (mk_state (env_step e m)) j = descriptor_of (mk_state m) j"
  using env_step_state [of e m]
  by (elim disjE exE conjE) (simp_all, simp_all add: descriptor_of_def)

definition keeps_graph :: "mobile \<Rightarrow> mobile \<Rightarrow> bool" where
  "keeps_graph m m' \<longleftrightarrow> (graph_ordered (mk_state m) \<longrightarrow> graph_ordered (mk_state m'))"

lemma registered_descriptor:
  assumes "distinct (map d_id ds)"
  shows "descriptor_of (lifecycleReducer (REGISTER_RUNTIMES ds order) st) i =
    find (\<lambda>d. d_id d = i) ds"
proof -
  have "map_get (fold (\<lambda>d. map_set (d_id d) (new_entry d)) ds m) i =
      (case find (\<lambda>d. d_id d = i) ds of None \<Rightarrow> map_get m i | Some d \<Rightarrow> Some (new_entry d))" for m
    using assms
  proof (induction ds arbitrary: m)
    case Nil
    then show ?case by simp
  next
    case (Cons d ds)
    have "d_id d \<notin> d_id ` set ds" using Cons.prems by simp
    then have "find (\<lambda>d. d_id d = i) ds = None" if "d_id d = i"
      using that unfolding find_None_iff by (metis image_eqI)
    with Cons show ?case by (simp split: option.split)
  qed
  then show ?thesis by (simp add: descriptor_of_def new_entry_def split: option.split)
qed

lemma register_ordered:
  assumes "distinct (map d_id ds)" and "tr_missing (topologicalSortRuntimes ds) = []"
    and "\<not> tr_hasCycle (topologicalSortRuntimes ds)"
  shows "graph_ordered (lifecycleReducer (REGISTER_RUNTIMES ds (tr_order (topologicalSortRuntimes ds))) st)"
proof -
  let ?order = "tr_order (topologicalSortRuntimes ds)"
  let ?st = "lifecycleReducer (REGISTER_RUNTIMES ds ?order) st"
  note o = sort_order [OF assms(2,3)]
  have found: "d \<in> set ds \<and> d_id d = i" if "find (\<lambda>d. d_id d = i) ds = Some d" for i d
    using find_Some_in [OF that] .
  have "deps_of (adjacency_of ds) i = (case find (\<lambda>d. d_id d = i) ds of None \<Rightarrow> [] | Some d \<Rightarrow> d_dependsOn d)"
    for i
  proof (cases "find (\<lambda>d. d_id d = i) ds")
    case None
    then have "i \<notin> d_id ` set ds" by (auto simp: find_None_iff)
    with None show ?thesis by (simp add: deps_of_outside)
  next
    case (Some d)
    with found [OF Some] deps_of_member [OF assms(1), of d] show ?thesis by auto
  qed
  with o(3) have deps: "\<forall>n < length ?order.
      set (case find (\<lambda>d. d_id d = ?order ! n) ds of None \<Rightarrow> [] | Some d \<Rightarrow> d_dependsOn d)
        \<subseteq> set (take n ?order)"
    by (simp add: deps_first_def)
  have here: "find (\<lambda>d. d_id d = i) ds \<noteq> None \<longleftrightarrow> i \<in> set ?order" for i
    unfolding o(2) by (auto simp: find_None_iff)
  have order: "ls_bootOrder ?st = ?order" by simp
  show ?thesis
    unfolding graph_ordered_iff registered_descriptor [OF assms(1)] order
  proof (intro conjI)
    show "\<forall>i d. find (\<lambda>d. d_id d = i) ds = Some d \<longrightarrow> d_id d = i" using found by blast
  qed (rule o(1), use here in blast, rule deps)
qed

interpretation graph: history_relation keeps_graph
proof (unfold_locales, goal_cases)
  case (3 m e)
  then show ?case by (simp add: keeps_graph_def cong: graph_ordered_cong)
next
  case (9 a i m)
  then show ?case
    by (simp add: keeps_graph_def runtime_action_fields descriptor_of_runtime_action
        cong: graph_ordered_cong)
next
  case (10 a m)
  then have "graph_ordered (lifecycleReducer a (mk_state m)) = graph_ordered (mk_state m)"
    by (intro graph_ordered_cong) (simp_all add: phase_action_fields descriptor_of_def)
  then show ?case by (simp add: keeps_graph_def)
next
  case (11 m n reason adv)
  have "graph_ordered ((mk_state m)\<lparr>ls_generation := g\<rparr>) = graph_ordered (mk_state m)" for g
    by (rule graph_ordered_cong) (simp_all add: descriptor_of_def)
  then show ?case
    using apply_fields' [of n reason adv m]
    by (cases "fst (applyGeneration n reason adv m)") (auto simp: keeps_graph_def)
next
  case (12 m ds)
  then show ?case
    using register_ordered [of ds]
    by (auto simp: keeps_graph_def registerRuntimes_def Let_def op_throw_def op_do_def
        set_of_list_length simp del: lifecycleReducer.simps)
next
  case (13 m)
  have "graph_ordered (initialLifecycleState g l)" for g l
    by (simp add: graph_ordered_iff initialLifecycleState_def descriptor_of_def)
  then show ?case using reset_fields' [of m] by (auto simp: keeps_graph_def)
qed (auto simp: keeps_graph_def configure_fields)

section \<open>Snapshots are total\<close>

lemma availability_id:
  "readRuntimeAvailability n st i = Some (Some s) \<Longrightarrow> rs_id s = i"
  "availability_deps n st i result deps = Some (Some s) \<Longrightarrow> rs_id result = i \<Longrightarrow> rs_id s = i"
  by (induction n st i and n st i result deps arbitrary: s and s
      rule: readRuntimeAvailability_availability_deps.induct)
    (auto simp: own_snapshot_def dependency_snapshot_def split: option.splits if_splits)

lemma snapshot_runtimes_total:
  assumes "graph_ordered (mk_state m)" and "set is \<subseteq> set (ls_bootOrder (mk_state m))"
  shows "\<exists>rs. snapshot_runtimes m is = Inr rs \<and> map rs_id rs = is
    \<and> map (\<lambda>r. rs_status r = ready) rs = map (available (mk_state m)) is"
  using assms(2)
proof (induction "is")
  case Nil
  then show ?case by simp
next
  case (Cons i "is")
  let ?n = "Suc (length (ls_bootOrder (mk_state m)))"
  have "map_get (ls_runtimes (mk_state m)) i \<noteq> None" and "rank (ls_bootOrder (mk_state m)) i < ?n"
    using assms(1) Cons.prems rank_nth [of i "ls_bootOrder (mk_state m)"]
    by (auto simp: graph_ordered_def)
  from availability_total [OF assms(1) this] obtain s
    where s: "availability m i = Some (Some s)" "rs_status s = ready \<longleftrightarrow> available (mk_state m) i"
    by (auto simp: availability_def)
  moreover have "rs_id s = i" using s(1) unfolding availability_def by (rule availability_id(1))
  moreover obtain rs where "snapshot_runtimes m is = Inr rs" "map rs_id rs = is"
    "map (\<lambda>r. rs_status r = ready) rs = map (available (mk_state m)) is"
    using Cons by auto
  ultimately show ?case by auto
qed

lemma history_graph_ordered: "graph_ordered (mk_state (enqueueOperation w inputs new_mobile))"
proof -
  have "graph_ordered (mk_state new_mobile)"
    by (simp add: graph_ordered_iff initialLifecycleState_def descriptor_of_def)
  then show ?thesis using graph.R_history [of new_mobile w inputs] by (simp add: keeps_graph_def)
qed

text \<open>
  C23. Reading the kernel never fails: after every history of operations and callbacks, under every
  world, \<^verbatim>\<open>getSnapshot\<close> returns a snapshot that lists the runtimes in boot order and reports
  one as ready exactly when it and everything it depends on is available.
\<close>

theorem getSnapshot_total:
  "let m = enqueueOperation w inputs new_mobile in
   \<exists>snap. getSnapshot m = (Inr snap, m)
     \<and> map rs_id (ks_runtimes snap) = ls_bootOrder (mk_state m)
     \<and> map (\<lambda>r. rs_status r = ready) (ks_runtimes snap) =
         map (available (mk_state m)) (ls_bootOrder (mk_state m))"
proof -
  let ?m = "enqueueOperation w inputs new_mobile"
  from snapshot_runtimes_total [OF history_graph_ordered [of w inputs] order_refl] show ?thesis
    by (auto simp: getSnapshot_def Let_def)
qed

section \<open>Awaiting an answer\<close>

lemma fold_env_step [simp]:
  "mk_calls (fold env_step es m) = mk_calls m"
  "ls_phase (mk_state (fold env_step es m)) = ls_phase (mk_state m)"
  "ls_bootOrder (mk_state (fold env_step es m)) = ls_bootOrder (mk_state m)"
  "entry_status (mk_state (fold env_step es m)) i = entry_status (mk_state m) i"
  "entry_deps (mk_state (fold env_step es m)) i = entry_deps (mk_state m) i"
  by (induction es arbitrary: m) (simp_all add: env_step_fields)

lemma await_call_fields [simp]:
  "mk_calls (await_call w c m) = mk_calls m @ [c]"
  "ls_phase (mk_state (await_call w c m)) = ls_phase (mk_state m)"
  "ls_bootOrder (mk_state (await_call w c m)) = ls_bootOrder (mk_state m)"
  "entry_status (mk_state (await_call w c m)) i = entry_status (mk_state m) i"
  "entry_deps (mk_state (await_call w c m)) i = entry_deps (mk_state m) i"
  by (simp_all add: await_call_def Let_def)

lemma entry_status_action [simp]:
  "entry_status (lifecycleReducer (RUNTIME_FAILED i err) st) j =
     (if j = i then map_option (\<lambda>_. failed) (entry_status st i) else entry_status st j)"
  "entry_status (lifecycleReducer (RUNTIME_TEARDOWN_FAILED i err) st) j =
     (if j = i then map_option (\<lambda>_. failed) (entry_status st i) else entry_status st j)"
  by (simp_all add: entry_status_update failure_patch_def)

lemma entry_deps_action:
  "runtime_action a \<noteq> None \<Longrightarrow> entry_deps (lifecycleReducer a st) j = entry_deps st j"
  using runtime_action_keeps(6) by blast

lemma entry_of_status:
  assumes "entry_status st i \<noteq> None"
  obtains e where "map_get (ls_runtimes st) i = Some e" "re_status e = the (entry_status st i)"
    "d_dependsOn (re_descriptor e) = entry_deps st i"
  using assms by (auto simp: entry_status_def entry_deps_def)

section \<open>Bootstrap\<close>

text \<open>
  Where the loop stands after the runtimes \<open>pre\<close>: exactly those whose dependencies all became ready
  were started, in order; every other one failed with a dependency.
\<close>

definition boot_inv :: "mobile \<Rightarrow> string list \<Rightarrow> loop_state \<Rightarrow> bool" where
  "boot_inv m0 pre ls \<longleftrightarrow>
     (case ls of (results, failedIds, m) \<Rightarrow>
        (\<forall>i. entry_deps (mk_state m) i = entry_deps (mk_state m0) i)
        \<and> (\<forall>i. i \<notin> set pre \<longrightarrow> entry_status (mk_state m) i = entry_status (mk_state m0) i)
        \<and> (\<forall>i \<in> set pre. entry_status (mk_state m) i = Some (if i \<in> set failedIds then failed else ready))
        \<and> (\<forall>i \<in> set pre. entry_status (mk_state m) i = Some ready \<longrightarrow>
             (\<forall>dep \<in> set (entry_deps (mk_state m0) i). entry_status (mk_state m) dep = Some ready))
        \<and> set failedIds \<subseteq> set pre
        \<and> map or_runtimeId results = pre
        \<and> mk_calls m = mk_calls m0 @ map CallBootstrap
             (filter (\<lambda>i. \<forall>dep \<in> set (entry_deps (mk_state m0) i).
                            entry_status (mk_state m) dep = Some ready) pre))"

lemma failed_dependency_spec:
  assumes "[] \<notin> set (d_dependsOn (re_descriptor e))"
  shows "case failed_dependency e failedIds of
      Some dep \<Rightarrow> dep \<in> set (d_dependsOn (re_descriptor e)) \<and> dep \<in> set failedIds
    | None \<Rightarrow> \<forall>dep \<in> set (d_dependsOn (re_descriptor e)). dep \<notin> set failedIds"
  using assms
  by (auto simp: failed_dependency_def find_None_iff split: option.splits dest!: find_Some_in)

lemma boot_inv_step:
  assumes inv: "boot_inv m0 pre (results, failedIds, m)"
    and i: "i \<notin> set pre" "entry_status (mk_state m0) i \<noteq> None"
    and deps: "set (entry_deps (mk_state m0) i) \<subseteq> set pre" "[] \<notin> set pre"
    and later: "\<forall>j \<in> set pre. i \<notin> set (entry_deps (mk_state m0) j)"
  shows "boot_inv m0 (pre @ [i]) (bootstrap_one w i (results, failedIds, m))"
proof -
  let ?s = "\<lambda>m j. entry_status (mk_state m) j" and ?d = "entry_deps (mk_state m0)"
  note I = inv [unfolded boot_inv_def prod.case, THEN conjunct1]
    inv [unfolded boot_inv_def prod.case, THEN conjunct2, THEN conjunct1]
    inv [unfolded boot_inv_def prod.case, THEN conjunct2, THEN conjunct2, THEN conjunct1]
    inv [unfolded boot_inv_def prod.case, THEN conjunct2, THEN conjunct2, THEN conjunct2, THEN conjunct1]
    inv [unfolded boot_inv_def prod.case, THEN conjunct2, THEN conjunct2, THEN conjunct2, THEN conjunct2,
      THEN conjunct1]
    inv [unfolded boot_inv_def prod.case, THEN conjunct2, THEN conjunct2, THEN conjunct2, THEN conjunct2,
      THEN conjunct2, THEN conjunct1]
    inv [unfolded boot_inv_def prod.case, THEN conjunct2, THEN conjunct2, THEN conjunct2, THEN conjunct2,
      THEN conjunct2, THEN conjunct2]
  have d: "\<forall>j. entry_deps (mk_state m) j = ?d j"
    and here: "?s m i \<noteq> None"
    using I(1,2) i by auto
  obtain e where e: "map_get (ls_runtimes (mk_state m)) i = Some e"
    and ed: "d_dependsOn (re_descriptor e) = ?d i"
    using entry_of_status [OF here] d by metis
  have noempty: "[] \<notin> set (d_dependsOn (re_descriptor e))" using ed deps by auto
  have noti: "i \<notin> set (?d i)" using deps(1) i(1) by auto
  have fresh: "i \<notin> set failedIds" using I(5) i(1) by blast
  have step: "boot_inv m0 (pre @ [i]) (results @ [res], ids, m')"
    if m': "\<forall>j. entry_deps (mk_state m') j = ?d j" "\<forall>j. j \<noteq> i \<longrightarrow> ?s m' j = ?s m j"
      and st: "?s m' i = Some (if i \<in> set ids then failed else ready)"
      and ids: "set ids - {i} = set failedIds"
      and ok: "?s m' i = Some ready \<longrightarrow> (\<forall>dep \<in> set (?d i). ?s m dep = Some ready)"
      and res: "or_runtimeId res = i"
      and calls: "mk_calls m' = mk_calls m @
        (if \<forall>dep \<in> set (?d i). ?s m dep = Some ready then [CallBootstrap i] else [])"
    for res ids m'
  proof -
    have same: "(\<forall>dep \<in> set (?d j). ?s m' dep = Some ready) \<longleftrightarrow> (\<forall>dep \<in> set (?d j). ?s m dep = Some ready)"
      if "j = i \<or> j \<in> set pre" for j
      using that m'(2) noti later by (metis (no_types))
    then have "filter (\<lambda>j. \<forall>dep \<in> set (?d j). ?s m' dep = Some ready) pre =
        filter (\<lambda>j. \<forall>dep \<in> set (?d j). ?s m dep = Some ready) pre"
      by (intro filter_cong) auto
    note keep = this
    have mem: "j \<in> set ids \<longleftrightarrow> j \<in> set failedIds" if "j \<in> set pre" for j
      using ids i(1) that by blast
    have old: "?s m' j = ?s m j" if "j \<in> set pre" for j using m'(2) i(1) that by metis
    show ?thesis
      unfolding boot_inv_def prod.case
    proof (intro conjI)
      show "\<forall>j. j \<notin> set (pre @ [i]) \<longrightarrow> ?s m' j = ?s m0 j" using m'(2) I(2) by simp
      show "\<forall>j \<in> set (pre @ [i]). ?s m' j = Some (if j \<in> set ids then failed else ready)"
        using st I(3) old mem by simp
      show "\<forall>j \<in> set (pre @ [i]). ?s m' j = Some ready \<longrightarrow> (\<forall>dep \<in> set (?d j). ?s m' dep = Some ready)"
        using ok same I(4) old by simp
      show "set ids \<subseteq> set (pre @ [i])" using ids I(5) by auto
      show "map or_runtimeId (results @ [res]) = pre @ [i]" using res I(6) by simp
      show "mk_calls m' = mk_calls m0 @ map CallBootstrap
          (filter (\<lambda>j. \<forall>dep \<in> set (?d j). ?s m' dep = Some ready) (pre @ [i]))"
        using calls I(7) keep same [of i] by simp
    qed (rule m'(1))
  qed
  show ?thesis
  proof (cases "failed_dependency e failedIds")
    case (Some dep)
    then have dep: "dep \<in> set (?d i)" "dep \<in> set failedIds"
      using failed_dependency_spec [OF noempty, of failedIds] ed by auto
    then have "?s m dep = Some failed" using I(3) deps by auto
    then have nall: "\<not> (\<forall>dep \<in> set (?d i). ?s m dep = Some ready)" using dep(1) by force
    from Some e have one: "bootstrap_one w i (results, failedIds, m) =
        (results @ [dependency_failure i dep], set_add i failedIds,
         m_dispatch (RUNTIME_FAILED i (''mobile.lifecycle.dependencyFailed:'' @ dep)) m)"
      by (simp add: bootstrap_one_def)
    show ?thesis
      unfolding one using here nall d fresh
      by (intro step) (auto simp: dependency_failure_def entry_deps_action
          simp del: lifecycleReducer.simps)
  next
    case None
    then have "\<forall>dep \<in> set (?d i). dep \<notin> set failedIds"
      using failed_dependency_spec [OF noempty, of failedIds] ed by simp
    then have all: "\<forall>dep \<in> set (?d i). ?s m dep = Some ready"
      using I(3) deps by auto
    let ?m1 = "runtimeContext (re_descriptor e) (m_dispatch (RUNTIME_BOOTSTRAPPING i) m)"
    obtain res m' where r: "runVoidRuntimeOperation w i (CallBootstrap i) ?m1 = (res, m')"
      by (cases "runVoidRuntimeOperation w i (CallBootstrap i) ?m1")
    then have m': "m' = await_call w (CallBootstrap i) ?m1" and id: "or_runtimeId res = i"
      by (auto simp: runVoidRuntimeOperation_def Let_def failure_result_def split: sum.splits)
    show ?thesis
    proof (cases "or_success res")
      case True
      with None e r have one: "bootstrap_one w i (results, failedIds, m) =
          (results @ [res], failedIds,
           emitEvent (RuntimeStatusChanged i ready) (m_dispatch (RUNTIME_READY i) m'))"
        by (simp add: bootstrap_one_def)
      show ?thesis
        unfolding one m' using here all d fresh id
        by (intro step) (auto simp: entry_deps_action)
    next
      case False
      with None e r have one: "bootstrap_one w i (results, failedIds, m) =
          (results @ [res], set_add i failedIds,
           emitEvent (RuntimeStatusChanged i failed)
             (m_dispatch (RUNTIME_FAILED i (error_or res ''mobile.lifecycle.bootstrapFailed''))
                (invalidate_runtime i m')))"
        by (simp add: bootstrap_one_def)
      show ?thesis
        unfolding one m' using here all d fresh id
        by (intro step) (auto simp: entry_deps_action entry_status_update failure_patch_def)
    qed
  qed
qed

lemma ordered_split:
  assumes "graph_ordered st" and "ls_bootOrder st = pre @ i # suf"
  shows "i \<notin> set pre" "entry_status st i \<noteq> None" "set (entry_deps st i) \<subseteq> set pre"
    "\<forall>j \<in> set pre. i \<notin> set (entry_deps st j)"
proof -
  have d: "deps_first (entry_adjacency st) (pre @ i # suf)" and dist: "distinct (pre @ i # suf)"
    using assms by (simp_all add: graph_ordered_def)
  show "i \<notin> set pre" using dist by simp
  show "entry_status st i \<noteq> None"
    using assms by (auto simp: graph_ordered_def entry_status_def)
  show "set (entry_deps st i) \<subseteq> set pre"
    using d [unfolded deps_first_def, rule_format, of "length pre"]
    by (simp add: deps_of_entry_adjacency)
  show "\<forall>j \<in> set pre. i \<notin> set (entry_deps st j)"
  proof
    fix j assume "j \<in> set pre"
    then obtain n where n: "n < length pre" "pre ! n = j" by (auto simp: in_set_conv_nth)
    then have "set (entry_deps st j) \<subseteq> set (take n pre)"
      using d [unfolded deps_first_def, rule_format, of n]
      by (simp add: deps_of_entry_adjacency nth_append)
    then show "i \<notin> set (entry_deps st j)" using dist in_set_takeD [of i n pre] by auto
  qed
qed

lemma boot_inv_fold:
  assumes "graph_ordered (mk_state m0)" and "[] \<notin> set (ls_bootOrder (mk_state m0))"
  shows "ls_bootOrder (mk_state m0) = pre @ suf \<Longrightarrow> boot_inv m0 pre ls \<Longrightarrow>
    boot_inv m0 (pre @ suf) (fold (bootstrap_one w) suf ls)"
proof (induction suf arbitrary: pre ls)
  case Nil
  then show ?case by simp
next
  case (Cons i suf)
  obtain results failedIds m where ls: "ls = (results, failedIds, m)" by (cases ls)
  note o = ordered_split [OF assms(1) Cons.prems(1)]
  have "[] \<notin> set pre" using assms(2) Cons.prems(1) by simp
  then have "boot_inv m0 (pre @ [i]) (bootstrap_one w i ls)"
    using boot_inv_step [OF Cons.prems(2) [unfolded ls] o(1-3) _ o(4)] by (simp add: ls)
  with Cons.IH [of "pre @ [i]"] Cons.prems(1) show ?case by simp
qed

text \<open>
  C10. Bootstrapping an installed graph, whatever the hooks do: the hooks of exactly the runtimes
  whose dependencies all became ready are called, once each, in boot order; every runtime ends ready
  or failed, with one result each in boot order; a ready runtime has only ready dependencies; and the
  kernel is active.  The source reads an empty runtime id as no failed dependency, so runtime ids are
  assumed not to be empty.
\<close>

theorem bootstrap_respects_dependencies:
  assumes "graph_ordered (mk_state m)" and "[] \<notin> set (ls_bootOrder (mk_state m))"
    and "bootstrapRuntimes w m = (Inr results, m')"
  shows "let order = ls_bootOrder (mk_state m); deps = entry_deps (mk_state m);
             status = entry_status (mk_state m') in
    ls_phase (mk_state m') = ACTIVE \<and> map or_runtimeId results = order
    \<and> (\<forall>i \<in> set order. status i = Some ready \<or> status i = Some failed)
    \<and> (\<forall>i \<in> set order. status i = Some ready \<longrightarrow> (\<forall>dep \<in> set (deps i). status dep = Some ready))
    \<and> mk_calls m' = mk_calls m @ map CallBootstrap
        (filter (\<lambda>i. \<forall>dep \<in> set (deps i). status dep = Some ready) order)"
proof -
  let ?m0 = "m_dispatch BEGIN_BOOTSTRAP m"
  have start: "boot_inv ?m0 [] ([], [], ?m0)" by (simp add: boot_inv_def)
  obtain rs ids m2 where f: "fold (bootstrap_one w) (ls_bootOrder (mk_state ?m0)) ([], [], ?m0) = (rs, ids, m2)"
    by (cases "fold (bootstrap_one w) (ls_bootOrder (mk_state ?m0)) ([], [], ?m0)")
  have g: "graph_ordered (mk_state ?m0)"
    using assms(1) graph.R_phase [of BEGIN_BOOTSTRAP m] by (simp add: keeps_graph_def)
  have same: "entry_deps (mk_state ?m0) = entry_deps (mk_state m)" "mk_calls ?m0 = mk_calls m"
    "ls_bootOrder (mk_state ?m0) = ls_bootOrder (mk_state m)"
    by (auto simp: entry_deps_def)
  have inv: "boot_inv ?m0 (ls_bootOrder (mk_state m)) (rs, ids, m2)"
    using boot_inv_fold [OF g _ _ start, of "ls_bootOrder (mk_state m)" w] assms(2) f same by simp
  have out: "results = rs" "entry_status (mk_state m') = entry_status (mk_state m2)"
    "mk_calls m' = mk_calls m2" "ls_phase (mk_state m') = ACTIVE"
    using assms(3) f
    by (cases rule: assert_cases [of BOOTSTRAPPING m];
        auto simp: bootstrapRuntimes_def op_then_def op_bind_def Let_def entry_status_def)+
  show ?thesis
    unfolding Let_def out using inv unfolding boot_inv_def prod.case same by auto
qed

definition demo_stopped :: mobile where
  "demo_stopped = enqueueOperation demo_world [Queued (Stop app_unmount)] demo_mobile"

lemma demo_stopped_ordered: "graph_ordered (mk_state demo_stopped)"
  using history_graph_ordered [of demo_world "demo_history @ [Queued (Stop app_unmount)]"]
  by (simp add: demo_stopped_def demo_mobile_def enqueueOperation_def)

theorem bootstrap_respects_dependencies_witness:
  "\<exists>results m'. graph_ordered (mk_state demo_stopped)
     \<and> bootstrapRuntimes demo_world demo_stopped = (Inr results, m')
     \<and> ls_phase (mk_state m') = ACTIVE \<and> map or_runtimeId results = [''store'', ''chat'']"
proof -
  have order: "ls_bootOrder (mk_state demo_stopped) = [''store'', ''chat'']" by code_simp
  have "isl (fst (bootstrapRuntimes demo_world demo_stopped)) = False" by code_simp
  then obtain results m' where b: "bootstrapRuntimes demo_world demo_stopped = (Inr results, m')"
    by (metis prod.collapse sum.collapse(2))
  have "[] \<notin> set (ls_bootOrder (mk_state demo_stopped))" by (simp add: order)
  from bootstrap_respects_dependencies [OF demo_stopped_ordered this b]
  show ?thesis using b demo_stopped_ordered by (simp add: Let_def order)
qed

section \<open>Teardown\<close>

definition started :: "runtime_status option \<Rightarrow> bool" where
  "started s \<longleftrightarrow> s \<noteq> None \<and> s \<noteq> Some pending \<and> s \<noteq> Some torn_down"

lemma teardown_one_skip:
  assumes "\<not> started (entry_status (mk_state m) i)"
  shows "teardown_one w tc i (results, m) = (results, m)"
  using assms by (auto simp: teardown_one_def started_def entry_status_def split: option.splits)

lemma teardown_one_live:
  assumes "started (entry_status (mk_state m) i)"
  obtains res msg where "or_runtimeId res = i"
    "teardown_one w tc i (results, m) =
       (results @ [res],
        m_dispatch (if or_success res then RUNTIME_TORN_DOWN i else RUNTIME_TEARDOWN_FAILED i msg)
          (await_call w (CallTeardown i tc) (m_dispatch (RUNTIME_TEARING_DOWN i) m)))"
proof -
  let ?m1 = "m_dispatch (RUNTIME_TEARING_DOWN i) m"
  obtain e where e: "map_get (ls_runtimes (mk_state m)) i = Some e"
    "\<not> (re_status e = pending \<or> re_status e = torn_down)"
    using assms by (auto simp: started_def entry_status_def)
  obtain res m2 where r: "runTeardownOperation w i (CallTeardown i tc) ?m1 = (res, m2)"
    by (cases "runTeardownOperation w i (CallTeardown i tc) ?m1")
  then have m2: "m2 = await_call w (CallTeardown i tc) ?m1" and id: "or_runtimeId res = i"
    by (auto simp: runTeardownOperation_def Let_def failure_result_def split: sum.splits)
  show thesis
    by (rule that [of res "error_or res ''mobile.lifecycle.teardownFailed''"])
      (use e r id in \<open>simp_all add: teardown_one_def m2\<close>)
qed

lemma teardown_one_status:
  assumes "started (entry_status (mk_state m) i)"
  shows "entry_status (mk_state (m_dispatch
      (if ok then RUNTIME_TORN_DOWN i else RUNTIME_TEARDOWN_FAILED i msg)
      (await_call w c (m_dispatch (RUNTIME_TEARING_DOWN i) m)))) j =
    (if j = i then Some (if ok then torn_down else failed) else entry_status (mk_state m) j)"
  using assms
  by (cases ok) (auto simp: started_def entry_status_update failure_patch_def)

text \<open>The teardown loop over distinct runtimes, in terms of the statuses it started from.\<close>

lemma teardown_fold:
  "distinct xs \<Longrightarrow> fold (teardown_one w tc) xs (results, m) = (results', m') \<Longrightarrow>
    mk_calls m' = mk_calls m @ map (\<lambda>i. CallTeardown i tc)
        (filter (\<lambda>i. started (entry_status (mk_state m) i)) xs)
    \<and> (\<exists>new. results' = results @ new
         \<and> map or_runtimeId new = filter (\<lambda>i. started (entry_status (mk_state m) i)) xs
         \<and> (\<forall>res \<in> set new. entry_status (mk_state m') (or_runtimeId res) =
              Some (if or_success res then torn_down else failed)))
    \<and> (\<forall>j. j \<notin> set xs \<or> \<not> started (entry_status (mk_state m) j) \<longrightarrow>
         entry_status (mk_state m') j = entry_status (mk_state m) j)"
proof (induction xs arbitrary: results m)
  case Nil
  then show ?case by simp
next
  case (Cons i xs)
  have i: "i \<notin> set xs" and xs: "distinct xs" using Cons.prems(1) by auto
  show ?case
  proof (cases "started (entry_status (mk_state m) i)")
    case False
    with Cons.prems(2) have "fold (teardown_one w tc) xs (results, m) = (results', m')"
      by (simp add: teardown_one_skip)
    from Cons.IH [OF xs this] False show ?thesis by auto
  next
    case True
    obtain res msg where res: "or_runtimeId res = i"
      and one: "teardown_one w tc i (results, m) = (results @ [res],
        m_dispatch (if or_success res then RUNTIME_TORN_DOWN i else RUNTIME_TEARDOWN_FAILED i msg)
          (await_call w (CallTeardown i tc) (m_dispatch (RUNTIME_TEARING_DOWN i) m)))"
      using teardown_one_live [OF True] by metis
    define m1 where "m1 = m_dispatch (if or_success res then RUNTIME_TORN_DOWN i
        else RUNTIME_TEARDOWN_FAILED i msg)
      (await_call w (CallTeardown i tc) (m_dispatch (RUNTIME_TEARING_DOWN i) m))"
    have st: "entry_status (mk_state m1) j =
        (if j = i then Some (if or_success res then torn_down else failed) else entry_status (mk_state m) j)"
      for j unfolding m1_def by (rule teardown_one_status [OF True])
    have calls: "mk_calls m1 = mk_calls m @ [CallTeardown i tc]" by (simp add: m1_def)
    have f: "fold (teardown_one w tc) xs (results @ [res], m1) = (results', m')"
      using Cons.prems(2) one by (simp add: m1_def)
    have flt: "filter (\<lambda>j. started (entry_status (mk_state m1) j)) xs =
        filter (\<lambda>j. started (entry_status (mk_state m) j)) xs"
      using i by (intro filter_cong) (auto simp: st)
    note ih = Cons.IH [OF xs f, unfolded flt calls]
    obtain new where new: "results' = (results @ [res]) @ new"
      "map or_runtimeId new = filter (\<lambda>j. started (entry_status (mk_state m) j)) xs"
      "\<forall>r \<in> set new. entry_status (mk_state m') (or_runtimeId r) =
         Some (if or_success r then torn_down else failed)" using ih by blast
    have same: "\<forall>j. j \<notin> set xs \<or> \<not> started (entry_status (mk_state m1) j) \<longrightarrow>
        entry_status (mk_state m') j = entry_status (mk_state m1) j" using ih by blast
    have "entry_status (mk_state m') i = Some (if or_success res then torn_down else failed)"
      using same i st by simp
    then have "\<exists>new. results' = results @ new
        \<and> map or_runtimeId new = filter (\<lambda>j. started (entry_status (mk_state m) j)) (i # xs)
        \<and> (\<forall>r \<in> set new. entry_status (mk_state m') (or_runtimeId r) =
             Some (if or_success r then torn_down else failed))"
      using new res True by (intro exI [of _ "res # new"]) simp
    moreover have "\<forall>j. j \<notin> set (i # xs) \<or> \<not> started (entry_status (mk_state m) j) \<longrightarrow>
        entry_status (mk_state m') j = entry_status (mk_state m) j"
    proof (intro allI impI)
      fix j assume j: "j \<notin> set (i # xs) \<or> \<not> started (entry_status (mk_state m) j)"
      then have "entry_status (mk_state m1) j = entry_status (mk_state m) j" using True st by auto
      with j same show "entry_status (mk_state m') j = entry_status (mk_state m) j" by auto
    qed
    ultimately show ?thesis using ih True by simp
  qed
qed

lemma teardown_spec:
  assumes "graph_ordered (mk_state m)" and "teardownRuntimes w tc m = (Inr res, m')"
  shows "let live = filter (\<lambda>i. started (entry_status (mk_state m) i))
                           (rev (ls_bootOrder (mk_state m))) in
    mk_calls m' = mk_calls m @ map (\<lambda>i. CallTeardown i tc) live
    \<and> map or_runtimeId (at_results res) = live
    \<and> (ls_phase (mk_state m') = COLD \<longleftrightarrow> (\<forall>r \<in> set (at_results res). or_success r))
    \<and> (ls_phase (mk_state m') = COLD \<longrightarrow> (\<forall>i. \<not> started (entry_status (mk_state m') i)))"
proof -
  let ?m1 = "m_dispatch BEGIN_TEARDOWN (invalidate_all m)"
  let ?order = "rev (ls_bootOrder (mk_state m))"
  let ?live = "filter (\<lambda>i. started (entry_status (mk_state m) i)) ?order"
  have same: "ls_bootOrder (mk_state ?m1) = ls_bootOrder (mk_state m)"
    "\<And>i. entry_status (mk_state ?m1) i = entry_status (mk_state m) i" "mk_calls ?m1 = mk_calls m"
    by (simp_all add: entry_status_def)
  obtain rs m2 where f: "fold (teardown_one w tc) ?order ([], ?m1) = (rs, m2)"
    by (cases "fold (teardown_one w tc) ?order ([], ?m1)")
  have out: "at_results res = rs" "mk_calls m' = mk_calls m2"
    "\<And>i. entry_status (mk_state m') i = entry_status (mk_state m2) i"
    "ls_phase (mk_state m') = (if list_all or_success rs then COLD else TEARDOWN_FAILED)"
    using assms(2) f same(1)
    by (cases rule: assert_cases [of TEARDOWN m];
        auto simp: teardownRuntimes_def op_then_def op_bind_def op_read_def Let_def entry_status_def
          reverseTeardownOrder_def)+
  have "distinct ?order" using assms(1) by (simp add: graph_ordered_def)
  note fold = teardown_fold [OF this f, unfolded same append_Nil]
  have rs: "map or_runtimeId rs = ?live" using fold by auto
  have "\<not> started (entry_status (mk_state m2) i)" if ok: "list_all or_success rs" for i
  proof (cases "i \<in> set ?live")
    case True
    then obtain r where "r \<in> set rs" "or_runtimeId r = i" using rs by (metis imageE set_map)
    with ok fold show ?thesis by (auto simp: list_all_iff started_def)
  next
    case False
    have "started (entry_status (mk_state m) i) \<Longrightarrow> i \<in> set (ls_bootOrder (mk_state m))"
      using assms(1) by (auto simp: graph_ordered_def started_def entry_status_def)
    then have "\<not> started (entry_status (mk_state m) i)" using False by auto
    with fold show ?thesis by simp
  qed
  then show ?thesis
    unfolding Let_def out(1-3) using fold rs out(4) by (simp add: list_all_iff)
qed

text \<open>
  Tearing down an installed graph, whatever the hooks do: the teardown hooks of exactly the
  runtimes that were started and not torn down are called, once each, in reverse boot order, so a
  runtime is torn down before anything it depends on; the kernel ends \<^verbatim>\<open>COLD\<close> exactly when all
  of them succeeded, and then no started runtime is left.
\<close>

theorem teardown_reverses_bootstrap:
  assumes "graph_ordered (mk_state m)" and "teardownRuntimes w tc m = (Inr res, m')"
  shows "let live = filter (\<lambda>i. started (entry_status (mk_state m) i))
                           (rev (ls_bootOrder (mk_state m))) in
    mk_calls m' = mk_calls m @ map (\<lambda>i. CallTeardown i tc) live
    \<and> map or_runtimeId (at_results res) = live
    \<and> (ls_phase (mk_state m') = COLD \<longleftrightarrow> (\<forall>r \<in> set (at_results res). or_success r))
    \<and> (ls_phase (mk_state m') = COLD \<longrightarrow> (\<forall>i. \<not> started (entry_status (mk_state m') i)))"
  by (rule teardown_spec [OF assms])

lemma demo_mobile_ordered: "graph_ordered (mk_state demo_mobile)"
  by (simp add: demo_mobile_def history_graph_ordered)

theorem teardown_reverses_bootstrap_witness:
  "\<exists>res m'. graph_ordered (mk_state demo_mobile)
     \<and> teardownRuntimes demo_world \<lparr>tc_reason = logout, tc_draftDisposition = None\<rparr> demo_mobile = (Inr res, m')
     \<and> map or_runtimeId (at_results res) = [''chat'', ''store'']"
proof -
  let ?tc = "\<lparr>tc_reason = logout, tc_draftDisposition = None\<rparr>"
  have live: "filter (\<lambda>i. started (entry_status (mk_state demo_mobile) i))
      (rev (ls_bootOrder (mk_state demo_mobile))) = [''chat'', ''store'']" by code_simp
  have "isl (fst (teardownRuntimes demo_world ?tc demo_mobile)) = False" by code_simp
  then obtain res m' where t: "teardownRuntimes demo_world ?tc demo_mobile = (Inr res, m')"
    by (metis prod.collapse sum.collapse(2))
  from teardown_reverses_bootstrap [OF demo_mobile_ordered t]
  show ?thesis using t demo_mobile_ordered by (simp add: Let_def live)
qed

end
