(* ===== verification/Mobile_Scope.thy ===== *)
theory Mobile_Scope
  imports Mobile_Graph
begin

text \<open>
  Scope transitions and launch states of the mobile lifecycle kernel.  Replacing the station or the
  actor, logging out and revocation hand the kernel a mutation of their owner; the kernel runs it
  only behind a new generation, fenced projections and a completed teardown.  The second part
  determines which launch states a resolved target can be reached from.
\<close>

section \<open>Calls that are not the owner's mutation\<close>

definition no_scope :: "mobile \<Rightarrow> mobile \<Rightarrow> bool" where
  "no_scope m m' \<longleftrightarrow> (\<exists>cs. mk_calls m' = mk_calls m @ cs \<and> (\<forall>r. ScopeTransition r \<notin> set cs))"

lemma no_scope_same: "mk_calls m' = mk_calls m \<Longrightarrow> no_scope m m'"
  by (simp add: no_scope_def)

interpretation quiet: phase_op_relation no_scope
proof (unfold_locales, goal_cases)
  case (2 a b c)
  then show ?case unfolding no_scope_def by force
next
  case (4 c m)
  then show ?case by (auto simp: no_scope_def)
next
  case (11 m n reason adv)
  then show ?case
    using apply_fields' [of n reason adv m]
    by (cases "fst (applyGeneration n reason adv m)") (auto intro: no_scope_same)
next
  case (12 m ds)
  then show ?case using register_fields' [of ds m] by (auto intro: no_scope_same)
next
  case (13 m)
  then show ?case using reset_fields' [of m] by (auto intro: no_scope_same)
qed (auto intro!: no_scope_same simp: env_step_fields)

lemma unique_split:
  "zs @ a # cs = xs @ b # ys \<Longrightarrow> \<forall>x \<in> set zs. \<not> P x \<Longrightarrow> \<forall>x \<in> set cs. \<not> P x \<Longrightarrow> P a \<Longrightarrow> P b \<Longrightarrow>
     zs = xs \<and> a = b \<and> cs = ys"
proof (induction zs arbitrary: xs)
  case Nil
  then show ?case by (cases xs) auto
next
  case (Cons z zs)
  then show ?case by (cases xs) auto
qed

lemma op_bind_cases:
  assumes "op_bind f g m = (out, m')"
  obtains (failed) err where "f m = (Inl err, m')" "out = Inl err"
  | (continued) x m1 where "f m = (Inr x, m1)" "g x m1 = (out, m')"
  using assms by (auto simp: op_bind_def split: prod.splits sum.splits)

lemma op_then_cases:
  assumes "op_then f g m = (out, m')"
  obtains (failed) err where "f m = (Inl err, m')" "out = Inl err"
  | (continued) m1 where "f m = (Inr (), m1)" "g m1 = (out, m')"
  using assms unfolding op_then_def by (rule op_bind_cases) auto

section \<open>Fence and teardown\<close>

lemma fence_teardown_steps:
  assumes "fenceAndTeardown w tc m = (Inr res, m')"
  obtains g m3 where "gen m < g" "gen m < gen m3"
    "mk_calls m3 = mk_calls m @ [AdvanceGeneration, FenceProjections g (tc_reason tc)]"
    "ls_phase (mk_state m3) = ls_phase (mk_state m)"
    "ls_bootOrder (mk_state m3) = ls_bootOrder (mk_state m)"
    "\<And>i. entry_status (mk_state m3) i = entry_status (mk_state m) i"
    "graph_ordered (mk_state m) \<Longrightarrow> graph_ordered (mk_state m3)"
    "(if ls_phase (mk_state m3) = COLD then op_return emptyTeardownResult m3
      else teardownRuntimes w tc m3) = (Inr res, m')"
proof -
  obtain m0 n m1 g m2 m3 where r: "requireGraphDependencies m = (Inr (), m0)"
    and a: "advanceGeneration w m0 = (Inr n, m1)"
    and g: "applyGeneration n (tc_reason tc) True m1 = (Inr g, m2)"
    and f: "fenceProjections w g (tc_reason tc) m2 = (Inr (), m3)"
    and t: "(if ls_phase (mk_state m3) = COLD then op_return emptyTeardownResult m3
      else teardownRuntimes w tc m3) = (Inr res, m')"
    using assms unfolding fenceAndTeardown_def
    by (elim op_then_Inr [of requireGraphDependencies] op_bind_Inr [of "advanceGeneration w"]
        op_bind_Inr [of "applyGeneration _ _ _"] op_then_Inr [of "fenceProjections _ _ _"])
  have m0: "m0 = m"
    using r by (auto simp: requireGraphDependencies_def op_return_def op_throw_def split: option.splits)
  have m1: "m1 = await_call w AdvanceGeneration m"
    using a m0 by (auto simp: advanceGeneration_def await_generation_def Let_def)
  have m3: "m3 = call_now (FenceProjections g (tc_reason tc)) m2"
    using f by (auto simp: fenceProjections_def Let_def split: option.splits)
  have grow: "gen m \<le> gen m1" unfolding m1 using grows.R_await [of AdvanceGeneration m w]
    by (simp add: gen_grows_def)
  have graph: "graph_ordered (mk_state m) \<Longrightarrow> graph_ordered (mk_state m3)"
    using graph.R_await [of AdvanceGeneration m w] graph.R_apply [of m1 n "tc_reason tc" True] g
    by (simp add: keeps_graph_def m1 m3)
  note st = apply_fields [OF g, simplified]
  show thesis
    by (rule that [OF _ _ _ _ _ _ graph t, of g])
      (use grow st in \<open>auto simp: m3 m1 gen_def entry_status_def [of "ls_generation_update _ _"]
        entry_status_def [symmetric]\<close>)
qed

lemma fence_teardown_spec:
  assumes "graph_ordered (mk_state m)" and "fenceAndTeardown w tc m = (Inr res, m')"
  shows "\<exists>g. gen m < g \<and> mk_calls m' = mk_calls m @
      [AdvanceGeneration, FenceProjections g (tc_reason tc)] @
      (if ls_phase (mk_state m) = COLD then []
       else map (\<lambda>i. CallTeardown i tc)
              (filter (\<lambda>i. started (entry_status (mk_state m) i)) (rev (ls_bootOrder (mk_state m)))))"
    and "at_allSuccessful res \<Longrightarrow> ls_phase (mk_state m') = COLD"
    and "at_allSuccessful res \<Longrightarrow> ls_phase (mk_state m) \<noteq> COLD \<Longrightarrow>
      \<not> started (entry_status (mk_state m') i)"
proof -
  obtain g m3 where g: "gen m < g"
    and calls: "mk_calls m3 = mk_calls m @ [AdvanceGeneration, FenceProjections g (tc_reason tc)]"
    and phase: "ls_phase (mk_state m3) = ls_phase (mk_state m)"
    and order: "ls_bootOrder (mk_state m3) = ls_bootOrder (mk_state m)"
    and status: "\<And>i. entry_status (mk_state m3) i = entry_status (mk_state m) i"
    and graph: "graph_ordered (mk_state m3)"
    and t: "(if ls_phase (mk_state m3) = COLD then op_return emptyTeardownResult m3
      else teardownRuntimes w tc m3) = (Inr res, m')"
    using fence_teardown_steps [OF assms(2)] assms(1) by metis
  have "(\<exists>g. gen m < g \<and> mk_calls m' = mk_calls m @
      [AdvanceGeneration, FenceProjections g (tc_reason tc)] @
      (if ls_phase (mk_state m) = COLD then []
       else map (\<lambda>i. CallTeardown i tc)
              (filter (\<lambda>i. started (entry_status (mk_state m) i)) (rev (ls_bootOrder (mk_state m))))))
    \<and> (at_allSuccessful res \<longrightarrow> ls_phase (mk_state m') = COLD)
    \<and> (at_allSuccessful res \<longrightarrow> ls_phase (mk_state m) \<noteq> COLD \<longrightarrow>
      \<not> started (entry_status (mk_state m') i))"
  proof (cases "ls_phase (mk_state m) = COLD")
    case True
    with t phase calls g show ?thesis by (auto simp: op_return_def)
  next
    case False
    with t phase have td: "teardownRuntimes w tc m3 = (Inr res, m')" by simp
    note spec = teardown_spec [OF graph td, unfolded Let_def order status]
    have "at_allSuccessful res \<longrightarrow> ls_phase (mk_state m') = COLD"
      using teardown_phase [OF td] by simp
    with spec calls g False show ?thesis by auto
  qed
  then show "\<exists>g. gen m < g \<and> mk_calls m' = mk_calls m @
      [AdvanceGeneration, FenceProjections g (tc_reason tc)] @
      (if ls_phase (mk_state m) = COLD then []
       else map (\<lambda>i. CallTeardown i tc)
              (filter (\<lambda>i. started (entry_status (mk_state m) i)) (rev (ls_bootOrder (mk_state m)))))"
    and "at_allSuccessful res \<Longrightarrow> ls_phase (mk_state m') = COLD"
    and "at_allSuccessful res \<Longrightarrow> ls_phase (mk_state m) \<noteq> COLD \<Longrightarrow>
      \<not> started (entry_status (mk_state m') i)"
    by blast+
qed

section \<open>The owner's mutation\<close>

lemma enter_fields:
  assumes "enterScopeLaunchTransition reason m = (Inr (), m1)"
  shows "mk_calls m1 = mk_calls m" "gen m1 = gen m" "ls_phase (mk_state m1) = ls_phase (mk_state m)"
    "entry_status (mk_state m1) i = entry_status (mk_state m) i"
    "ls_bootOrder (mk_state m1) = ls_bootOrder (mk_state m)"
    "graph_ordered (mk_state m) \<Longrightarrow> graph_ordered (mk_state m1)"
proof -
  have "m1 = snd (enterScopeLaunchTransition reason m)" using assms by simp
  then have "m1 = m \<or> (\<exists>t. m1 = snd (transitionLaunchState t m))"
    unfolding enterScopeLaunchTransition_def launch_when_def op_return_def
    by (cases "ls_launchState (mk_state m) = shell") auto
  then have "m1 = m \<or> (\<exists>t. m1 = env_step (RequestLaunch t) m)" by simp
  then show "mk_calls m1 = mk_calls m" "gen m1 = gen m"
    "ls_phase (mk_state m1) = ls_phase (mk_state m)"
    "entry_status (mk_state m1) i = entry_status (mk_state m) i"
    "ls_bootOrder (mk_state m1) = ls_bootOrder (mk_state m)"
    by (auto simp: gen_def env_step_fields simp del: env_step.simps)
  show "graph_ordered (mk_state m) \<Longrightarrow> graph_ordered (mk_state m1)"
    using graph.keeps_enter [of reason, THEN keepsD, of m] assms by (simp add: keeps_graph_def)
qed

lemma no_scope_absurd:
  "no_scope m m' \<Longrightarrow> mk_calls m' = mk_calls m @ xs @ ScopeTransition r # ys \<Longrightarrow> False"
  by (auto simp: no_scope_def)

lemma quietD: "keeps no_scope f \<Longrightarrow> f m = (out, m') \<Longrightarrow> no_scope m m'"
  using keepsD [of no_scope f m] by simp

lemma scope_reaches:
  assumes "transitionScope w reason restart draft m = (out, m')" and "no_scope m m' \<Longrightarrow> False"
  obtains m1 res m2 where "enterScopeLaunchTransition reason m = (Inr (), m1)"
    "fenceAndTeardown w \<lparr>tc_reason = reason, tc_draftDisposition = draft\<rparr> m1 = (Inr res, m2)"
    "at_allSuccessful res"
    "op_then (run_transition w reason)
       (op_then (if restart then op_then reset (startRuntimeGraphNow w) else op_return ())
          (reconcileLaunchStateAfterRuntime w reason)) m2 = (out, m')"
  using assms(1) unfolding transitionScope_def
proof (cases rule: op_then_cases)
  case (failed err)
  then show ?thesis using assms(2) quietD [OF quiet.keeps_enter] by blast
next
  case (continued m1)
  have q1: "no_scope m m1" using continued(1) quietD [OF quiet.keeps_enter] by blast
  from continued(2) show ?thesis
  proof (cases rule: op_bind_cases)
    case (failed err)
    then show ?thesis
      using assms(2) q1 quietD [OF quiet.keeps_fence_teardown] quiet.R_trans by blast
  next
    case fence: (continued res m2)
    have q2: "no_scope m m2"
      using fence(1) q1 quietD [OF quiet.keeps_fence_teardown] quiet.R_trans by blast
    show ?thesis
    proof (cases "at_allSuccessful res")
      case True
      then have "require_complete res m2 = (Inr (), m2)" by (simp add: require_complete_def op_return_def)
      with fence(2) True show ?thesis
        by (intro that [OF continued(1) fence(1)]) (simp_all add: op_then_def op_bind_def)
    next
      case False
      with fence(2) have "m' = m2"
        by (simp add: require_complete_def op_then_def op_bind_def op_throw_def)
      with q2 assms(2) show ?thesis by blast
    qed
  qed
qed

lemma mutation_calls:
  assumes "op_then (run_transition w reason) rest m2 = (out, m')" and "keeps no_scope rest"
  shows "\<exists>cs. mk_calls m' = mk_calls m2 @ ScopeTransition reason # cs
    \<and> (\<forall>r. ScopeTransition r \<notin> set cs)"
proof -
  have calls: "mk_calls (snd (run_transition w reason m2)) = mk_calls m2 @ [ScopeTransition reason]"
    by (simp add: run_transition_def Let_def split: option.split)
  from assms(1) show ?thesis
  proof (cases rule: op_then_cases)
    case (failed err)
    with calls show ?thesis by auto
  next
    case (continued m3)
    then have "mk_calls m3 = mk_calls m2 @ [ScopeTransition reason]" using calls by simp
    moreover have "no_scope m3 m'" using continued(2) quietD [OF assms(2)] by blast
    ultimately show ?thesis by (auto simp: no_scope_def)
  qed
qed

text \<open>
  C4. In a scope transition the owner's mutation runs only behind the fence.  In any run of
  \<^verbatim>\<open>transitionScope\<close> on an installed graph, whether it fulfills or rejects, the mutation is called
  at most once, with a generation advanced beyond the one before, the projections fenced at it and,
  unless the graph was already cold, the teardown hook of every started runtime called before; when
  it starts, the kernel is \<^verbatim>\<open>COLD\<close> and, unless it already was, no runtime is left started.
\<close>

theorem scope_mutation_behind_fence:
  assumes "graph_ordered (mk_state m)"
    and "transitionScope w reason restart draft m = (out, m')"
    and "mk_calls m' = mk_calls m @ xs @ ScopeTransition r # ys"
  shows "r = reason \<and> (\<forall>r'. ScopeTransition r' \<notin> set (xs @ ys)) \<and> AdvanceGeneration \<in> set xs
    \<and> (\<exists>g. ls_generation (mk_state m) < g \<and> FenceProjections g reason \<in> set xs)
    \<and> (\<forall>i. ls_phase (mk_state m) \<noteq> COLD \<and> started (entry_status (mk_state m) i) \<longrightarrow>
         CallTeardown i \<lparr>tc_reason = reason, tc_draftDisposition = draft\<rparr> \<in> set xs)
    \<and> (\<exists>m2. mk_calls m2 = mk_calls m @ xs \<and> ls_phase (mk_state m2) = COLD
         \<and> (ls_phase (mk_state m) \<noteq> COLD \<longrightarrow> (\<forall>i. \<not> started (entry_status (mk_state m2) i)))
         \<and> op_then (run_transition w reason)
            (op_then (if restart then op_then reset (startRuntimeGraphNow w) else op_return ())
               (reconcileLaunchStateAfterRuntime w reason)) m2 = (out, m'))"
proof -
  let ?tc = "\<lparr>tc_reason = reason, tc_draftDisposition = draft\<rparr>"
  let ?rest = "op_then (if restart then op_then reset (startRuntimeGraphNow w) else op_return ())
               (reconcileLaunchStateAfterRuntime w reason)"
  have quiet_rest: "keeps no_scope ?rest" by (cases restart) (auto intro!: quiet.keeps_parts)
  have absurd: False if "no_scope m m'" using no_scope_absurd [OF that assms(3)] .
  obtain m1 res m2 where e: "enterScopeLaunchTransition reason m = (Inr (), m1)"
    and f: "fenceAndTeardown w ?tc m1 = (Inr res, m2)" and ok: "at_allSuccessful res"
    and t: "op_then (run_transition w reason) ?rest m2 = (out, m')"
    using assms(2) absurd by (rule scope_reaches)
  note enter = enter_fields [OF e]
  note fence = fence_teardown_spec [OF enter(6) [OF assms(1)] f, unfolded enter]
  obtain g where g: "gen m < g" and calls: "mk_calls m2 = mk_calls m @
      [AdvanceGeneration, FenceProjections g reason] @
      (if ls_phase (mk_state m) = COLD then []
       else map (\<lambda>i. CallTeardown i ?tc)
              (filter (\<lambda>i. started (entry_status (mk_state m) i)) (rev (ls_bootOrder (mk_state m)))))"
    using fence(1) by auto
  obtain cs where cs: "mk_calls m' = mk_calls m2 @ ScopeTransition reason # cs"
    "\<forall>r. ScopeTransition r \<notin> set cs"
    using mutation_calls [OF t quiet_rest] by blast
  define zs where "zs = [AdvanceGeneration, FenceProjections g reason] @
      (if ls_phase (mk_state m) = COLD then []
       else map (\<lambda>i. CallTeardown i ?tc)
              (filter (\<lambda>i. started (entry_status (mk_state m) i)) (rev (ls_bootOrder (mk_state m)))))"
  have "zs = xs \<and> ScopeTransition reason = ScopeTransition r \<and> cs = ys"
    using cs assms(3) calls
    by (intro unique_split [where P = "\<lambda>c. \<exists>r. c = ScopeTransition r"]) (auto simp: zs_def split: if_splits)
  then have eq: "xs = zs" "r = reason" "ys = cs" by auto
  have live: "i \<in> set (ls_bootOrder (mk_state m))" if "started (entry_status (mk_state m) i)" for i
    using that assms(1) by (auto simp: graph_ordered_def started_def entry_status_def)
  show ?thesis
  proof (intro conjI)
    show "\<forall>i. ls_phase (mk_state m) \<noteq> COLD \<and> started (entry_status (mk_state m) i) \<longrightarrow>
         CallTeardown i ?tc \<in> set xs" using live by (auto simp: eq zs_def)
    show "\<exists>m2. mk_calls m2 = mk_calls m @ xs \<and> ls_phase (mk_state m2) = COLD
         \<and> (ls_phase (mk_state m) \<noteq> COLD \<longrightarrow> (\<forall>i. \<not> started (entry_status (mk_state m2) i)))
         \<and> op_then (run_transition w reason) ?rest m2 = (out, m')"
      using calls fence(2,3) ok t by (intro exI [of _ m2]) (auto simp: eq zs_def)
    show "\<forall>r'. ScopeTransition r' \<notin> set (xs @ ys)" using cs(2) by (auto simp: eq zs_def)
  qed (use g in \<open>auto simp: eq zs_def gen_def\<close>)
qed

lemma demo_scope_calls:
  "\<exists>m'. transitionScope demo_world logout True None demo_mobile = (Inr (), m')
     \<and> mk_calls m' = mk_calls demo_mobile @ take 4 (drop 5 (mk_calls m')) @ ScopeTransition logout
         # drop 10 (mk_calls m')"
proof -
  let ?r = "transitionScope demo_world logout True None demo_mobile"
  have "fst ?r = Inr () \<and> mk_calls (snd ?r) = mk_calls demo_mobile @ take 4 (drop 5 (mk_calls (snd ?r)))
      @ ScopeTransition logout # drop 10 (mk_calls (snd ?r))" by code_simp
  then show ?thesis by (metis prod.collapse)
qed

theorem scope_mutation_behind_fence_witness:
  "\<exists>m' xs ys. graph_ordered (mk_state demo_mobile)
     \<and> transitionScope demo_world logout True None demo_mobile = (Inr (), m')
     \<and> mk_calls m' = mk_calls demo_mobile @ xs @ ScopeTransition logout # ys
     \<and> AdvanceGeneration \<in> set xs"
proof -
  obtain m' xs ys where t: "transitionScope demo_world logout True None demo_mobile = (Inr (), m')"
    and calls: "mk_calls m' = mk_calls demo_mobile @ xs @ ScopeTransition logout # ys"
    using demo_scope_calls by blast
  from scope_mutation_behind_fence [OF demo_mobile_ordered t calls]
  show ?thesis using demo_mobile_ordered t calls by blast
qed

end
