(* ===== verification/Mobile_Launch.thy ===== *)
theory Mobile_Launch
  imports Mobile_Scope
begin

text \<open>
  Launch admission of the mobile app: the validity of an authentication session
  (\<^verbatim>\<open>features/auth/mobileAuthIdentity.ts\<close>), the launch state the app asks the lifecycle kernel for
  (\<^verbatim>\<open>resolveMobileLaunchStateFromState\<close> of \<^verbatim>\<open>runtimes/runtimeRegistry.ts\<close>), and how the kernel gets
  there from the launch state it is in.
\<close>

section \<open>Sessions and access decisions\<close>

text \<open>\<^verbatim>\<open>state: number | string\<close> of an access decision.\<close>

datatype access_state = StateNumber jsnum | StateName string

definition ACCESS_DECISION_GRANTED :: access_state where
  "ACCESS_DECISION_GRANTED = StateNumber (Num 3)"

definition isAccessGranted :: "access_state option \<Rightarrow> bool" where
  "isAccessGranted decision \<longleftrightarrow>
     decision = Some ACCESS_DECISION_GRANTED
     \<or> decision = Some (StateName ''ACCESS_DECISION_STATE_GRANTED'')"

record auth_session =
  as_stationPeerId :: string
  as_stationUrl :: string
  as_sessionId :: string
  as_deviceId :: string
  as_lifecycleGeneration :: jsnum
  as_expiresAt :: "string option"
  as_ptid :: string
  as_authenticatedAt :: jsnum

definition positive_generation :: "jsnum \<Rightarrow> bool" where
  "positive_generation n \<longleftrightarrow> (case safe_integer n of None \<Rightarrow> False | Some g \<Rightarrow> 0 < g)"

record auth_scope =
  sc_stationPeerId :: string
  sc_ptid :: string
  sc_deviceId :: string
  sc_lifecycleGeneration :: jsnum

definition mobileAuthScope :: "auth_session \<Rightarrow> string + auth_scope" where
  "mobileAuthScope s =
     (if js_trim (as_stationPeerId s) = [] \<or> js_trim (as_ptid s) = [] \<or> js_trim (as_deviceId s) = []
         \<or> \<not> positive_generation (as_lifecycleGeneration s)
      then Inl ''mobile.auth.missingIdentityScope''
      else Inr \<lparr>sc_stationPeerId = js_trim (as_stationPeerId s), sc_ptid = js_trim (as_ptid s),
                sc_deviceId = js_trim (as_deviceId s),
                sc_lifecycleGeneration = as_lifecycleGeneration s\<rparr>)"

text \<open>
  \<^verbatim>\<open>Date.parse\<close> accepts implementation-defined formats; it is the argument \<open>parse\<close>, \<open>None\<close> being
  \<^verbatim>\<open>NaN\<close>.
\<close>

definition isMobileAuthSessionValid ::
  "(string \<Rightarrow> int option) \<Rightarrow> auth_session option \<Rightarrow> int \<Rightarrow> bool" where
  "isMobileAuthSessionValid parse session now =
     (case session of
        None \<Rightarrow> False
      | Some s \<Rightarrow>
          if js_trim (as_stationPeerId s) = [] \<or> js_trim (as_stationUrl s) = []
             \<or> js_trim (as_sessionId s) = [] \<or> js_trim (as_deviceId s) = []
             \<or> \<not> positive_generation (as_lifecycleGeneration s) \<or> js_trim (as_ptid s) = []
             \<or> as_authenticatedAt s \<in> {NaN, PosInf, NegInf}
          then False
          else if \<not> truthy (as_expiresAt s) then True
          else (case parse (the (as_expiresAt s)) of None \<Rightarrow> False | Some t \<Rightarrow> now < t))"

section \<open>The launch state the app asks for\<close>

definition SHELL_BLOCKING_RUNTIME_IDS :: "string list" where
  "SHELL_BLOCKING_RUNTIME_IDS = [''secure-storage'', ''station'', ''auth'', ''access'', ''session'']"

record admission_input =
  ai_stationPeerId :: "string option"
  ai_accessDecision :: "access_state option"
  ai_session :: "auth_session option"
  ai_phase :: lifecycle_phase
  ai_runtimes :: "runtime_snapshot list"
  ai_navigationHostReady :: bool
  ai_now :: int

definition runtime_by_id :: "runtime_snapshot list \<Rightarrow> (string, runtime_snapshot) jsmap" where
  "runtime_by_id rs = fold (\<lambda>r. map_set (rs_id r) r) rs []"

definition criticalRuntimesReady :: "runtime_snapshot list \<Rightarrow> bool" where
  "criticalRuntimesReady rs \<longleftrightarrow>
     list_all (\<lambda>i. map_option rs_status (map_get (runtime_by_id rs) i) = Some ready)
       SHELL_BLOCKING_RUNTIME_IDS"

definition session_admitted :: "(string \<Rightarrow> int option) \<Rightarrow> admission_input \<Rightarrow> bool" where
  "session_admitted parse a \<longleftrightarrow>
     isAccessGranted (ai_accessDecision a)
     \<and> isMobileAuthSessionValid parse (ai_session a) (ai_now a)
     \<and> map_option as_stationPeerId (ai_session a) = ai_stationPeerId a"

definition resolveMobileLaunchStateFromState ::
  "(string \<Rightarrow> int option) \<Rightarrow> admission_input \<Rightarrow> launch_state" where
  "resolveMobileLaunchStateFromState parse a =
     (if \<not> truthy (ai_stationPeerId a) then station_selection
      else if \<not> session_admitted parse a then
        (if ai_accessDecision a \<noteq> None then access_gate_chain else station_selection)
      else if ai_phase a \<noteq> ACTIVE \<or> \<not> criticalRuntimesReady (ai_runtimes a)
              \<or> \<not> ai_navigationHostReady a
      then runtime_critical
      else shell)"

lemma resolved_targets:
  "resolveMobileLaunchStateFromState parse a
     \<in> {station_selection, access_gate_chain, runtime_critical, shell}"
  by (simp add: resolveMobileLaunchStateFromState_def)

section \<open>Admission to the shell\<close>

lemma valid_session:
  assumes "isMobileAuthSessionValid parse (Some s) now"
  shows "\<exists>t. mobileAuthScope s = Inr t"
    and "as_expiresAt s = Some d \<Longrightarrow> d \<noteq> [] \<Longrightarrow> \<exists>e. parse d = Some e \<and> now < e"
proof -
  show "\<exists>t. mobileAuthScope s = Inr t"
    using assms by (simp add: isMobileAuthSessionValid_def mobileAuthScope_def split: if_splits)
  show "\<exists>e. parse d = Some e \<and> now < e" if "as_expiresAt s = Some d" "d \<noteq> []"
    using assms that
    by (simp add: isMobileAuthSessionValid_def truthy_def split: if_splits option.splits)
qed

lemma runtime_by_id_get:
  "map_get (fold (\<lambda>r. map_set (rs_id r) r) rs m) i =
     (case find (\<lambda>r. rs_id r = i) (rev rs) of None \<Rightarrow> map_get m i | Some r \<Rightarrow> Some r)"
  by (induction rs arbitrary: m) (auto simp: find_append split: option.splits)

lemma critical_ready_available:
  assumes "snapshot_runtimes m (ls_bootOrder (mk_state m)) = Inr rs"
    and "map rs_id rs = ls_bootOrder (mk_state m)"
    and "map (\<lambda>r. rs_status r = ready) rs = map (available (mk_state m)) (ls_bootOrder (mk_state m))"
    and "criticalRuntimesReady rs" and "i \<in> set SHELL_BLOCKING_RUNTIME_IDS"
  shows "available (mk_state m) i"
proof -
  have "map_option rs_status (map_get (runtime_by_id rs) i) = Some ready"
    using assms(4,5) by (auto simp: criticalRuntimesReady_def list_all_iff)
  then obtain r where r: "r \<in> set rs" "rs_id r = i" "rs_status r = ready"
    by (auto simp: runtime_by_id_def runtime_by_id_get split: option.splits dest!: find_Some_in)
  have "map (\<lambda>r. rs_status r = ready) rs = map (\<lambda>r. available (mk_state m) (rs_id r)) rs"
    using assms(2,3) by (metis (no_types, lifting) map_map comp_apply map_eq_conv)
  then show ?thesis using r by auto
qed

text \<open>
  C19. The shell opens only for an admitted session over working critical runtimes.  After any history
  of the lifecycle kernel, when the launch state resolved from the kernel's snapshot is
  \<^verbatim>\<open>shell\<close>, a station is chosen, the access decision is granted, the session is unexpired, complete
  and of that station, the kernel is active, and each of the five blocking runtimes is available
  together with everything it depends on.
\<close>

theorem shell_admission_sound:
  assumes "m = enqueueOperation w inputs new_mobile" and "getSnapshot m = (Inr snap, m)"
    and "resolveMobileLaunchStateFromState parse
           \<lparr>ai_stationPeerId = station, ai_accessDecision = decision, ai_session = session,
            ai_phase = ks_phase snap, ai_runtimes = ks_runtimes snap,
            ai_navigationHostReady = nav, ai_now = now\<rparr> = shell"
  shows "(\<exists>s t. session = Some s \<and> station = Some (as_stationPeerId s) \<and> isAccessGranted decision
       \<and> mobileAuthScope s = Inr t
       \<and> (\<forall>d. as_expiresAt s = Some d \<and> d \<noteq> [] \<longrightarrow> (\<exists>e. parse d = Some e \<and> now < e)))
    \<and> ls_phase (mk_state m) = ACTIVE \<and> nav
    \<and> (\<forall>i \<in> set SHELL_BLOCKING_RUNTIME_IDS. available (mk_state m) i)"
proof -
  obtain rs where rs: "snapshot_runtimes m (ls_bootOrder (mk_state m)) = Inr rs"
    "map rs_id rs = ls_bootOrder (mk_state m)"
    "map (\<lambda>r. rs_status r = ready) rs = map (available (mk_state m)) (ls_bootOrder (mk_state m))"
    using snapshot_runtimes_total [OF history_graph_ordered order_refl] assms(1) by blast
  have snap: "ks_runtimes snap = rs" "ks_phase snap = ls_phase (mk_state m)"
    using assms(2) rs(1) by (auto simp: getSnapshot_def Let_def)
  let ?a = "\<lparr>ai_stationPeerId = station, ai_accessDecision = decision, ai_session = session,
            ai_phase = ks_phase snap, ai_runtimes = ks_runtimes snap,
            ai_navigationHostReady = nav, ai_now = now\<rparr>"
  have adm: "truthy station" "session_admitted parse ?a" "ks_phase snap = ACTIVE"
    "criticalRuntimesReady rs" nav
    using assms(3) by (auto simp: resolveMobileLaunchStateFromState_def snap(1) split: if_splits)
  have "available (mk_state m) i" if "i \<in> set SHELL_BLOCKING_RUNTIME_IDS" for i
    using critical_ready_available [OF rs adm(4) that] .
  moreover have "\<exists>s t. session = Some s \<and> station = Some (as_stationPeerId s) \<and> isAccessGranted decision
       \<and> mobileAuthScope s = Inr t
       \<and> (\<forall>d. as_expiresAt s = Some d \<and> d \<noteq> [] \<longrightarrow> (\<exists>e. parse d = Some e \<and> now < e))"
  proof -
    obtain s where s: "session = Some s" "isMobileAuthSessionValid parse (Some s) now"
      using adm(2)
    proof (cases session)
      case None
      then show ?thesis using adm(2) by (simp add: session_admitted_def isMobileAuthSessionValid_def)
    qed (simp add: session_admitted_def)
    then show ?thesis
      using adm(2) valid_session [OF s(2)] by (auto simp: session_admitted_def)
  qed
  ultimately show ?thesis using adm(3,5) snap(2) by auto
qed

section \<open>Getting there\<close>

text \<open>
  The walk through launch states on its own: \<open>Inr\<close> a launch state when it goes through, \<open>Inl\<close> the one
  it gets stuck in.  Each step of \<^verbatim>\<open>transitionToResolvedLaunchState\<close> acts on the kernel as its step on
  launch states does.
\<close>

type_synonym walk = "launch_state \<Rightarrow> launch_state + launch_state"

definition walk_when :: "(launch_state \<Rightarrow> bool) \<Rightarrow> launch_state \<Rightarrow> walk" where
  "walk_when cond target l =
     (if \<not> cond l then Inr l else if isValidLaunchStateTransition l target then Inr target else Inl l)"

definition walk_then :: "walk \<Rightarrow> walk \<Rightarrow> walk" where
  "walk_then f g l = (case f l of Inl l' \<Rightarrow> Inl l' | Inr l' \<Rightarrow> g l')"

definition walks :: "unit op \<Rightarrow> walk \<Rightarrow> bool" where
  "walks f g \<longleftrightarrow> (\<forall>m out m'. f m = (out, m') \<longrightarrow> mk_calls m' = mk_calls m
     \<and> (case g (ls_launchState (mk_state m)) of
          Inl l \<Rightarrow> out \<noteq> Inr () \<and> mk_state m' = (mk_state m)\<lparr>ls_launchState := l\<rparr>
        | Inr l \<Rightarrow> out = Inr () \<and> mk_state m' = (mk_state m)\<lparr>ls_launchState := l\<rparr>))"

lemma walks_launch: "walks (transitionLaunchState target) (walk_when (\<lambda>_. True) target)"
  by (auto simp: walks_def walk_when_def transitionLaunchState_def op_return_def op_throw_def
      op_do_def m_dispatch_def emitEvent_def isValidLaunchStateTransition_def Let_def split: if_splits)

lemma walks_when: "walks (launch_when cond target) (walk_when cond target)"
  using walks_launch [of target] unfolding walks_def launch_when_def walk_when_def op_return_def
  by (auto split: if_splits)

lemma walks_then:
  assumes "walks f f'" and "walks g g'"
  shows "walks (op_then f g) (walk_then f' g')"
  unfolding walks_def
proof (intro allI impI)
  fix m out m'
  assume run: "op_then f g m = (out, m')"
  show "mk_calls m' = mk_calls m \<and> (case walk_then f' g' (ls_launchState (mk_state m)) of
      Inl l \<Rightarrow> out \<noteq> Inr () \<and> mk_state m' = (mk_state m)\<lparr>ls_launchState := l\<rparr>
    | Inr l \<Rightarrow> out = Inr () \<and> mk_state m' = (mk_state m)\<lparr>ls_launchState := l\<rparr>)"
    using run
  proof (cases rule: op_then_cases)
    case (failed err)
    then show ?thesis using assms(1) unfolding walks_def walk_then_def
      by (fastforce split: sum.splits)
  next
    case (continued m1)
    then obtain l where "mk_calls m1 = mk_calls m" "f' (ls_launchState (mk_state m)) = Inr l"
      "mk_state m1 = (mk_state m)\<lparr>ls_launchState := l\<rparr>"
      using assms(1) unfolding walks_def by (fastforce split: sum.splits)
    with continued(2) assms(2) show ?thesis unfolding walks_def walk_then_def
      by (fastforce split: sum.splits)
  qed
qed

lemma walks_unless:
  assumes "walks f g"
  shows "walks (\<lambda>m. if ls_launchState (mk_state m) = target then op_return () m else f m)
    (\<lambda>l. if l = target then Inr l else g l)"
  using assms unfolding walks_def op_return_def by auto

definition resolved_walk :: "launch_state \<Rightarrow> walk" where
  "resolved_walk target l =
     (if l = target then Inr l
      else walk_then (walk_when (\<lambda>l. l = shell)
                   (if target = station_selection then station_change else logout_state))
       (walk_then (walk_when (\<lambda>l. l = station_change \<and> target \<noteq> station_selection) station_selection)
       (walk_then (walk_when (\<lambda>l. l = app_boot \<or> (l = logout_state \<and> target = shell)) station_selection)
       (walk_then (walk_when (\<lambda>l. l = station_selection \<and> target = access_gate_chain) station_handshake)
       (walk_then (walk_when (\<lambda>l. target = shell \<and> l \<noteq> runtime_critical
                                 \<and> (l = station_selection \<or> l = access_gate_chain
                                    \<or> l = station_handshake)) runtime_critical)
         (walk_when (\<lambda>_. True) target))))) l)"

lemma walks_guarded:
  "walks (\<lambda>m. if \<not> isValidLaunchStateTransition (ls_launchState (mk_state m)) target
      then op_throw (msg m) m else transitionLaunchState target m) (walk_when (\<lambda>_. True) target)"
  unfolding walks_def
proof (intro allI impI, goal_cases)
  case (1 m out m')
  show ?case
  proof (cases "isValidLaunchStateTransition (ls_launchState (mk_state m)) target")
    case True
    with 1 walks_launch [of target] show ?thesis by (simp add: walks_def)
  next
    case False
    with 1 show ?thesis by (auto simp: walk_when_def op_throw_def)
  qed
qed

lemma walks_resolved: "walks (transitionToResolvedLaunchState target reason) (resolved_walk target)"
  unfolding transitionToResolvedLaunchState_def [abs_def] resolved_walk_def [abs_def]
  by (intro walks_unless walks_then walks_when walks_guarded)

lemma resolved_walk_ends:
  assumes "target \<in> {station_selection, access_gate_chain, runtime_critical, shell}"
  shows "resolved_walk target l =
    (if l = background then Inl background
     else if l \<in> {shell, logout_state} \<and> target = runtime_critical then Inl logout_state
     else Inr target)"
  using assms
  by (cases l; auto simp: resolved_walk_def walk_then_def walk_when_def isValidLaunchStateTransition_def)

text \<open>
  C20. Every launch state the app asks for is reached, with three exceptions.  Moving the kernel to the
  resolved launch state succeeds exactly when the kernel is not in \<^verbatim>\<open>background\<close> and is not asked
  to go from \<^verbatim>\<open>shell\<close> or \<^verbatim>\<open>logout\<close> to \<^verbatim>\<open>runtime-critical\<close>; it then ends in that launch state.
  Otherwise it rejects and leaves the kernel in \<^verbatim>\<open>background\<close> or in \<^verbatim>\<open>logout\<close>.  Nothing but the launch
  state changes.
\<close>

theorem launch_resolution:
  assumes "target = resolveMobileLaunchStateFromState parse a"
    and "transitionToResolvedLaunchState target reason m = (out, m')"
  shows "let l = ls_launchState (mk_state m) in
    (out = Inr () \<longleftrightarrow> \<not> (l = background \<or> (l \<in> {shell, logout_state} \<and> target = runtime_critical)))
    \<and> mk_state m' = (mk_state m)\<lparr>ls_launchState :=
        if out = Inr () then target else if l = background then background else logout_state\<rparr>
    \<and> mk_calls m' = mk_calls m"
  using walks_resolved [of target reason, unfolded walks_def, rule_format, OF assms(2)]
    resolved_walk_ends [OF resolved_targets [of parse a]]
  by (auto simp: Let_def assms(1) split: if_splits)

section \<open>An example: the runtimes before the shell\<close>

definition shell_world :: world where
  "shell_world = demo_world\<lparr>w_launch := \<lambda>_. Resolved shell,
     w_descriptors := \<lambda>_. Inr
       [demo_runtime ''secure-storage'' [],
        demo_runtime ''device-link'' [''secure-storage''],
        demo_runtime ''station'' [''secure-storage'', ''device-link''],
        demo_runtime ''auth'' [''secure-storage'', ''station''],
        demo_runtime ''access'' [''station'', ''auth''],
        demo_runtime ''session'' [''station'', ''auth'', ''access'']]\<rparr>"

definition shell_mobile :: mobile where
  "shell_mobile = enqueueOperation shell_world demo_history new_mobile"

definition demo_session :: auth_session where
  "demo_session =
     \<lparr>as_stationPeerId = ''12D3'', as_stationUrl = ''https://s'', as_sessionId = ''s1'',
      as_deviceId = ''d1'', as_lifecycleGeneration = Num 1, as_expiresAt = Some ''2030'',
      as_ptid = ''pt'', as_authenticatedAt = Num 5\<rparr>"

definition demo_admission :: "kernel_snapshot \<Rightarrow> admission_input" where
  "demo_admission snap =
     \<lparr>ai_stationPeerId = Some ''12D3'', ai_accessDecision = Some ACCESS_DECISION_GRANTED,
      ai_session = Some demo_session, ai_phase = ks_phase snap, ai_runtimes = ks_runtimes snap,
      ai_navigationHostReady = True, ai_now = 7\<rparr>"

theorem shell_admission_sound_witness:
  "\<exists>snap. getSnapshot shell_mobile = (Inr snap, shell_mobile)
     \<and> resolveMobileLaunchStateFromState (\<lambda>_. Some 9) (demo_admission snap) = shell
     \<and> available (mk_state shell_mobile) ''session''"
proof -
  obtain rs where "snapshot_runtimes shell_mobile (ls_bootOrder (mk_state shell_mobile)) = Inr rs"
    using snapshot_runtimes_total [OF history_graph_ordered order_refl, of shell_world demo_history]
    unfolding shell_mobile_def by blast
  then obtain snap where snap: "getSnapshot shell_mobile = (Inr snap, shell_mobile)"
    by (simp add: getSnapshot_def Let_def)
  have "case fst (getSnapshot shell_mobile) of Inl _ \<Rightarrow> False
      | Inr snap \<Rightarrow> resolveMobileLaunchStateFromState (\<lambda>_. Some 9) (demo_admission snap) = shell"
    by code_simp
  then have shell: "resolveMobileLaunchStateFromState (\<lambda>_. Some 9) (demo_admission snap) = shell"
    by (simp add: snap)
  have "available (mk_state shell_mobile) ''session''"
    using shell_admission_sound [OF shell_mobile_def snap shell [unfolded demo_admission_def]]
    by (simp add: SHELL_BLOCKING_RUNTIME_IDS_def)
  with snap shell show ?thesis by blast
qed

theorem launch_resolution_witness:
  "\<exists>m'. transitionToResolvedLaunchState shell app_start demo_mobile = (Inr (), m')
     \<and> ls_launchState (mk_state m') = shell"
proof -
  obtain out m' where t: "transitionToResolvedLaunchState shell app_start demo_mobile = (out, m')"
    by fastforce
  let ?a = "demo_admission \<lparr>ks_phase = ACTIVE, ks_launchState = shell, ks_generation = 1,
    ks_bootOrder = [], ks_runtimes = map (\<lambda>i. \<lparr>rs_id = i, rs_status = ready, rs_errorKey = None\<rparr>)
      SHELL_BLOCKING_RUNTIME_IDS, ks_errorKey = None\<rparr>"
  have a: "shell = resolveMobileLaunchStateFromState (\<lambda>_. Some 9) ?a" by code_simp
  have "ls_launchState (mk_state demo_mobile) = station_selection" by code_simp
  then show ?thesis using launch_resolution [OF a t] t by (auto simp: Let_def)
qed


end
