(* ===== verification/Link_Base32.thy ===== *)
theory Link_Base32
  imports Prelude "HOL-Library.Word" "HOL-Library.Char_ord"
begin

text \<open>
  Byte codecs of the link schema: \<^verbatim>\<open>base32\<close> and \<^verbatim>\<open>unbase32\<close> (\<^verbatim>\<open>packages/schema/src/base32.ts\<close>),
  \<^verbatim>\<open>base64url\<close> and \<^verbatim>\<open>unbase64url\<close> (\<^verbatim>\<open>packages/schema/src/link.ts\<close>).  JavaScript's bitwise
  operators work on 32 bits, so the buffer of the loops is a 32-bit word.  The loops are written
  once for symbols of \<open>k\<close> bits: 5 in base 32, and 6 in the base 64 of the built-in \<^verbatim>\<open>btoa\<close> and
  \<^verbatim>\<open>atob\<close>.  A codec is canonical: it decodes exactly the strings it produces.
\<close>

unbundle bit_operations_syntax

section \<open>The loops\<close>

text \<open>
  The inner \<^verbatim>\<open>while\<close> of the encoder: as long as \<open>k\<close> bits are buffered, the topmost \<open>k\<close> become a symbol.
  The result has the symbols and the number of bits left.
\<close>

fun drain :: "nat \<Rightarrow> (32 word \<Rightarrow> 'c) \<Rightarrow> 32 word \<Rightarrow> nat \<Rightarrow> 'c list \<times> nat" where
  "drain k out buffer bits =
     (if k = 0 \<or> bits < k then ([], bits)
      else (case drain k out buffer (bits - k) of
              (cs, left) \<Rightarrow> (out (drop_bit (bits - k) buffer AND mask k) # cs, left)))"

declare drain.simps [simp del]

definition enc_byte ::
  "nat \<Rightarrow> (32 word \<Rightarrow> 'c) \<Rightarrow> 'c list \<times> 32 word \<times> nat \<Rightarrow> 8 word \<Rightarrow> 'c list \<times> 32 word \<times> nat" where
  "enc_byte k out st byte =
     (case st of (result, buffer, bits) \<Rightarrow>
        let buffer = push_bit 8 buffer OR ucast byte in
        (case drain k out buffer (bits + 8) of
           (cs, left) \<Rightarrow> (result @ cs, buffer AND mask left, left)))"

definition enc_bytes :: "nat \<Rightarrow> (32 word \<Rightarrow> 'c) \<Rightarrow> 8 word list \<Rightarrow> 'c list" where
  "enc_bytes k out bytes =
     (case foldl (enc_byte k out) ([], 0, 0) bytes of
        (result, buffer, bits) \<Rightarrow>
          if bits = 0 then result else result @ [out (push_bit (k - bits) buffer AND mask k)])"

definition dec_symbol ::
  "nat \<Rightarrow> 8 word list \<times> 32 word \<times> nat \<Rightarrow> nat \<Rightarrow> 8 word list \<times> 32 word \<times> nat" where
  "dec_symbol k st v =
     (case st of (bytes, buffer, bits) \<Rightarrow>
        let buffer = push_bit k buffer OR of_nat v; bits = bits + k in
        if bits \<ge> 8
        then (bytes @ [ucast (drop_bit (bits - 8) buffer AND 255)], buffer AND mask (bits - 8), bits - 8)
        else (bytes, buffer AND mask bits, bits))"

definition dec_symbols :: "nat \<Rightarrow> nat list \<Rightarrow> 8 word list" where
  "dec_symbols k vs = fst (foldl (dec_symbol k) ([], 0, 0) vs)"

text \<open>\<^verbatim>\<open>alphabet.indexOf(character)\<close>, for a character of the alphabet.\<close>

fun index_of :: "'a \<Rightarrow> 'a list \<Rightarrow> nat" where
  "index_of c [] = 0"
| "index_of c (d # ds) = (if c = d then 0 else Suc (index_of c ds))"

section \<open>Base 32\<close>

definition alphabet32 :: string where
  "alphabet32 = ''ABCDEFGHIJKLMNOPQRSTUVWXYZ234567''"

definition base32 :: "8 word list \<Rightarrow> string" where
  "base32 bytes = enc_bytes 5 (\<lambda>v. alphabet32 ! unat v) bytes"

datatype schema_error = INVALID_LINK | UNREGISTERED_ACTION | PAYLOAD_TOO_LARGE

definition unbase32 :: "string \<Rightarrow> schema_error + 8 word list" where
  "unbase32 s =
     (if s = [] \<or> \<not> list_all (\<lambda>c. c \<in> set alphabet32) s then Inl INVALID_LINK
      else let result = dec_symbols 5 (map (\<lambda>c. index_of c alphabet32) s) in
           if base32 result \<noteq> s then Inl INVALID_LINK else Inr result)"

section \<open>Base 64\<close>

text \<open>
  \<^verbatim>\<open>btoa\<close> pads its result to a multiple of four; \<^verbatim>\<open>atob\<close> takes off at most two padding
  characters from a string whose length is a multiple of four, refuses what is then not in the
  alphabet or one character too long, and drops the bits left over.
\<close>

definition alphabet64 :: string where
  "alphabet64 = ''ABCDEFGHIJKLMNOPQRSTUVWXYZabcdefghijklmnopqrstuvwxyz0123456789+/''"

definition btoa :: "8 word list \<Rightarrow> string" where
  "btoa bytes =
     (let s = enc_bytes 6 (\<lambda>v. alphabet64 ! unat v) bytes in
      s @ replicate ((4 - length s mod 4) mod 4) (CHR ''=''))"

definition strip_padding :: "string \<Rightarrow> string" where
  "strip_padding s =
     (if length s mod 4 = 0 \<and> s \<noteq> [] \<and> last s = CHR ''='' then
        (if butlast s \<noteq> [] \<and> last (butlast s) = CHR ''='' then butlast (butlast s) else butlast s)
      else s)"

definition atob :: "string \<Rightarrow> 8 word list option" where
  "atob s =
     (let s' = strip_padding (filter (\<lambda>c. c \<notin> set [CHR '' '', CHR 0x09, CHR 0x0A, CHR 0x0C, CHR 0x0D]) s) in
      if length s' mod 4 = 1 \<or> \<not> list_all (\<lambda>c. c \<in> set alphabet64) s' then None
      else Some (dec_symbols 6 (map (\<lambda>c. index_of c alphabet64) s')))"

definition replace_char :: "char \<Rightarrow> char \<Rightarrow> string \<Rightarrow> string" where
  "replace_char a b s = map (\<lambda>c. if c = a then b else c) s"

definition base64url :: "8 word list \<Rightarrow> string" where
  "base64url bytes =
     rev (dropWhile (\<lambda>c. c = CHR ''='')
       (rev (replace_char (CHR ''/'') (CHR ''_'') (replace_char (CHR ''+'') (CHR ''-'') (btoa bytes)))))"

definition url_char :: "char \<Rightarrow> bool" where
  "url_char c \<longleftrightarrow> (CHR ''A'' \<le> c \<and> c \<le> CHR ''Z'') \<or> (CHR ''a'' \<le> c \<and> c \<le> CHR ''z'')
     \<or> (CHR ''0'' \<le> c \<and> c \<le> CHR ''9'') \<or> c = CHR ''_'' \<or> c = CHR ''-''"

definition unbase64url :: "string \<Rightarrow> schema_error + 8 word list" where
  "unbase64url s =
     (if s = [] \<or> \<not> list_all url_char s \<or> length s mod 4 = 1 then Inl INVALID_LINK
      else case atob (replace_char (CHR ''_'') (CHR ''/'') (replace_char (CHR ''-'') (CHR ''+'') s)) of
             None \<Rightarrow> Inl INVALID_LINK
           | Some bytes \<Rightarrow> if base64url bytes \<noteq> s then Inl INVALID_LINK else Inr bytes)"

section \<open>Numbers from digits\<close>

text \<open>The number a list of digits stands for, most significant digit first.\<close>

definition digits_val :: "nat \<Rightarrow> nat list \<Rightarrow> nat" where
  "digits_val b ds = foldl (\<lambda>a d. a * b + d) 0 ds"

lemma foldl_digits: "foldl (\<lambda>a d. a * b + d) (x::nat) ds = x * b ^ length ds + digits_val b ds"
proof (induction ds arbitrary: x)
  case (Cons d ds)
  have "foldl (\<lambda>a d. a * b + d) x (d # ds) = (x * b + d) * b ^ length ds + digits_val b ds"
    by (simp add: Cons.IH)
  moreover have "digits_val b (d # ds) = d * b ^ length ds + digits_val b ds"
    using Cons.IH [of d] by (simp add: digits_val_def)
  moreover have "(x * b + d) * b ^ length ds = x * b ^ length (d # ds) + d * b ^ length ds"
    by (simp add: add_mult_distrib)
  ultimately show ?case by simp
qed (simp add: digits_val_def)

lemma digits_val_simps [simp]:
  "digits_val b [] = 0"
  "digits_val b (d # ds) = d * b ^ length ds + digits_val b ds"
  "digits_val b (ds @ es) = digits_val b ds * b ^ length es + digits_val b es"
proof -
  show "digits_val b [] = 0" by (simp add: digits_val_def)
  show "digits_val b (d # ds) = d * b ^ length ds + digits_val b ds"
    using foldl_digits [of b d ds] by (simp add: digits_val_def)
  show "digits_val b (ds @ es) = digits_val b ds * b ^ length es + digits_val b es"
    using foldl_digits [of b "digits_val b ds" es] by (simp add: digits_val_def)
qed

lemma digits_val_less: "\<forall>d \<in> set ds. d < b \<Longrightarrow> digits_val b ds < b ^ length ds"
proof (induction ds)
  case (Cons d ds)
  then have "digits_val b (d # ds) < Suc d * b ^ length ds" by simp
  also have "\<dots> \<le> b * b ^ length ds" using Cons.prems by (intro mult_le_mono1) auto
  finally show ?case by simp
qed simp

lemma digits_val_inj:
  "digits_val b ds = digits_val b es \<Longrightarrow> length ds = length es \<Longrightarrow>
     \<forall>d \<in> set ds. d < b \<Longrightarrow> \<forall>d \<in> set es. d < b \<Longrightarrow> ds = es"
proof (induction ds arbitrary: es)
  case (Cons d ds)
  from Cons.prems(2) obtain e es' where es: "es = e # es'" by (cases es) simp_all
  have less: "digits_val b ds < b ^ length ds" "digits_val b es' < b ^ length ds"
    using Cons.prems(2-4) digits_val_less [of ds b] digits_val_less [of es' b] by (simp_all add: es)
  have eq: "digits_val b ds + d * b ^ length ds = digits_val b es' + e * b ^ length ds"
    using Cons.prems(1,2) by (simp add: es add.commute)
  have pos: "b ^ length ds \<noteq> 0" using less(1) by linarith
  have "d = (digits_val b ds + d * b ^ length ds) div b ^ length ds"
    unfolding div_mult_self1 [OF pos] using less(1) by simp
  also have "\<dots> = e" unfolding eq div_mult_self1 [OF pos] using less(2) by simp
  finally have "d = e" .
  with eq have "digits_val b ds = digits_val b es'" by simp
  with \<open>d = e\<close> have "d = e \<and> digits_val b ds = digits_val b es'" by blast
  then show ?case using Cons.IH [of es'] Cons.prems(2-4) by (simp add: es)
qed simp

section \<open>The loops are changes of base\<close>

lemma unat_mask_and: "unat ((w::32 word) AND mask n) = unat w mod 2 ^ n"
  unfolding take_bit_eq_mask [symmetric] unsigned_take_bit_eq by (rule take_bit_eq_mod)

lemma unat_drop_bit: "unat (drop_bit n (w::32 word)) = unat w div 2 ^ n"
  unfolding unat_drop_bit_eq by (rule drop_bit_eq_div)

lemma push_or_nat: "v < 2 ^ n \<Longrightarrow> push_bit n w OR v = w * 2 ^ n + v" for v w :: nat
proof -
  assume v: "v < 2 ^ n"
  have "push_bit n w AND v = 0"
  proof (rule bit_eqI)
    fix i
    have "\<not> bit v i" if "n \<le> i"
    proof -
      have "v < 2 ^ i" using v that power_increasing [of n i "2::nat"] by linarith
      then show ?thesis by (simp add: bit_iff_odd)
    qed
    then show "bit (push_bit n w AND v) i = bit 0 i"
      by (auto simp: bit_and_iff bit_push_bit_iff not_le)
  qed
  then show ?thesis by (simp add: disjunctive_add_eq_or [symmetric] push_bit_eq_mult)
qed

lemma unat_push_or:
  assumes "unat (w::32 word) < 2 ^ a" "a + n \<le> 32" "unat (v::32 word) < 2 ^ n"
  shows "unat (push_bit n w OR v) = unat w * 2 ^ n + unat v"
proof -
  have "unat w * 2 ^ n < 2 ^ a * 2 ^ n" using assms(1) by simp
  also have "\<dots> \<le> 2 ^ 32" using assms(2) power_increasing [of "a + n" 32 "2::nat"] by (simp add: power_add)
  finally have "unat (push_bit n w) = push_bit n (unat w)"
    by (subst unsigned_push_bit_eq) (simp add: push_bit_eq_mult take_bit_eq_mod)
  then show ?thesis using push_or_nat [OF assms(3), of "unat w"] by (simp add: unsigned_or_eq)
qed

lemma unat_push_mask:
  assumes "unat (w::32 word) < 2 ^ a" "a + n \<le> 32"
  shows "unat (push_bit n w) = unat w * 2 ^ n"
  using unat_push_or [of w a n 0] assms by simp

lemma drain_spec:
  assumes "0 < k" and "drain k unat buf bits = (cs, left)"
  shows "left = bits mod k \<and> length cs = bits div k \<and> (\<forall>c \<in> set cs. c < 2 ^ k)
    \<and> unat buf mod 2 ^ bits = digits_val (2 ^ k) cs * 2 ^ left + unat buf mod 2 ^ left"
  using assms(2)
proof (induction bits arbitrary: cs rule: less_induct)
  case (less bits)
  show ?case
  proof (cases "bits < k")
    case True
    then show ?thesis using less.prems by (simp add: drain.simps)
  next
    case False
    obtain b where b: "bits = b + k" using False by (metis add.commute le_Suc_ex not_less)
    obtain cs' where cs': "drain k unat buf b = (cs', left)"
      and cs: "cs = unat (drop_bit b buf AND mask k) # cs'"
      using less.prems assms(1) by (auto simp: drain.simps [of k unat buf "b + k"] b split: prod.splits)
    have IH: "left = b mod k" "length cs' = b div k" "\<forall>c \<in> set cs'. c < 2 ^ k"
      "unat buf mod 2 ^ b = digits_val (2 ^ k) cs' * 2 ^ left + unat buf mod 2 ^ left"
      using less.IH [OF _ cs'] b assms(1) by auto
    have "(2 ^ k) ^ length cs' * 2 ^ left = (2::nat) ^ b"
      by (simp add: IH(1,2) flip: power_mult power_add)
    then have "digits_val (2 ^ k) cs * 2 ^ left
        = (unat buf div 2 ^ b mod 2 ^ k) * 2 ^ b + digits_val (2 ^ k) cs' * 2 ^ left"
      by (simp add: cs unat_mask_and unat_drop_bit add_mult_distrib mult.assoc)
    moreover have "unat buf mod 2 ^ bits = 2 ^ b * (unat buf div 2 ^ b mod 2 ^ k) + unat buf mod 2 ^ b"
      by (simp add: b power_add mod_mult2_eq)
    ultimately have "unat buf mod 2 ^ bits = digits_val (2 ^ k) cs * 2 ^ left + unat buf mod 2 ^ left"
      using IH(4) by simp
    moreover have "bits mod k = left" "bits div k = Suc (b div k)" using assms(1) by (simp_all add: b IH(1) div_add_self2)
    ultimately show ?thesis using IH(2,3) by (simp add: cs unat_mask_and)
  qed
qed

definition byte_val :: "8 word list \<Rightarrow> nat" where
  "byte_val bs = digits_val 256 (map unat bs)"

definition enc_inv :: "nat \<Rightarrow> 8 word list \<Rightarrow> nat list \<times> 32 word \<times> nat \<Rightarrow> bool" where
  "enc_inv k bytes st = (case st of (syms, buf, bits) \<Rightarrow>
     bits < k \<and> unat buf < 2 ^ bits \<and> (\<forall>s \<in> set syms. s < 2 ^ k)
     \<and> 8 * length bytes = k * length syms + bits
     \<and> byte_val bytes = digits_val (2 ^ k) syms * 2 ^ bits + unat buf)"

lemma unat_byte_less: "unat (x::8 word) < 256"
  using unsigned_less [where 'a = nat, of x] by simp

lemma unat_ucast_byte: "unat (ucast (x::8 word) :: 32 word) = unat x"
  using unat_byte_less [of x]
  by (subst unsigned_ucast_eq) (simp add: take_bit_eq_mod)

lemma enc_inv_step:
  assumes "enc_inv k bytes st" and "0 < k" and "k \<le> 8"
  shows "enc_inv k (bytes @ [x]) (enc_byte k unat st x)"
proof -
  obtain syms buf bits where st: "st = (syms, buf, bits)" by (cases st) auto
  let ?buf = "push_bit 8 buf OR ucast x"
  obtain cs left where dr: "drain k unat ?buf (bits + 8) = (cs, left)" by fastforce
  have inv: "bits < k" "unat buf < 2 ^ bits" "\<forall>s \<in> set syms. s < 2 ^ k"
    "8 * length bytes = k * length syms + bits"
    "byte_val bytes = digits_val (2 ^ k) syms * 2 ^ bits + unat buf"
    using assms(1) by (auto simp: enc_inv_def st)
  have buf: "unat ?buf = unat buf * 256 + unat x"
    using unat_push_or [of buf bits 8 "ucast x"] inv(1,2) assms(3) unat_byte_less [of x]
    by (simp add: unat_ucast_byte)
  have "unat ?buf < (unat buf + 1) * 256" using unat_byte_less [of x] buf by simp
  also have "\<dots> \<le> 2 ^ bits * 256" using inv(2) by (intro mult_le_mono1) simp
  finally have small: "unat ?buf < 2 ^ (bits + 8)" by (simp add: power_add)
  note d = drain_spec [OF assms(2) dr]
  have len: "k * length cs + left = bits + 8" using d by simp
  have val: "unat ?buf = digits_val (2 ^ k) cs * 2 ^ left + unat ?buf mod 2 ^ left"
    using d unfolding mod_less [OF small] by blast
  have "(2 ^ k) ^ length cs * 2 ^ left = (2::nat) ^ bits * 256"
    using len by (simp flip: power_mult power_add) (simp add: power_add)
  then have "digits_val (2 ^ k) (syms @ cs) * 2 ^ left + unat ?buf mod 2 ^ left
      = digits_val (2 ^ k) syms * 2 ^ bits * 256 + unat ?buf"
    using val by (simp add: add_mult_distrib mult.assoc)
  also have "\<dots> = byte_val (bytes @ [x])"
    by (simp add: byte_val_def buf inv(5) [unfolded byte_val_def] add_mult_distrib)
  finally have "byte_val (bytes @ [x]) = digits_val (2 ^ k) (syms @ cs) * 2 ^ left + unat ?buf mod 2 ^ left" ..
  moreover have "left < k" using d assms(2) by simp
  moreover have "8 * length (bytes @ [x]) = k * length (syms @ cs) + left"
    using inv(4) len by (simp add: add_mult_distrib2)
  ultimately show ?thesis
    using d inv(3) by (auto simp: enc_inv_def enc_byte_def st dr Let_def unat_mask_and)
qed

lemma enc_inv_fold:
  assumes "0 < k" and "k \<le> 8"
  shows "enc_inv k bytes (foldl (enc_byte k unat) ([], 0, 0) bytes)"
proof (induction bytes rule: rev_induct)
  case Nil
  show ?case using assms by (simp add: enc_inv_def byte_val_def)
next
  case (snoc x bytes)
  then show ?case using enc_inv_step [OF _ assms] by simp
qed

lemma enc_bytes_spec:
  assumes "0 < k" and "k \<le> 8"
    and syms_def: "syms = enc_bytes k unat bytes"
  obtains pad where "pad < k" "k * length syms = 8 * length bytes + pad" "\<forall>s \<in> set syms. s < 2 ^ k"
    "digits_val (2 ^ k) syms = byte_val bytes * 2 ^ pad"
proof -
  obtain result buf bits where st: "foldl (enc_byte k unat) ([], 0, 0) bytes = (result, buf, bits)"
    by (cases "foldl (enc_byte k unat) ([], 0, 0) bytes") auto
  have inv: "bits < k" "unat buf < 2 ^ bits" "\<forall>s \<in> set result. s < 2 ^ k"
    "8 * length bytes = k * length result + bits"
    "byte_val bytes = digits_val (2 ^ k) result * 2 ^ bits + unat buf"
    using enc_inv_fold [OF assms(1,2), of bytes] by (simp_all add: enc_inv_def st)
  show thesis
  proof (cases "bits = 0")
    case True
    then show thesis using inv assms(1) by (intro that [of 0]) (auto simp: syms_def enc_bytes_def st)
  next
    case False
    let ?last = "unat (push_bit (k - bits) buf AND mask k)"
    have "unat buf * 2 ^ (k - bits) < 2 ^ bits * 2 ^ (k - bits)" using inv(2) by simp
    also have "\<dots> = 2 ^ k" using inv(1) by (simp flip: power_add)
    finally have last: "?last = unat buf * 2 ^ (k - bits)" "unat buf * 2 ^ (k - bits) < 2 ^ k"
      using unat_push_mask [of buf bits "k - bits"] inv(1,2) assms(2) by (simp_all add: unat_mask_and)
    have syms: "syms = result @ [?last]" using False by (simp add: syms_def enc_bytes_def st)
    have pow: "(2::nat) ^ k = 2 ^ bits * 2 ^ (k - bits)" using inv(1) by (simp flip: power_add)
    show thesis
    proof (rule that [of "k - bits"])
      show "k - bits < k" using False inv(1) by simp
      show "k * length syms = 8 * length bytes + (k - bits)" using inv(1,4) by (simp add: syms)
      show "\<forall>s \<in> set syms. s < 2 ^ k" using inv(3) last by (simp add: syms)
      show "digits_val (2 ^ k) syms = byte_val bytes * 2 ^ (k - bits)"
        unfolding syms digits_val_simps(3) using last(1)
        by (simp add: inv(5) add_mult_distrib pow mult.assoc)
    qed
  qed
qed

lemma unat_top_byte:
  assumes "unat (w::32 word) div 2 ^ b < 256"
  shows "unat (ucast (drop_bit b w AND 255) :: 8 word) = unat w div 2 ^ b"
proof -
  have "unat (drop_bit b w AND 255) = unat w div 2 ^ b"
    using unat_mask_and [of "drop_bit b w" 8] assms
    by (simp add: mask_eq_exp_minus_1 unat_drop_bit)
  then show ?thesis using assms by (subst unsigned_ucast_eq) (simp add: take_bit_eq_mod)
qed

definition dec_inv :: "nat \<Rightarrow> nat list \<Rightarrow> 8 word list \<times> 32 word \<times> nat \<Rightarrow> bool" where
  "dec_inv k vs st = (case st of (bytes, buf, bits) \<Rightarrow>
     bits < 8 \<and> unat buf < 2 ^ bits \<and> k * length vs = 8 * length bytes + bits
     \<and> digits_val (2 ^ k) vs = byte_val bytes * 2 ^ bits + unat buf)"

lemma dec_inv_step:
  assumes "dec_inv k vs st" and "k \<le> 8" and "v < 2 ^ k"
  shows "dec_inv k (vs @ [v]) (dec_symbol k st v)"
proof -
  obtain bytes buf bits where st: "st = (bytes, buf, bits)" by (cases st) auto
  have inv: "bits < 8" "unat buf < 2 ^ bits" "k * length vs = 8 * length bytes + bits"
    "digits_val (2 ^ k) vs = byte_val bytes * 2 ^ bits + unat buf"
    using assms(1) by (simp_all add: dec_inv_def st)
  define w where "w = push_bit k buf OR of_nat v"
  have "v < 2 ^ 8" using assms(2,3) power_increasing [of k 8 "2::nat"] by simp
  then have v: "unat (of_nat v :: 32 word) = v" by (simp add: unat_of_nat)
  have buf: "unat w = unat buf * 2 ^ k + v"
    using unat_push_or [of buf bits k "of_nat v"] inv(1,2) assms(2,3) v by (simp add: w_def)
  have "unat w < (unat buf + 1) * 2 ^ k" using assms(3) buf by simp
  also have "\<dots> \<le> 2 ^ bits * 2 ^ k" using inv(2) by (intro mult_le_mono1) simp
  finally have small: "unat w < 2 ^ (bits + k)" by (simp add: power_add)
  have val: "digits_val (2 ^ k) (vs @ [v]) = byte_val bytes * 2 ^ (bits + k) + unat w"
    by (simp add: inv(4) buf add_mult_distrib power_add)
  show ?thesis
  proof (cases "bits + k \<ge> 8")
    case True
    then obtain b where b: "bits + k = b + 8" by (metis add.commute le_Suc_ex)
    define x :: "8 word" where "x = ucast (drop_bit b w AND 255)"
    have "unat w div 2 ^ b < 256"
      using small by (simp add: b less_mult_imp_div_less power_add)
    then have x: "unat x = unat w div 2 ^ b" unfolding x_def by (rule unat_top_byte)
    have "byte_val (bytes @ [x]) * 2 ^ b + unat w mod 2 ^ b
        = byte_val bytes * 2 ^ (b + 8) + (unat w div 2 ^ b * 2 ^ b + unat w mod 2 ^ b)"
      by (simp add: byte_val_def x add_mult_distrib power_add)
    then have "digits_val (2 ^ k) (vs @ [v]) = byte_val (bytes @ [x]) * 2 ^ b + unat w mod 2 ^ b"
      using val b by (simp only: div_mult_mod_eq)
    moreover have "k * length (vs @ [v]) = 8 * length (bytes @ [x]) + b" using inv(3) b by simp
    moreover have "dec_symbol k st v = (bytes @ [x], w AND mask b, b)"
      using True b by (simp add: dec_symbol_def st Let_def x_def w_def)
    ultimately show ?thesis using inv(1) assms(2) b
      by (simp add: dec_inv_def unat_mask_and)
  next
    case False
    then have "dec_symbol k st v = (bytes, w AND mask (bits + k), bits + k)"
      by (simp add: dec_symbol_def st Let_def w_def)
    then show ?thesis using False val small inv(3) by (simp add: dec_inv_def unat_mask_and)
  qed
qed

lemma dec_inv_fold:
  "k \<le> 8 \<Longrightarrow> \<forall>v \<in> set vs. v < 2 ^ k \<Longrightarrow> dec_inv k vs (foldl (dec_symbol k) ([], 0, 0) vs)"
proof (induction vs rule: rev_induct)
  case Nil
  show ?case by (simp add: dec_inv_def byte_val_def)
next
  case (snoc v vs)
  then show ?case using dec_inv_step by simp
qed

lemma byte_val_inj: "byte_val bs = byte_val cs \<Longrightarrow> length bs = length cs \<Longrightarrow> bs = cs"
  using digits_val_inj [of 256 "map unat bs" "map unat cs"] unat_byte_less
  by (simp add: byte_val_def inj_map_eq_map injI)

lemma dec_enc: 
  assumes "0 < k" and "k \<le> 8"
  shows "dec_symbols k (enc_bytes k unat bytes) = bytes"
proof -
  let ?syms = "enc_bytes k unat bytes"
  obtain pad where pad: "pad < k" "k * length ?syms = 8 * length bytes + pad"
    "\<forall>s \<in> set ?syms. s < 2 ^ k" "digits_val (2 ^ k) ?syms = byte_val bytes * 2 ^ pad"
    using enc_bytes_spec [OF assms refl, of bytes] by blast
  obtain bs buf bits where st: "foldl (dec_symbol k) ([], 0, 0) ?syms = (bs, buf, bits)"
    by (cases "foldl (dec_symbol k) ([], 0, 0) ?syms") auto
  have inv: "bits < 8" "unat buf < 2 ^ bits" "k * length ?syms = 8 * length bs + bits"
    "digits_val (2 ^ k) ?syms = byte_val bs * 2 ^ bits + unat buf"
    using dec_inv_fold [OF assms(2) pad(3)] by (simp_all add: dec_inv_def st)
  have len: "length bs = length bytes \<and> bits = pad" using pad(1,2) inv(1,3) assms(2) by presburger
  then have "byte_val bytes * 2 ^ pad = byte_val bs * 2 ^ pad + unat buf" using pad(4) inv(4) by simp
  then have "byte_val bytes = (byte_val bs * 2 ^ pad + unat buf) div 2 ^ pad" by (metis nonzero_mult_div_cancel_right power_not_zero zero_neq_numeral)
  also have "\<dots> = byte_val bs" using inv(2) len by simp
  finally have "bytes = bs" using len byte_val_inj by metis
  then show ?thesis unfolding dec_symbols_def st by simp
qed

lemma drain_map: "drain k (\<lambda>v. f (unat v)) buf bits = map_prod (map f) id (drain k unat buf bits)"
proof (induction bits rule: less_induct)
  case (less bits)
  then show ?case
    by (cases "k = 0 \<or> bits < k") (auto simp: drain.simps [of k _ _ bits] split: prod.splits)
qed

lemma enc_byte_map:
  "enc_byte k (\<lambda>v. f (unat v)) (map f r, buf, bits) x = map_prod (map f) id (enc_byte k unat (r, buf, bits) x)"
  by (simp add: enc_byte_def Let_def drain_map split: prod.splits)

lemma enc_fold_map:
  "foldl (enc_byte k (\<lambda>v. f (unat v))) (map f r, st) bytes
    = map_prod (map f) id (foldl (enc_byte k unat) (r, st) bytes)"
proof (induction bytes arbitrary: r st)
  case (Cons x bytes)
  obtain buf bits where st: "st = (buf, bits)" by (cases st)
  obtain r' st' where s': "enc_byte k unat (r, buf, bits) x = (r', st')"
    by (cases "enc_byte k unat (r, buf, bits) x")
  show ?case using Cons.IH [of r' st'] by (simp add: st enc_byte_map s')
qed simp

lemma enc_bytes_map: "enc_bytes k (\<lambda>v. f (unat v)) bytes = map f (enc_bytes k unat bytes)"
  using enc_fold_map [of k f "[]" "(0, 0)" bytes]
  by (simp add: enc_bytes_def split: prod.splits)

lemma index_of_nth: "distinct xs \<Longrightarrow> i < length xs \<Longrightarrow> index_of (xs ! i) xs = i"
proof (induction xs arbitrary: i)
  case (Cons x xs)
  then show ?case by (cases i) (auto simp: in_set_conv_nth)
qed simp

lemma enc_symbols_less: "0 < k \<Longrightarrow> k \<le> 8 \<Longrightarrow> s \<in> set (enc_bytes k unat bytes) \<Longrightarrow> s < 2 ^ k"
  using enc_bytes_spec [of k _ bytes] by metis

text \<open>Coding through an alphabet of \<open>2 ^ k\<close> distinct characters.\<close>

lemma alphabet_roundtrip:
  assumes "0 < k" "k \<le> 8" "distinct abc" "length abc = 2 ^ k"
  defines "s \<equiv> \<lambda>bytes. enc_bytes k (\<lambda>v. abc ! unat v) bytes"
  shows "dec_symbols k (map (\<lambda>c. index_of c abc) (s bytes)) = bytes"
    and "set (s bytes) \<subseteq> set abc"
    and "s bytes = [] \<longleftrightarrow> bytes = []"
proof -
  have s: "s bytes = map (\<lambda>i. abc ! i) (enc_bytes k unat bytes)"
    using enc_bytes_map [of k "\<lambda>i. abc ! i"] by (simp add: s_def)
  have less: "i < length abc" if "i \<in> set (enc_bytes k unat bytes)" for i
    using enc_symbols_less [OF assms(1,2) that] assms(4) by simp
  have "map (\<lambda>c. index_of c abc) (s bytes) = enc_bytes k unat bytes"
    using less by (auto simp: s index_of_nth [OF assms(3)] intro!: map_idI)
  then show "dec_symbols k (map (\<lambda>c. index_of c abc) (s bytes)) = bytes"
    using dec_enc [OF assms(1,2)] by simp
  show "set (s bytes) \<subseteq> set abc" using less by (auto simp: s)
  show "s bytes = [] \<longleftrightarrow> bytes = []"
  proof -
    obtain pad where "pad < k" "k * length (enc_bytes k unat bytes) = 8 * length bytes + pad"
      using enc_bytes_spec [OF assms(1,2) refl, of bytes] by metis
    then have "enc_bytes k unat bytes = [] \<longleftrightarrow> bytes = []"
      using assms(1,2) by (cases "length (enc_bytes k unat bytes)") auto
    then show ?thesis by (simp add: s)
  qed
qed

section \<open>Canonical codecs\<close>

text \<open>
  What the link code relies on: decoding accepts exactly the strings encoding produces from
  admissible values, and gives the value back.
\<close>

locale canonical_codec =
  fixes enc :: "'b \<Rightarrow> string" and dec :: "string \<Rightarrow> schema_error + 'b" and ok :: "'b \<Rightarrow> bool"
  assumes dec_iff: "dec s = Inr b \<longleftrightarrow> ok b \<and> s = enc b"
begin

lemma enc_inj: "ok a \<Longrightarrow> ok b \<Longrightarrow> enc a = enc b \<Longrightarrow> a = b"
  using dec_iff [of "enc a" a] dec_iff [of "enc a" b] by auto

lemma dec_enc_ok: "ok b \<Longrightarrow> dec (enc b) = Inr b"
  by (simp add: dec_iff)

lemma enc_of_dec: "dec s = Inr b \<Longrightarrow> enc b = s"
  by (simp add: dec_iff)

end

lemma alphabet32_ok: "distinct alphabet32" "length alphabet32 = 2 ^ 5"
  by (simp_all add: alphabet32_def)

lemma alphabet64_ok: "distinct alphabet64" "length alphabet64 = 2 ^ 6"
  by (simp_all add: alphabet64_def)

lemmas base32_symbols = alphabet_roundtrip [of 5 alphabet32, OF _ _ alphabet32_ok, simplified, folded base32_def]

lemma unbase32_iff: "unbase32 s = Inr bytes \<longleftrightarrow> bytes \<noteq> [] \<and> s = base32 bytes"
proof
  assume "unbase32 s = Inr bytes"
  then show "bytes \<noteq> [] \<and> s = base32 bytes"
    using base32_symbols(3) [of bytes] by (auto simp: unbase32_def Let_def split: if_splits)
next
  assume s: "bytes \<noteq> [] \<and> s = base32 bytes"
  then have "list_all (\<lambda>c. c \<in> set alphabet32) s" using base32_symbols(2) by (auto simp: list_all_iff)
  then show "unbase32 s = Inr bytes"
    using s base32_symbols(1,3) by (simp add: unbase32_def Let_def)
qed

definition symbols64 :: "8 word list \<Rightarrow> string" where
  "symbols64 bytes = enc_bytes 6 (\<lambda>v. alphabet64 ! unat v) bytes"

lemmas base64_symbols = alphabet_roundtrip [of 6 alphabet64, OF _ _ alphabet64_ok, simplified, folded symbols64_def]

definition to_url :: "char \<Rightarrow> char" where
  "to_url c = (if c = CHR ''+'' then CHR ''-'' else if c = CHR ''/'' then CHR ''_'' else c)"

definition from_url :: "char \<Rightarrow> char" where
  "from_url c = (if c = CHR ''-'' then CHR ''+'' else if c = CHR ''_'' then CHR ''/'' else c)"

lemma alphabet64_url:
  "c \<in> set alphabet64 \<Longrightarrow> from_url (to_url c) = c \<and> url_char (to_url c) \<and> c \<noteq> CHR ''=''
    \<and> to_url c \<noteq> CHR ''='' \<and> c \<notin> set [CHR '' '', CHR 0x09, CHR 0x0A, CHR 0x0C, CHR 0x0D]"
proof -
  have "list_all (\<lambda>c. from_url (to_url c) = c \<and> url_char (to_url c) \<and> c \<noteq> CHR ''=''
    \<and> to_url c \<noteq> CHR ''='' \<and> c \<notin> set [CHR '' '', CHR 0x09, CHR 0x0A, CHR 0x0C, CHR 0x0D]) alphabet64"
    by code_simp
  then show "c \<in> set alphabet64 \<Longrightarrow> ?thesis" by (simp add: list_all_iff)
qed

lemma replace_url:
  "replace_char (CHR ''/'') (CHR ''_'') (replace_char (CHR ''+'') (CHR ''-'') s) = map to_url s"
  "replace_char (CHR ''_'') (CHR ''/'') (replace_char (CHR ''-'') (CHR ''+'') s) = map from_url s"
  by (simp_all add: replace_char_def to_url_def from_url_def)

lemma dropWhile_none: "\<forall>x \<in> set xs. \<not> P x \<Longrightarrow> dropWhile P xs = xs"
  by (cases xs) auto

lemma dropWhile_replicate: "P c \<Longrightarrow> dropWhile P (replicate n c @ xs) = dropWhile P xs"
  by (induction n) auto

lemma base64url_eq: "base64url bytes = map to_url (symbols64 bytes)"
proof -
  have "c \<noteq> CHR ''=''" if "c \<in> set (map to_url (symbols64 bytes))" for c
  proof -
    from that obtain d where "c = to_url d" "d \<in> set alphabet64" using base64_symbols(2) by auto
    then show ?thesis using alphabet64_url [of d] by simp
  qed
  then have "dropWhile (\<lambda>c. c = CHR ''='') (rev (map to_url (symbols64 bytes))) = rev (map to_url (symbols64 bytes))"
    by (intro dropWhile_none) simp
  moreover have "to_url (CHR ''='') = CHR ''=''" by (simp add: to_url_def)
  ultimately show ?thesis
    by (simp add: base64url_def btoa_def replace_url Let_def symbols64_def [symmetric] dropWhile_replicate)
qed

lemma quarter_length: "6 * l = 8 * n + pad \<Longrightarrow> pad < 6 \<Longrightarrow> l mod 4 \<noteq> (1::nat)"
  by presburger

lemma symbols64_length: "length (symbols64 bytes) mod 4 \<noteq> 1"
proof -
  have "length (symbols64 bytes) = length (enc_bytes 6 unat bytes)"
    using enc_bytes_map [of 6 "\<lambda>i. alphabet64 ! i" bytes] by (simp add: symbols64_def)
  moreover obtain pad where "pad < 6" "6 * length (enc_bytes 6 unat bytes) = 8 * length bytes + pad"
    by (rule enc_bytes_spec [of 6 "enc_bytes 6 unat bytes" bytes]) simp_all
  ultimately show ?thesis using quarter_length by metis
qed

lemma atob_symbols: "atob (symbols64 bytes) = Some bytes"
proof -
  have abc: "c \<in> set alphabet64" if "c \<in> set (symbols64 bytes)" for c
    using that base64_symbols(2) by auto
  have "filter (\<lambda>c. c \<notin> set [CHR '' '', CHR 0x09, CHR 0x0A, CHR 0x0C, CHR 0x0D]) (symbols64 bytes)
      = symbols64 bytes"
    using abc alphabet64_url by (intro filter_True) blast
  moreover have "strip_padding (symbols64 bytes) = symbols64 bytes"
    using abc alphabet64_url last_in_set [of "symbols64 bytes"]
    unfolding strip_padding_def by metis
  moreover have "list_all (\<lambda>c. c \<in> set alphabet64) (symbols64 bytes)"
    using abc by (simp add: list_all_iff)
  ultimately show ?thesis
    using symbols64_length [of bytes] base64_symbols(1) [of bytes] by (simp only: atob_def Let_def) simp
qed

lemma unbase64url_iff: "unbase64url s = Inr bytes \<longleftrightarrow> bytes \<noteq> [] \<and> s = base64url bytes"
proof
  assume "unbase64url s = Inr bytes"
  then show "bytes \<noteq> [] \<and> s = base64url bytes"
    using base64_symbols(3) [of bytes]
    by (auto simp: unbase64url_def base64url_eq split: if_splits option.splits)
next
  assume s: "bytes \<noteq> [] \<and> s = base64url bytes"
  have abc: "c \<in> set alphabet64" if "c \<in> set (symbols64 bytes)" for c
    using that base64_symbols(2) by auto
  have "list_all url_char s"
    using s abc alphabet64_url by (auto simp: base64url_eq list_all_iff)
  moreover have "map from_url s = symbols64 bytes"
    using s abc alphabet64_url by (auto simp: base64url_eq intro!: map_idI)
  moreover have "s \<noteq> []" "length s mod 4 \<noteq> 1"
    using s base64_symbols(3) symbols64_length by (auto simp: base64url_eq)
  ultimately show "unbase64url s = Inr bytes"
    using s atob_symbols [of bytes] by (simp add: unbase64url_def replace_url)
qed

interpretation b32: canonical_codec base32 unbase32 "\<lambda>bytes. bytes \<noteq> []"
  by unfold_locales (rule unbase32_iff)

interpretation b64: canonical_codec base64url unbase64url "\<lambda>bytes. bytes \<noteq> []"
  by unfold_locales (rule unbase64url_iff)

text \<open>
  C26. Both byte codecs are canonical.  \<^verbatim>\<open>unbase32\<close> accepts a string exactly when \<^verbatim>\<open>base32\<close> produces it
  from a non-empty sequence of bytes and returns those bytes, and likewise \<^verbatim>\<open>unbase64url\<close> for
  \<^verbatim>\<open>base64url\<close>: no two strings decode to the same bytes, and no padded, truncated or otherwise
  altered form of a link is accepted.
\<close>

theorem byte_codecs_canonical:
  "(unbase32 s = Inr bytes \<longleftrightarrow> bytes \<noteq> [] \<and> s = base32 bytes)
   \<and> (unbase64url t = Inr bytes \<longleftrightarrow> bytes \<noteq> [] \<and> t = base64url bytes)"
  by (simp add: b32.dec_iff b64.dec_iff)

end
