(* ===== verification/Link_Schema.thy ===== *)
theory Link_Schema
  imports Link_Base32
begin

text \<open>
  Links of the clients, \<^verbatim>\<open>packages/schema/src/link.ts\<close>: parsing a scanned or pasted string into a
  navigation, an action, a web address or an OAuth callback, and producing links.  The protobuf
  runtime and the URL parser are outside code: \<open>protobuf\<close> holds the four message codecs and
  \<open>parse_url\<close> stands for \<^verbatim>\<open>new URL\<close>.  A character of a string is a code point below 256; one from 128
  on takes two bytes of UTF-8.
\<close>

section \<open>Messages\<close>

text \<open>
  The messages of the schema, with the fields the link code reads; what else a message carries is
  \<open>rest\<close>.
\<close>

type_synonym bytes = "8 word list"

record device_link_locator =
  dl_protocolVersion :: nat
  dl_bootstrapSecret :: bytes
  dl_stationRootEd25519 :: bytes
  dl_offerDigest :: bytes
  dl_canonicalDiscoveryOrigin :: string
  dl_expiresAtUnixMs :: int
  dl_endpointRole :: nat
  dl_relayEd25519 :: bytes
  dl_rest :: bytes

record public_material =
  pm_schemaVersion :: nat
  pm_canonicalDiscoveryOrigin :: string
  pm_rest :: bytes

record connection_envelope =
  ce_protocolVersion :: nat
  ce_connectionGrant :: "bytes option"
  ce_routeAttestation :: "bytes option"
  ce_relayOrigin :: string
  ce_rest :: bytes

datatype action_case =
    DeviceLinkOffer bytes
  | DeviceLinkLocator device_link_locator
  | PublicConnection public_material
  | CircuitConnection connection_envelope
  | ConversationId string
  | ActorPtid string
  | InviteCode string

record schema_action =
  sa_protocolVersion :: nat
  sa_action :: "action_case option"

text \<open>\<^verbatim>\<open>toBinary\<close> and \<^verbatim>\<open>fromBinary\<close> of a message type; \<open>None\<close> when \<^verbatim>\<open>fromBinary\<close> throws.\<close>

record 'm message_codec =
  toBinary :: "'m \<Rightarrow> bytes"
  fromBinary :: "bytes \<Rightarrow> 'm option"

record protobuf =
  actions :: "schema_action message_codec"
  locators :: "device_link_locator message_codec"
  materials :: "public_material message_codec"
  envelopes :: "connection_envelope message_codec"

record url =
  u_protocol :: string
  u_username :: string
  u_password :: string
  u_hostname :: string
  u_pathname :: string
  u_port :: string
  u_params :: "(string \<times> string) list"

section \<open>Links\<close>

datatype nav_resource =
    cron | sessions | settings | channels | marketplace | evaluation | documents | chat | moments

fun resource_name :: "nav_resource \<Rightarrow> string" where
  "resource_name cron = ''cron''"
| "resource_name sessions = ''sessions''"
| "resource_name settings = ''settings''"
| "resource_name channels = ''channels''"
| "resource_name marketplace = ''marketplace''"
| "resource_name evaluation = ''evaluation''"
| "resource_name documents = ''documents''"
| "resource_name chat = ''chat''"
| "resource_name moments = ''moments''"

text \<open>\<open>nl_runs\<close> says that \<^verbatim>\<open>subResource\<close> is \<^verbatim>\<open>'runs'\<close>, its only value.\<close>

record navigation_link =
  nl_resource :: nav_resource
  nl_id :: "string option"
  nl_runs :: bool
  nl_subId :: "string option"

datatype link_input = UrlIn string | NavigationIn navigation_link | ActionIn schema_action

datatype parsed_link =
    Url string | Navigation navigation_link | Action schema_action | OauthCallback string

datatype parse_result = Recognized parsed_link | Malformed schema_error | Unsupported schema_error

text \<open>What a step of parsing throws: a \<^verbatim>\<open>SchemaError\<close> or anything else.\<close>

datatype link_thrown = SchemaError schema_error | OtherError

definition MAX_LINK_BYTES :: int where
  "MAX_LINK_BYTES = 32768"

definition DEVICE_PREFIX :: string where
  "DEVICE_PREFIX = ''peers-touch://device/link#''"

definition DEVICE_REFERENCE_PREFIX :: string where
  "DEVICE_REFERENCE_PREFIX = DEVICE_PREFIX @ ''B32:''"

definition ACTION_PREFIX :: string where
  "ACTION_PREFIX = ''peers-touch://action/v1#''"

definition utf8_length :: "string \<Rightarrow> int" where
  "utf8_length s = sum_list (map (\<lambda>c. if c < CHR 0x80 then 1 else 2) s)"

definition control_or_space :: "char \<Rightarrow> bool" where
  "control_or_space c \<longleftrightarrow> c \<le> CHR 0x20 \<or> c = CHR 0x7F"

definition bounded :: "string \<Rightarrow> schema_error option" where
  "bounded s =
     (if utf8_length s > MAX_LINK_BYTES then Some PAYLOAD_TOO_LARGE
      else if s = [] \<or> list_ex (\<lambda>c. control_or_space c \<or> c = CHR 0x5C) s then Some INVALID_LINK
      else None)"

definition bad_action_text :: "string \<Rightarrow> bool" where
  "bad_action_text t \<longleftrightarrow> t = [] \<or> utf8_length t > 512 \<or> list_ex control_or_space t"

definition validateAction :: "schema_action \<Rightarrow> schema_error option" where
  "validateAction a =
     (if sa_protocolVersion a \<noteq> 1 \<or> sa_action a = None then Some UNREGISTERED_ACTION
      else case the (sa_action a) of
             ConversationId t \<Rightarrow> if bad_action_text t then Some INVALID_LINK else None
           | ActorPtid t \<Rightarrow> if bad_action_text t then Some INVALID_LINK else None
           | InviteCode t \<Rightarrow> if bad_action_text t then Some INVALID_LINK else None
           | _ \<Rightarrow> None)"

definition isLocator :: "schema_action \<Rightarrow> bool" where
  "isLocator a \<longleftrightarrow> (case sa_action a of Some (DeviceLinkLocator _) \<Rightarrow> True | _ \<Rightarrow> False)"

definition isDeviceAction :: "schema_action \<Rightarrow> bool" where
  "isDeviceAction a \<longleftrightarrow>
     (case sa_action a of Some (DeviceLinkOffer _) \<Rightarrow> True | Some (DeviceLinkLocator _) \<Rightarrow> True | _ \<Rightarrow> False)"

definition canonicalAction :: "protobuf \<Rightarrow> bytes \<Rightarrow> link_thrown + schema_action" where
  "canonicalAction pb bs =
     (case fromBinary (actions pb) bs of
        None \<Rightarrow> Inl OtherError
      | Some a \<Rightarrow>
          (case validateAction a of
             Some code \<Rightarrow> Inl (SchemaError code)
           | None \<Rightarrow> if toBinary (actions pb) a \<noteq> bs then Inl (SchemaError INVALID_LINK) else Inr a))"

section \<open>Navigation\<close>

definition segment_char :: "char \<Rightarrow> bool" where
  "segment_char c \<longleftrightarrow> (CHR ''A'' \<le> c \<and> c \<le> CHR ''Z'') \<or> (CHR ''a'' \<le> c \<and> c \<le> CHR ''z'')
     \<or> (CHR ''0'' \<le> c \<and> c \<le> CHR ''9'') \<or> c \<in> set ''_.~-''"

definition segment :: "string \<Rightarrow> bool" where
  "segment s \<longleftrightarrow> s \<noteq> [] \<and> length s \<le> 256 \<and> list_all segment_char s"

fun split_slash :: "string \<Rightarrow> string list" where
  "split_slash [] = [[]]"
| "split_slash (c # cs) =
     (case split_slash cs of
        [] \<Rightarrow> [[c]]
      | p # ps \<Rightarrow> if c = CHR ''/'' then [] # p # ps else (c # p) # ps)"

definition nav :: "nav_resource \<Rightarrow> string option \<Rightarrow> navigation_link" where
  "nav r i = \<lparr>nl_resource = r, nl_id = i, nl_runs = False, nl_subId = None\<rparr>"

definition first_of :: "string list \<Rightarrow> string option" where
  "first_of path = (case path of [] \<Rightarrow> None | p # _ \<Rightarrow> Some p)"

definition parse_path :: "string \<Rightarrow> string list \<Rightarrow> navigation_link option" where
  "parse_path resource path =
     (if resource = ''cron'' then
        (if path = [] then Some (nav cron None)
         else if (length path = 2 \<or> length path = 4) \<and> path ! 0 = ''jobs''
                 \<and> (length path = 2 \<or> path ! 2 = ''runs'')
         then Some (if length path = 4
                    then \<lparr>nl_resource = cron, nl_id = Some (path ! 1), nl_runs = True, nl_subId = Some (path ! 3)\<rparr>
                    else nav cron (Some (path ! 1)))
         else None)
      else if resource = ''sessions'' then if length path \<le> 1 then Some (nav sessions (first_of path)) else None
      else if resource = ''settings'' then if length path \<le> 1 then Some (nav settings (first_of path)) else None
      else if resource = ''channels'' then if length path \<le> 1 then Some (nav channels (first_of path)) else None
      else if resource = ''marketplace'' then if path = [] then Some (nav marketplace None) else None
      else if resource = ''evaluation'' then if path = [] then Some (nav evaluation None) else None
      else if resource = ''documents'' then if path = [] then Some (nav documents None) else None
      else if resource = ''chat'' then if path = [] then Some (nav chat None) else None
      else if resource = ''moments'' then if length path \<le> 1 then Some (nav moments (first_of path)) else None
      else None)"

definition parseNavigation :: "string \<Rightarrow> navigation_link option" where
  "parseNavigation s =
     (if \<not> starts_with ''pt://'' s then None
      else let parts = split_slash (drop 5 s) in
           if list_ex (\<lambda>p. \<not> segment p \<or> p = ''.'' \<or> p = ''..'') parts then None
           else parse_path (hd parts) (tl parts))"

section \<open>Parsing\<close>

definition lift_schema :: "schema_error + 'a \<Rightarrow> link_thrown + 'a" where
  "lift_schema r = (case r of Inl code \<Rightarrow> Inl (SchemaError code) | Inr x \<Rightarrow> Inr x)"

definition bind_link :: "link_thrown + 'a \<Rightarrow> ('a \<Rightarrow> link_thrown + 'b) \<Rightarrow> link_thrown + 'b" where
  "bind_link r f = (case r of Inl err \<Rightarrow> Inl err | Inr x \<Rightarrow> f x)"

definition action_link :: "action_case \<Rightarrow> parsed_link" where
  "action_link c = Action \<lparr>sa_protocolVersion = 1, sa_action = Some c\<rparr>"

text \<open>
  The comparison of the relay key with the station root runs over the relay key, so that a shorter
  root is never equal to it at the positions it lacks.
\<close>

definition locator_ok :: "device_link_locator \<Rightarrow> bool" where
  "locator_ok r \<longleftrightarrow>
     \<not> (dl_protocolVersion r \<noteq> 1 \<or> length (dl_bootstrapSecret r) \<noteq> 32
        \<or> length (dl_stationRootEd25519 r) \<noteq> 32 \<or> length (dl_offerDigest r) \<noteq> 32
        \<or> dl_canonicalDiscoveryOrigin r = [] \<or> dl_expiresAtUnixMs r \<le> 0
        \<or> (dl_endpointRole r \<noteq> 1 \<and> dl_endpointRole r \<noteq> 2)
        \<or> length (dl_relayEd25519 r) \<noteq> (if dl_endpointRole r = 2 then 32 else 0)
        \<or> (dl_endpointRole r = 2
            \<and> list_all (\<lambda>i. i < length (dl_stationRootEd25519 r)
                             \<and> dl_relayEd25519 r ! i = dl_stationRootEd25519 r ! i)
                [0..<length (dl_relayEd25519 r)]))"

definition parse_reference :: "protobuf \<Rightarrow> string \<Rightarrow> link_thrown + parsed_link" where
  "parse_reference pb body =
     bind_link (lift_schema (unbase32 body)) (\<lambda>bs.
       case fromBinary (locators pb) bs of
         None \<Rightarrow> Inl OtherError
       | Some r \<Rightarrow> if \<not> locator_ok r \<or> toBinary (locators pb) r \<noteq> bs then Inl (SchemaError INVALID_LINK)
                   else Inr (action_link (DeviceLinkLocator r)))"

definition parse_action :: "protobuf \<Rightarrow> bool \<Rightarrow> string \<Rightarrow> link_thrown + parsed_link" where
  "parse_action pb device body =
     bind_link (lift_schema (unbase64url body)) (\<lambda>bs.
     bind_link (canonicalAction pb bs) (\<lambda>a.
       if isLocator a \<or> isDeviceAction a \<noteq> device then Inl (SchemaError INVALID_LINK)
       else Inr (Action a)))"

definition parse_material :: "protobuf \<Rightarrow> string \<Rightarrow> link_thrown + parsed_link" where
  "parse_material pb body =
     bind_link (lift_schema (unbase64url body)) (\<lambda>bs.
       case fromBinary (materials pb) bs of
         None \<Rightarrow> Inl OtherError
       | Some m \<Rightarrow> if pm_schemaVersion m \<noteq> 1 \<or> pm_canonicalDiscoveryOrigin m = [] \<or> toBinary (materials pb) m \<noteq> bs
                   then Inl (SchemaError INVALID_LINK) else Inr (action_link (PublicConnection m)))"

definition parse_connection :: "protobuf \<Rightarrow> string \<Rightarrow> link_thrown + parsed_link" where
  "parse_connection pb body =
     bind_link (lift_schema (unbase64url body)) (\<lambda>bs.
       case fromBinary (envelopes pb) bs of
         None \<Rightarrow> Inl OtherError
       | Some c \<Rightarrow> if ce_protocolVersion c \<noteq> 1 \<or> ce_connectionGrant c = None \<or> ce_routeAttestation c = None
                      \<or> ce_relayOrigin c = [] \<or> toBinary (envelopes pb) c \<noteq> bs
                   then Inl (SchemaError INVALID_LINK) else Inr (action_link (CircuitConnection c)))"

definition param_set :: "url \<Rightarrow> string \<Rightarrow> bool" where
  "param_set u key \<longleftrightarrow> (case map_of (u_params u) key of None \<Rightarrow> False | Some v \<Rightarrow> v \<noteq> [])"

definition parse_web :: "(string \<Rightarrow> url option) \<Rightarrow> string \<Rightarrow> link_thrown + parsed_link" where
  "parse_web parse_url s =
     (case parse_url s of
        None \<Rightarrow> Inl (SchemaError UNREGISTERED_ACTION)
      | Some u \<Rightarrow>
          if u_username u \<noteq> [] \<or> u_password u \<noteq> [] then Inl (SchemaError INVALID_LINK)
          else if u_protocol u = ''http:'' \<or> u_protocol u = ''https:'' then Inr (Url s)
          else if starts_with ''peers-touch://oauth/callback?'' s \<and> u_hostname u = ''oauth''
                  \<and> u_pathname u = ''/callback'' \<and> u_port u = [] \<and> CHR ''#'' \<notin> set s
          then (let keys = map fst (u_params u) in
                if \<not> distinct keys \<or> \<not> param_set u ''state'' \<or> param_set u ''code'' = param_set u ''error''
                then Inl (SchemaError INVALID_LINK)
                else if \<not> set keys \<subseteq> {''code'', ''state'', ''error'', ''error_description''}
                then Inl (SchemaError INVALID_LINK)
                else Inr (OauthCallback s))
          else Inl (SchemaError UNREGISTERED_ACTION))"

definition parseRecognized ::
  "protobuf \<Rightarrow> (string \<Rightarrow> url option) \<Rightarrow> string \<Rightarrow> link_thrown + parsed_link" where
  "parseRecognized pb parse_url s =
     (case bounded s of
        Some code \<Rightarrow> Inl (SchemaError code)
      | None \<Rightarrow>
          if starts_with DEVICE_REFERENCE_PREFIX s
          then parse_reference pb (drop (length DEVICE_REFERENCE_PREFIX) s)
          else if starts_with ''pt://'' s
          then (case parseNavigation s of
                  None \<Rightarrow> Inl (SchemaError INVALID_LINK) | Some n \<Rightarrow> Inr (Navigation n))
          else if starts_with DEVICE_PREFIX s then parse_action pb True (drop (length DEVICE_PREFIX) s)
          else if starts_with ACTION_PREFIX s then parse_action pb False (drop (length ACTION_PREFIX) s)
          else if starts_with ''ptm1:'' s then parse_material pb (drop 5 s)
          else if starts_with ''ptc1:'' s then parse_connection pb (drop 5 s)
          else if starts_with ''peers-touch://connect#'' s then parse_connection pb (drop 22 s)
          else parse_web parse_url s)"

definition parse :: "protobuf \<Rightarrow> (string \<Rightarrow> url option) \<Rightarrow> string \<Rightarrow> parse_result" where
  "parse pb parse_url s =
     (case parseRecognized pb parse_url s of
        Inr link \<Rightarrow> Recognized link
      | Inl (SchemaError UNREGISTERED_ACTION) \<Rightarrow> Unsupported UNREGISTERED_ACTION
      | Inl (SchemaError PAYLOAD_TOO_LARGE) \<Rightarrow> Malformed PAYLOAD_TOO_LARGE
      | Inl _ \<Rightarrow> Malformed INVALID_LINK)"

section \<open>Encoding\<close>

definition set_text :: "string option \<Rightarrow> bool" where
  "set_text t \<longleftrightarrow> t \<noteq> None \<and> t \<noteq> Some []"

definition navigation_string :: "navigation_link \<Rightarrow> string" where
  "navigation_string n =
     ''pt://'' @ resource_name (nl_resource n)
     @ (if set_text (nl_id n)
        then (if nl_resource n = cron then ''/jobs/'' else ''/'') @ the (nl_id n) else [])
     @ (if nl_runs n \<or> set_text (nl_subId n)
        then ''/runs/'' @ (case nl_subId n of None \<Rightarrow> [] | Some i \<Rightarrow> i) else [])"

definition action_string :: "protobuf \<Rightarrow> schema_action \<Rightarrow> string" where
  "action_string pb a =
     (case sa_action a of
        Some (DeviceLinkLocator r) \<Rightarrow> DEVICE_REFERENCE_PREFIX @ base32 (toBinary (locators pb) r)
      | _ \<Rightarrow> (if isDeviceAction a then DEVICE_PREFIX else ACTION_PREFIX) @ base64url (toBinary (actions pb) a))"

fun same_kind :: "link_input \<Rightarrow> parsed_link \<Rightarrow> bool" where
  "same_kind (UrlIn _) (Url _) = True"
| "same_kind (NavigationIn _) (Navigation _) = True"
| "same_kind (ActionIn _) (Action _) = True"
| "same_kind _ _ = False"

definition encode :: "protobuf \<Rightarrow> (string \<Rightarrow> url option) \<Rightarrow> link_input \<Rightarrow> schema_error + string" where
  "encode pb parse_url inp =
     (let check = (\<lambda>s. case parse pb parse_url s of
            Recognized link \<Rightarrow> if same_kind inp link then Inr s else Inl INVALID_LINK
          | Malformed code \<Rightarrow> Inl code
          | Unsupported code \<Rightarrow> Inl code)
      in case inp of
           ActionIn a \<Rightarrow> (case validateAction a of Some code \<Rightarrow> Inl code | None \<Rightarrow> check (action_string pb a))
         | NavigationIn n \<Rightarrow> check (navigation_string n)
         | UrlIn s \<Rightarrow> check s)"

section \<open>Prefixes and path segments\<close>

lemma split_slash_nonempty [simp]: "split_slash s \<noteq> []"
  by (induction s) (auto split: list.splits)

lemma split_slash_plain [simp]: "CHR ''/'' \<notin> set a \<Longrightarrow> split_slash a = [a]"
  by (induction a) auto

lemma split_slash_Slash [simp]: "split_slash (CHR ''/'' # s) = [] # split_slash s"
  using split_slash_nonempty [of s] by (auto split: list.splits)

lemma split_slash_append [simp]:
  "CHR ''/'' \<notin> set a \<Longrightarrow> split_slash (a @ CHR ''/'' # b) = a # split_slash b"
  by (induction a) (auto split: list.splits)

lemma join_with_Cons: "ys \<noteq> [] \<Longrightarrow> join_with sep (x # ys) = x @ sep @ join_with sep ys"
  by (cases ys) auto

lemma join_split: "join_with ''/'' (split_slash s) = s"
proof (induction s)
  case (Cons c s)
  obtain p ps where ps: "split_slash s = p # ps" by (cases "split_slash s") auto
  show ?case
  proof (cases "c = CHR ''/''")
    case True
    then show ?thesis using Cons.IH by (simp add: ps)
  next
    case False
    have "join_with ''/'' ((c # p) # ps) = c # join_with ''/'' (p # ps)" by (cases ps) auto
    then show ?thesis using Cons.IH False by (simp add: ps)
  qed
qed simp

lemma pt_prefix:
  "starts_with ''pt://'' (''pt://'' @ s)" "\<not> starts_with DEVICE_REFERENCE_PREFIX (''pt://'' @ s)"
  by (auto simp: starts_with_def DEVICE_REFERENCE_PREFIX_def DEVICE_PREFIX_def)

lemma device_prefix:
  "\<not> starts_with ''pt://'' (DEVICE_PREFIX @ s)" 
  "starts_with DEVICE_REFERENCE_PREFIX (DEVICE_PREFIX @ s) \<longleftrightarrow> starts_with ''B32:'' s"
  by (auto simp: starts_with_def DEVICE_REFERENCE_PREFIX_def DEVICE_PREFIX_def)

lemma action_prefix:
  "\<not> starts_with ''pt://'' (ACTION_PREFIX @ s)" "\<not> starts_with DEVICE_REFERENCE_PREFIX (ACTION_PREFIX @ s)"
  "\<not> starts_with DEVICE_PREFIX (ACTION_PREFIX @ s)"
  by (auto simp: starts_with_def DEVICE_REFERENCE_PREFIX_def DEVICE_PREFIX_def ACTION_PREFIX_def)

lemma b32_not_url: "starts_with ''B32:'' (base64url bs) \<Longrightarrow> False"
proof -
  assume "starts_with ''B32:'' (base64url bs)"
  then have "CHR '':'' \<in> set (base64url bs)" by (auto simp: starts_with_iff)
  then obtain d where "d \<in> set alphabet64" "to_url d = CHR '':''"
    using base64_symbols(2) [of bs] by (auto simp: base64url_eq)
  then show False using alphabet64_url [of d] by (simp add: url_char_def)
qed

section \<open>Navigation there and back\<close>

definition slash_free :: "navigation_link \<Rightarrow> bool" where
  "slash_free n \<longleftrightarrow> pred_option (\<lambda>i. CHR ''/'' \<notin> set i) (nl_id n)
     \<and> pred_option (\<lambda>i. CHR ''/'' \<notin> set i) (nl_subId n)"

definition normal_navigation :: "navigation_link \<Rightarrow> navigation_link" where
  "normal_navigation n =
     n\<lparr>nl_id := if set_text (nl_id n) then nl_id n else None,
       nl_runs := nl_runs n \<or> set_text (nl_subId n),
       nl_subId := if set_text (nl_subId n) then nl_subId n else None\<rparr>"

lemma resource_plain [simp]: "CHR ''/'' \<notin> set (resource_name r)"
  by (cases r) simp_all

definition nav_path :: "navigation_link \<Rightarrow> string list" where
  "nav_path n =
     (if set_text (nl_id n) then (if nl_resource n = cron then [''jobs''] else []) @ [the (nl_id n)] else [])
     @ (if nl_runs n \<or> set_text (nl_subId n)
        then [''runs'', case nl_subId n of None \<Rightarrow> [] | Some i \<Rightarrow> i] else [])"

lemma split_navigation:
  assumes "slash_free n"
  shows "split_slash (drop 5 (navigation_string n)) = resource_name (nl_resource n) # nav_path n"
proof -
  have i: "CHR ''/'' \<notin> set i" if "nl_id n = Some i \<or> nl_subId n = Some i" for i
    using assms that by (auto simp: slash_free_def)
  show ?thesis
    using i by (auto simp: navigation_string_def nav_path_def set_text_def split: option.split)
qed

lemma path_navigation:
  assumes "parse_path (resource_name (nl_resource n)) (nav_path n) = Some n'" and "[] \<notin> set (nav_path n)"
  shows "n' = normal_navigation n"
proof (cases n)
  case (fields r i runs sub)
  show ?thesis
    using assms unfolding fields
    by (cases r; cases "set_text i"; cases "runs \<or> set_text sub")
      (auto simp: nav_path_def parse_path_def normal_navigation_def nav_def first_of_def set_text_def
        split: option.splits if_splits)
qed

lemma path_string:
  assumes "parse_path res path = Some n" and "[] \<notin> set path"
  shows "navigation_string n = ''pt://'' @ join_with ''/'' (res # path)"
  using assms
  by (auto simp: parse_path_def nav_def first_of_def navigation_string_def set_text_def
      numeral_eq_Suc length_Suc_conv le_Suc_eq split: if_splits list.splits)

lemma parse_navigation_parts:
  assumes "parseNavigation s = Some n"
  obtains r where "s = ''pt://'' @ r" "[] \<notin> set (split_slash r)"
    "parse_path (hd (split_slash r)) (tl (split_slash r)) = Some n"
proof -
  obtain r where r: "s = ''pt://'' @ r"
    using assms by (auto simp: parseNavigation_def starts_with_iff split: if_splits)
  have "list_all segment (split_slash r)"
    "parse_path (hd (split_slash r)) (tl (split_slash r)) = Some n"
    using assms by (auto simp: parseNavigation_def r Let_def list_ex_iff list_all_iff split: if_splits)
  moreover then have "[] \<notin> set (split_slash r)" by (auto simp: list_all_iff segment_def)
  ultimately show thesis using r that by blast
qed

lemma navigation_reencode: "parseNavigation s = Some n \<Longrightarrow> navigation_string n = s"
proof (erule parse_navigation_parts)
  fix r
  assume s: "s = ''pt://'' @ r" and ne: "[] \<notin> set (split_slash r)"
    and p: "parse_path (hd (split_slash r)) (tl (split_slash r)) = Some n"
  have "[] \<notin> set (tl (split_slash r))" using ne by (metis list.set_sel(2) split_slash_nonempty)
  with p have "navigation_string n = ''pt://'' @ join_with ''/'' (split_slash r)"
    using path_string [OF p] by simp
  then show "navigation_string n = s" by (simp add: s join_split)
qed

lemma navigation_reparse:
  assumes "slash_free n" and "parseNavigation (navigation_string n) = Some n'"
  shows "n' = normal_navigation n"
proof -
  obtain r where r: "navigation_string n = ''pt://'' @ r" "[] \<notin> set (split_slash r)"
    "parse_path (hd (split_slash r)) (tl (split_slash r)) = Some n'"
    using parse_navigation_parts [OF assms(2)] .
  have "split_slash r = resource_name (nl_resource n) # nav_path n"
    using split_navigation [OF assms(1)] by (simp add: r(1))
  then show ?thesis using r(2,3) path_navigation [of n n'] by simp
qed

section \<open>What each form of link parses to\<close>

lemma parse_iff: "parse pb pu s = Recognized l \<longleftrightarrow> parseRecognized pb pu s = Inr l"
  by (auto simp: parse_def split: sum.splits link_thrown.splits schema_error.splits)

lemma bind_link_Inr: "bind_link r f = Inr y \<longleftrightarrow> (\<exists>x. r = Inr x \<and> f x = Inr y)"
  by (cases r) (simp_all add: bind_link_def)

lemma lift_schema_Inr: "lift_schema r = Inr x \<longleftrightarrow> r = Inr x"
  by (cases r) (simp_all add: lift_schema_def)

lemma decode_case:
  "(case x of None \<Rightarrow> Inl e | Some r \<Rightarrow> if P r then Inl e' else Inr (f r)) = Inr l \<longleftrightarrow>
     (\<exists>r. x = Some r \<and> \<not> P r \<and> l = f r)"
  by (cases x) auto

lemma canonicalAction_Inr:
  "canonicalAction pb bs = Inr a \<longleftrightarrow>
     fromBinary (actions pb) bs = Some a \<and> validateAction a = None \<and> toBinary (actions pb) a = bs"
  by (auto simp: canonicalAction_def split: option.splits)

lemma parse_reference_Inr:
  "parse_reference pb body = Inr l \<longleftrightarrow>
     (\<exists>bs r. bs \<noteq> [] \<and> body = base32 bs \<and> fromBinary (locators pb) bs = Some r \<and> locator_ok r
        \<and> toBinary (locators pb) r = bs \<and> l = action_link (DeviceLinkLocator r))"
  unfolding parse_reference_def bind_link_Inr lift_schema_Inr b32.dec_iff decode_case by blast

lemma parse_action_Inr:
  "parse_action pb device body = Inr l \<longleftrightarrow>
     (\<exists>bs a. bs \<noteq> [] \<and> body = base64url bs \<and> fromBinary (actions pb) bs = Some a \<and> validateAction a = None
        \<and> toBinary (actions pb) a = bs \<and> \<not> isLocator a \<and> isDeviceAction a = device \<and> l = Action a)"
  unfolding parse_action_def bind_link_Inr lift_schema_Inr b64.dec_iff canonicalAction_Inr
  by (auto split: if_splits)

lemma parse_other_Inr:
  "parse_material pb body = Inr l \<Longrightarrow> \<exists>c. l = action_link c"
  "parse_connection pb body = Inr l \<Longrightarrow> \<exists>c. l = action_link c"
  "parse_web pu s = Inr l \<Longrightarrow> l = Url s \<or> l = OauthCallback s"
  by (auto simp: parse_material_def parse_connection_def parse_web_def bind_link_Inr Let_def
      split: option.splits if_splits)

lemma recognized_navigation:
  "parse pb pu s = Recognized (Navigation n) \<Longrightarrow> parseNavigation s = Some n"
  by (auto simp: parse_iff parseRecognized_def parse_reference_Inr parse_action_Inr action_link_def
      split: option.splits if_splits dest!: parse_other_Inr)

lemma recognized_url: "parse pb pu s = Recognized (Url v) \<Longrightarrow> v = s"
  by (auto simp: parse_iff parseRecognized_def parse_reference_Inr parse_action_Inr action_link_def
      split: option.splits if_splits dest!: parse_other_Inr)

lemma action_string_device:
  "sa_action a \<noteq> None \<Longrightarrow> \<not> isLocator a \<Longrightarrow>
     action_string pb a = (if isDeviceAction a then DEVICE_PREFIX else ACTION_PREFIX) @ base64url (toBinary (actions pb) a)"
  by (auto simp: action_string_def isLocator_def split: option.splits action_case.splits)

lemma validate_fields: "validateAction a = None \<Longrightarrow> sa_protocolVersion a = 1 \<and> sa_action a \<noteq> None"
  by (auto simp: validateAction_def split: if_splits)

definition canonical_form :: "string \<Rightarrow> bool" where
  "canonical_form s \<longleftrightarrow> starts_with DEVICE_PREFIX s \<or> starts_with ACTION_PREFIX s"

lemma recognized_action:
  assumes "parse pb pu s = Recognized (Action a)" and "canonical_form s"
  shows "validateAction a = None \<and> action_string pb a = s"
  using assms(2) unfolding canonical_form_def
proof
  assume "starts_with ACTION_PREFIX s"
  then obtain body where s: "s = ACTION_PREFIX @ body" by (auto simp: starts_with_iff)
  have "parse_action pb False body = Inr (Action a)"
    using assms(1) by (auto simp: parse_iff parseRecognized_def s action_prefix split: option.splits)
  then show ?thesis using action_string_device [of a pb] validate_fields [of a]
    by (auto simp: parse_action_Inr s)
next
  assume "starts_with DEVICE_PREFIX s"
  then obtain body where s: "s = DEVICE_PREFIX @ body" by (auto simp: starts_with_iff)
  show ?thesis
  proof (cases "starts_with ''B32:'' body")
    case True
    then obtain ref where ref: "s = DEVICE_REFERENCE_PREFIX @ ref"
      by (auto simp: s starts_with_iff DEVICE_REFERENCE_PREFIX_def)
    have "parse_reference pb ref = Inr (Action a)"
      using assms(1) by (auto simp: parse_iff parseRecognized_def ref split: option.splits)
    then show ?thesis
      by (auto simp: parse_reference_Inr action_link_def validateAction_def action_string_def ref)
  next
    case False
    then have "parse_action pb True body = Inr (Action a)"
      using assms(1)
      by (auto simp: parse_iff parseRecognized_def s device_prefix split: option.splits if_splits)
    then show ?thesis using action_string_device [of a pb] validate_fields [of a]
      by (auto simp: parse_action_Inr s)
  qed
qed

section \<open>Reading a link back into its input\<close>

fun input_of :: "parsed_link \<Rightarrow> link_input option" where
  "input_of (Url v) = Some (UrlIn v)"
| "input_of (Navigation n) = Some (NavigationIn n)"
| "input_of (Action a) = Some (ActionIn a)"
| "input_of (OauthCallback v) = None"

text \<open>
  A recognised link is the only spelling of what it means.  Whatever the protobuf runtime and the
  URL parser do, encoding the recognised web address, navigation or action of a link gives back that
  very string, for an action when the link is in one of the two forms \<^verbatim>\<open>encode\<close> produces.
\<close>

theorem link_reencode:
  assumes "parse pb pu s = Recognized l" and "input_of l = Some inp"
    and "\<And>a. l = Action a \<Longrightarrow> canonical_form s"
  shows "encode pb pu inp = Inr s"
proof (cases l)
  case (Url v)
  then show ?thesis using assms(1,2) recognized_url [of pb pu s v] by (auto simp: encode_def)
next
  case (Navigation n)
  then have "navigation_string n = s" using assms(1) recognized_navigation navigation_reencode by blast
  then show ?thesis using assms(1,2) Navigation by (auto simp: encode_def Let_def)
next
  case (Action a)
  then show ?thesis using assms recognized_action [of pb pu s a] by (auto simp: encode_def Let_def)
next
  case (OauthCallback v)
  then show ?thesis using assms(2) by simp
qed

section \<open>Round trips\<close>

definition faithful :: "('m, 'z) message_codec_scheme \<Rightarrow> 'm \<Rightarrow> bool" where
  "faithful c m \<longleftrightarrow> toBinary c m \<noteq> [] \<and> fromBinary c (toBinary c m) = Some m"

fun normal_link :: "link_input \<Rightarrow> parsed_link" where
  "normal_link (UrlIn v) = Url v"
| "normal_link (NavigationIn n) = Navigation (normal_navigation n)"
| "normal_link (ActionIn a) = Action a"

fun admissible :: "protobuf \<Rightarrow> link_input \<Rightarrow> bool" where
  "admissible pb (UrlIn v) = True"
| "admissible pb (NavigationIn n) = slash_free n"
| "admissible pb (ActionIn a) =
     (case sa_action a of
        Some (DeviceLinkLocator r) \<Rightarrow> faithful (locators pb) r
      | _ \<Rightarrow> faithful (actions pb) a)"

lemma encode_Inr:
  assumes "encode pb pu inp = Inr s"
  obtains l where "parse pb pu s = Recognized l" "same_kind inp l"
    "case inp of UrlIn v \<Rightarrow> s = v | NavigationIn n \<Rightarrow> s = navigation_string n
     | ActionIn a \<Rightarrow> s = action_string pb a \<and> validateAction a = None"
  using assms that
  by (auto simp: encode_def Let_def split: link_input.splits parse_result.splits if_splits option.splits)

lemma reference_action:
  assumes "parse pb pu (DEVICE_REFERENCE_PREFIX @ base32 (toBinary (locators pb) r)) = Recognized l"
    and "faithful (locators pb) r"
  shows "l = action_link (DeviceLinkLocator r)"
proof -
  have "parse_reference pb (base32 (toBinary (locators pb) r)) = Inr l"
    using assms(1) by (auto simp: parse_iff parseRecognized_def split: option.splits)
  then obtain r' where r': "toBinary (locators pb) r' \<noteq> []" "l = action_link (DeviceLinkLocator r')"
    "base32 (toBinary (locators pb) r) = base32 (toBinary (locators pb) r')"
    "fromBinary (locators pb) (toBinary (locators pb) r') = Some r'"
    unfolding parse_reference_Inr by blast
  have "toBinary (locators pb) r = toBinary (locators pb) r'"
    using b32.enc_inj r'(1,3) assms(2) by (auto simp: faithful_def)
  then show ?thesis using r'(2,4) assms(2) by (auto simp: faithful_def)
qed

lemma plain_action:
  assumes "parse pb pu (action_string pb a) = Recognized l" and "sa_action a \<noteq> None"
    and "\<not> isLocator a" and "faithful (actions pb) a"
  shows "l = Action a"
proof -
  let ?bs = "toBinary (actions pb) a"
  have "parse_action pb (isDeviceAction a) (base64url ?bs) = Inr l"
  proof (cases "isDeviceAction a")
    case True
    then have "parse pb pu (DEVICE_PREFIX @ base64url ?bs) = Recognized l"
      using assms(1) action_string_device [OF assms(2,3)] by simp
    moreover have "\<not> starts_with ''B32:'' (base64url ?bs)" using b32_not_url by blast
    ultimately show ?thesis using True
      by (simp add: parse_iff parseRecognized_def device_prefix split: option.splits)
  next
    case False
    then have "parse pb pu (ACTION_PREFIX @ base64url ?bs) = Recognized l"
      using assms(1) action_string_device [OF assms(2,3)] by simp
    with False show ?thesis
      by (auto simp: parse_iff parseRecognized_def action_prefix split: option.splits)
  qed
  then obtain a' where a': "toBinary (actions pb) a' \<noteq> []" "l = Action a'"
    "base64url ?bs = base64url (toBinary (actions pb) a')"
    "fromBinary (actions pb) (toBinary (actions pb) a') = Some a'"
    unfolding parse_action_Inr by blast
  have "?bs = toBinary (actions pb) a'"
    using b64.enc_inj a'(1,3) assms(4) by (auto simp: faithful_def)
  then show ?thesis using a'(2,4) assms(4) by (auto simp: faithful_def)
qed

text \<open>
  C25. A produced link means what was put in.  When \<^verbatim>\<open>encode\<close> returns a link, parsing it
  recognises the same web address, the same action, or the same navigation up to the optional fields
  left empty; for an action provided the protobuf runtime reads back the message it wrote, for a
  navigation provided its identifiers contain no slash.
\<close>

theorem link_roundtrip:
  assumes "encode pb pu inp = Inr s" and "admissible pb inp"
  shows "parse pb pu s = Recognized (normal_link inp)"
proof -
  obtain l where l: "parse pb pu s = Recognized l" "same_kind inp l"
    "case inp of UrlIn v \<Rightarrow> s = v | NavigationIn n \<Rightarrow> s = navigation_string n
     | ActionIn a \<Rightarrow> s = action_string pb a \<and> validateAction a = None"
    using encode_Inr [OF assms(1)] .
  show ?thesis
  proof (cases inp)
    case (UrlIn v)
    then obtain v' where "l = Url v'" using l(2) by (cases l) auto
    with l UrlIn show ?thesis using recognized_url by auto
  next
    case (NavigationIn n)
    then obtain n' where n': "l = Navigation n'" using l(2) by (cases l) auto
    then have "parseNavigation (navigation_string n) = Some n'"
      using l NavigationIn recognized_navigation by auto
    then show ?thesis using navigation_reparse assms(2) l NavigationIn n' by auto
  next
    case (ActionIn a)
    then have a: "s = action_string pb a" "sa_protocolVersion a = 1" "sa_action a \<noteq> None"
      using l(3) validate_fields by auto
    show ?thesis
    proof (cases "isLocator a")
      case True
      then obtain r where r: "sa_action a = Some (DeviceLinkLocator r)"
        by (auto simp: isLocator_def split: option.splits action_case.splits)
      then have "l = action_link (DeviceLinkLocator r)"
        using l(1) a(1) assms(2) ActionIn by (intro reference_action) (auto simp: action_string_def)
      then show ?thesis using l(1) ActionIn a(2) r by (simp add: action_link_def)
    next
      case False
      then have "faithful (actions pb) a"
        using assms(2) ActionIn a(3) by (auto simp: isLocator_def split: option.splits action_case.splits)
      then show ?thesis using plain_action l(1) a False ActionIn by auto
    qed
  qed
qed

section \<open>Examples\<close>

text \<open>A codec that writes and reads the version and a conversation identifier, as protobuf does.\<close>

definition demo_actions :: "schema_action message_codec" where
  "demo_actions =
     \<lparr>toBinary = \<lambda>a. case sa_action a of
          Some (ConversationId t) \<Rightarrow>
            [8, of_nat (sa_protocolVersion a), 50, of_nat (length t)] @ map (\<lambda>c. of_nat (of_char c)) t
        | _ \<Rightarrow> [],
      fromBinary = \<lambda>bs. if length bs < 4 \<or> bs ! 0 \<noteq> 8 \<or> bs ! 2 \<noteq> 50 \<or> unat (bs ! 3) \<noteq> length bs - 4 then None
        else Some \<lparr>sa_protocolVersion = unat (bs ! 1),
                   sa_action = Some (ConversationId (map (\<lambda>b. char_of (unat b)) (drop 4 bs)))\<rparr>\<rparr>"

definition demo_protobuf :: protobuf where
  "demo_protobuf =
     \<lparr>actions = demo_actions, locators = \<lparr>toBinary = \<lambda>_. [], fromBinary = \<lambda>_. None\<rparr>,
      materials = \<lparr>toBinary = \<lambda>_. [], fromBinary = \<lambda>_. None\<rparr>,
      envelopes = \<lparr>toBinary = \<lambda>_. [], fromBinary = \<lambda>_. None\<rparr>\<rparr>"

definition demo_action :: schema_action where
  "demo_action = \<lparr>sa_protocolVersion = 1, sa_action = Some (ConversationId ''c1'')\<rparr>"

definition demo_link :: string where
  "demo_link = ''peers-touch://action/v1#CAEyAmMx''"

lemma demo_encode: "encode demo_protobuf (\<lambda>_. None) (ActionIn demo_action) = Inr demo_link"
  by code_simp

theorem link_roundtrip_witness:
  "admissible demo_protobuf (ActionIn demo_action)
   \<and> parse demo_protobuf (\<lambda>_. None) demo_link = Recognized (Action demo_action)"
proof -
  have "admissible demo_protobuf (ActionIn demo_action)" by code_simp
  with link_roundtrip [OF demo_encode this] show ?thesis by simp
qed

theorem link_reencode_witness:
  "parse demo_protobuf (\<lambda>_. None) demo_link = Recognized (Action demo_action)
   \<and> encode demo_protobuf (\<lambda>_. None) (ActionIn demo_action) = Inr demo_link"
proof -
  have "parse demo_protobuf (\<lambda>_. None) demo_link = Recognized (Action demo_action)" by code_simp
  moreover have "canonical_form demo_link" by code_simp
  ultimately show ?thesis
    using link_reencode [of demo_protobuf "\<lambda>_. None" demo_link "Action demo_action"] by simp
qed

end
