(* ===== verification/Link_Rust.thy ===== *)
theory Link_Rust
  imports Link_Schema
begin

text \<open>
  Links of the native code, \<^verbatim>\<open>packages/schema-core/src/link.rs\<close>, a second implementation of the format of
  \<^verbatim>\<open>packages/schema/src/link.ts\<close>, and how the two relate.

  Outside code is an argument: the messages of \<^verbatim>\<open>prost\<close> are the record \<open>protobuf\<close> of the other
  implementation, and \<open>crates\<close> holds the engines of \<^verbatim>\<open>base64\<close> and \<^verbatim>\<open>data_encoding\<close> and \<^verbatim>\<open>Url::parse\<close>.
\<close>

section \<open>Types\<close>

record rust_url =
  ru_scheme :: string
  ru_username :: string
  ru_password :: "string option"
  ru_host_str :: "string option"
  ru_path :: string
  ru_port :: "nat option"
  ru_fragment :: "string option"
  ru_query_pairs :: "(string \<times> string) list"

record crates =
  base64_encode :: "bytes \<Rightarrow> string"
  base64_decode :: "string \<Rightarrow> bytes option"
  base32_encode :: "bytes \<Rightarrow> string"
  base32_decode :: "string \<Rightarrow> bytes option"
  url_parse :: "string \<Rightarrow> rust_url option"

datatype rust_error = InvalidLink | UnregisteredAction | PayloadTooLarge

record rust_navigation =
  rn_resource :: string
  rn_id :: "string option"
  rn_sub_resource :: "string option"
  rn_sub_id :: "string option"

datatype rust_link =
    WebUrl string | NavigationTo rust_navigation | SchemaActionLink schema_action | OAuthCallbackUrl string

definition RUST_MAX_LINK_BYTES :: int where "RUST_MAX_LINK_BYTES = 32768"

definition RUST_DEVICE_PREFIX :: string where "RUST_DEVICE_PREFIX = ''peers-touch://device/link#''"

definition RUST_DEVICE_REFERENCE_PREFIX :: string where
  "RUST_DEVICE_REFERENCE_PREFIX = ''peers-touch://device/link#B32:''"

definition RUST_ACTION_PREFIX :: string where "RUST_ACTION_PREFIX = ''peers-touch://action/v1#''"

section \<open>Operations\<close>

definition rust_bind :: "rust_error + 'a \<Rightarrow> ('a \<Rightarrow> rust_error + 'b) \<Rightarrow> rust_error + 'b" where
  "rust_bind r f = (case r of Inl err \<Rightarrow> Inl err | Inr x \<Rightarrow> f x)"

definition ok_or :: "rust_error \<Rightarrow> 'a option \<Rightarrow> rust_error + 'a" where
  "ok_or err x = (case x of None \<Rightarrow> Inl err | Some y \<Rightarrow> Inr y)"

definition strip_prefix :: "string \<Rightarrow> string \<Rightarrow> string option" where
  "strip_prefix p s = (if starts_with p s then Some (drop (length p) s) else None)"

definition rust_decode :: "crates \<Rightarrow> string \<Rightarrow> rust_error + bytes" where
  "rust_decode cr s =
     (if s = [] then Inl InvalidLink
      else rust_bind (ok_or InvalidLink (base64_decode cr s)) (\<lambda>bs.
        if base64_encode cr bs \<noteq> s then Inl InvalidLink else Inr bs))"

fun device_action :: "schema_action \<Rightarrow> bool" where
  "device_action a = (case sa_action a of Some (DeviceLinkOffer _) \<Rightarrow> True | Some (DeviceLinkLocator _) \<Rightarrow> True | _ \<Rightarrow> False)"

definition action_text :: "action_case \<Rightarrow> string option" where
  "action_text c = (case c of ConversationId t \<Rightarrow> Some t | ActorPtid t \<Rightarrow> Some t | InviteCode t \<Rightarrow> Some t | _ \<Rightarrow> None)"

definition rust_validate :: "schema_action \<Rightarrow> rust_error + unit" where
  "rust_validate a =
     (if sa_protocolVersion a \<noteq> 1 \<or> sa_action a = None then Inl UnregisteredAction
      else case Option.bind (sa_action a) action_text of
             Some t \<Rightarrow>
               if t = [] \<or> utf8_length t > 512 \<or> list_ex (\<lambda>c. c \<le> CHR 0x20 \<or> c = CHR 0x7F) t then Inl InvalidLink
               else Inr ()
           | None \<Rightarrow> Inr ())"

definition rust_bounded :: "string \<Rightarrow> rust_error + unit" where
  "rust_bounded s =
     (if utf8_length s > RUST_MAX_LINK_BYTES then Inl PayloadTooLarge
      else if s = [] \<or> list_ex (\<lambda>c. c \<le> CHR 0x20 \<or> c = CHR 0x7F \<or> c = CHR 0x5C) s then Inl InvalidLink
      else Inr ())"

definition rust_segment :: "string \<Rightarrow> bool" where
  "rust_segment s \<longleftrightarrow> s \<noteq> [] \<and> utf8_length s \<le> 256 \<and> s \<noteq> ''.'' \<and> s \<noteq> ''..'' \<and> list_all segment_char s"

definition to_resource :: "string list \<Rightarrow> rust_navigation" where
  "to_resource parts = \<lparr>rn_resource = parts ! 0, rn_id = None, rn_sub_resource = None, rn_sub_id = None\<rparr>"

definition rust_path :: "string \<Rightarrow> string list \<Rightarrow> rust_error + rust_navigation" where
  "rust_path first rest =
     (let parts = first # rest; result = to_resource parts in
      if parts ! 0 = ''cron'' \<and> length parts = 1 then Inr result
      else if parts ! 0 = ''cron'' \<and> (length parts = 3 \<or> length parts = 5) \<and> parts ! 1 = ''jobs''
              \<and> (length parts = 3 \<or> parts ! 3 = ''runs'')
      then Inr (if length parts = 5
                then result\<lparr>rn_id := Some (parts ! 2), rn_sub_resource := Some ''runs'', rn_sub_id := Some (parts ! 4)\<rparr>
                else result\<lparr>rn_id := Some (parts ! 2)\<rparr>)
      else if parts ! 0 \<in> {''sessions'', ''settings'', ''channels''} \<and> length parts \<le> 2
      then Inr (result\<lparr>rn_id := if 1 < length parts then Some (parts ! 1) else None\<rparr>)
      else if parts ! 0 \<in> {''marketplace'', ''evaluation'', ''documents'', ''chat''} \<and> length parts = 1 then Inr result
      else Inl InvalidLink)"

definition rust_navigation_of :: "string \<Rightarrow> rust_error + rust_navigation" where
  "rust_navigation_of s =
     (let parts = split_slash s in
      if list_ex (\<lambda>p. \<not> rust_segment p) parts then Inl InvalidLink else rust_path (hd parts) (tl parts))"

definition rust_action :: "action_case \<Rightarrow> rust_link" where
  "rust_action c = SchemaActionLink \<lparr>sa_protocolVersion = 1, sa_action = Some c\<rparr>"

definition rust_reference :: "crates \<Rightarrow> protobuf \<Rightarrow> string \<Rightarrow> rust_error + rust_link" where
  "rust_reference cr pb encoded =
     rust_bind (ok_or InvalidLink (base32_decode cr encoded)) (\<lambda>bs.
     rust_bind (ok_or InvalidLink (fromBinary (locators pb) bs)) (\<lambda>l.
       if base32_encode cr bs \<noteq> encoded \<or> toBinary (locators pb) l \<noteq> bs \<or> dl_protocolVersion l \<noteq> 1
          \<or> length (dl_bootstrapSecret l) \<noteq> 32 \<or> length (dl_stationRootEd25519 l) \<noteq> 32
          \<or> length (dl_offerDigest l) \<noteq> 32 \<or> dl_canonicalDiscoveryOrigin l = [] \<or> dl_expiresAtUnixMs l \<le> 0
          \<or> dl_endpointRole l \<notin> {1, 2} \<or> length (dl_relayEd25519 l) \<noteq> (if dl_endpointRole l = 2 then 32 else 0)
          \<or> (dl_endpointRole l = 2 \<and> dl_relayEd25519 l = dl_stationRootEd25519 l)
       then Inl InvalidLink else Inr (rust_action (DeviceLinkLocator l))))"

definition rust_schema_action :: "crates \<Rightarrow> protobuf \<Rightarrow> bool \<Rightarrow> string \<Rightarrow> rust_error + rust_link" where
  "rust_schema_action cr pb device encoded =
     rust_bind (rust_decode cr encoded) (\<lambda>bs.
     rust_bind (ok_or InvalidLink (fromBinary (actions pb) bs)) (\<lambda>a.
     rust_bind (rust_validate a) (\<lambda>_.
       if toBinary (actions pb) a \<noteq> bs
          \<or> (case sa_action a of Some (DeviceLinkLocator _) \<Rightarrow> True | _ \<Rightarrow> False)
          \<or> device_action a \<noteq> device
       then Inl InvalidLink else Inr (SchemaActionLink a))))"

definition rust_material :: "crates \<Rightarrow> protobuf \<Rightarrow> string \<Rightarrow> rust_error + rust_link" where
  "rust_material cr pb encoded =
     rust_bind (rust_decode cr encoded) (\<lambda>bs.
     rust_bind (ok_or InvalidLink (fromBinary (materials pb) bs)) (\<lambda>m.
       if toBinary (materials pb) m \<noteq> bs \<or> pm_schemaVersion m \<noteq> 1 \<or> pm_canonicalDiscoveryOrigin m = []
       then Inl InvalidLink else Inr (rust_action (PublicConnection m))))"

definition rust_connection :: "crates \<Rightarrow> protobuf \<Rightarrow> string \<Rightarrow> rust_error + rust_link" where
  "rust_connection cr pb encoded =
     rust_bind (rust_decode cr encoded) (\<lambda>bs.
     rust_bind (ok_or InvalidLink (fromBinary (envelopes pb) bs)) (\<lambda>c.
       if toBinary (envelopes pb) c \<noteq> bs \<or> ce_protocolVersion c \<noteq> 1 \<or> ce_relayOrigin c = []
          \<or> ce_connectionGrant c = None \<or> ce_routeAttestation c = None
       then Inl InvalidLink else Inr (rust_action (CircuitConnection c))))"

text \<open>\<^verbatim>\<open>keys.insert\<close> answers whether the key was new.\<close>

fun bad_key :: "string list \<Rightarrow> (string \<times> string) list \<Rightarrow> bool" where
  "bad_key seen [] = False"
| "bad_key seen ((key, _) # pairs) =
     (key \<in> set seen \<or> key \<notin> {''code'', ''state'', ''error'', ''error_description''} \<or> bad_key (key # seen) pairs)"

definition has_pair :: "(string \<times> string) list \<Rightarrow> string \<Rightarrow> bool" where
  "has_pair pairs name \<longleftrightarrow> list_ex (\<lambda>(key, v). key = name \<and> v \<noteq> []) pairs"

definition rust_web :: "crates \<Rightarrow> string \<Rightarrow> rust_error + rust_link" where
  "rust_web cr s =
     rust_bind (ok_or UnregisteredAction (url_parse cr s)) (\<lambda>u.
       if ru_username u \<noteq> [] \<or> ru_password u \<noteq> None then Inl InvalidLink
       else if ru_scheme u \<in> {''http'', ''https''} then Inr (WebUrl s)
       else if starts_with ''peers-touch://oauth/callback?'' s \<and> ru_host_str u = Some ''oauth''
               \<and> ru_path u = ''/callback'' \<and> ru_port u = None \<and> ru_fragment u = None
       then (let pairs = ru_query_pairs u in
             if bad_key [] pairs then Inl InvalidLink
             else if \<not> has_pair pairs ''state'' \<or> has_pair pairs ''code'' = has_pair pairs ''error'' then Inl InvalidLink
             else Inr (OAuthCallbackUrl s))
       else Inl UnregisteredAction)"

definition rust_parse :: "crates \<Rightarrow> protobuf \<Rightarrow> string \<Rightarrow> rust_error + rust_link" where
  "rust_parse cr pb s =
     rust_bind (rust_bounded s) (\<lambda>_.
       case strip_prefix RUST_DEVICE_REFERENCE_PREFIX s of Some encoded \<Rightarrow> rust_reference cr pb encoded
     | None \<Rightarrow> (case strip_prefix ''pt://'' s of
         Some path \<Rightarrow> rust_bind (rust_navigation_of path) (\<lambda>n. Inr (NavigationTo n))
     | None \<Rightarrow> (case strip_prefix RUST_DEVICE_PREFIX s of Some encoded \<Rightarrow> rust_schema_action cr pb True encoded
     | None \<Rightarrow> (case strip_prefix RUST_ACTION_PREFIX s of Some encoded \<Rightarrow> rust_schema_action cr pb False encoded
     | None \<Rightarrow> (case strip_prefix ''ptm1:'' s of Some encoded \<Rightarrow> rust_material cr pb encoded
     | None \<Rightarrow> (case strip_prefix ''ptc1:'' s of Some encoded \<Rightarrow> rust_connection cr pb encoded
     | None \<Rightarrow> (case strip_prefix ''peers-touch://connect#'' s of Some encoded \<Rightarrow> rust_connection cr pb encoded
     | None \<Rightarrow> rust_web cr s)))))))"

definition encode_action :: "crates \<Rightarrow> protobuf \<Rightarrow> schema_action \<Rightarrow> rust_error + string" where
  "encode_action cr pb a =
     rust_bind (rust_validate a) (\<lambda>_.
       case sa_action a of
         Some (DeviceLinkLocator l) \<Rightarrow>
           (let s = RUST_DEVICE_REFERENCE_PREFIX @ base32_encode cr (toBinary (locators pb) l) in
            rust_bind (rust_parse cr pb s) (\<lambda>_. Inr s))
       | _ \<Rightarrow>
           (let s = (if device_action a then RUST_DEVICE_PREFIX else RUST_ACTION_PREFIX)
                    @ base64_encode cr (toBinary (actions pb) a) in
            rust_bind (rust_bounded s) (\<lambda>_. Inr s)))"

section \<open>What the implementations rely on\<close>

text \<open>
  The engines write RFC 4648 and read back what they wrote; \<^verbatim>\<open>Url::parse\<close> and \<^verbatim>\<open>new URL\<close> follow the same
  standard and show its result in their own ways.
\<close>

definition same_url :: "string \<Rightarrow> url \<Rightarrow> rust_url \<Rightarrow> bool" where
  "same_url s u r \<longleftrightarrow>
     u_protocol u = ru_scheme r @ '':'' \<and> u_username u = ru_username r
     \<and> (u_password u = [] \<longleftrightarrow> ru_password r = None) \<and> (u_hostname u = ''oauth'' \<longleftrightarrow> ru_host_str r = Some ''oauth'')
     \<and> u_pathname u = ru_path r \<and> (u_port u = [] \<longleftrightarrow> ru_port r = None)
     \<and> (CHR ''#'' \<in> set s \<longleftrightarrow> ru_fragment r \<noteq> None) \<and> u_params u = ru_query_pairs r"

definition same_urls :: "(string \<Rightarrow> url option) \<Rightarrow> crates \<Rightarrow> bool" where
  "same_urls pu cr \<longleftrightarrow> (\<forall>s. rel_option (same_url s) (pu s) (url_parse cr s))"

definition rfc4648 :: "crates \<Rightarrow> bool" where
  "rfc4648 cr \<longleftrightarrow>
     (\<forall>bs. base64_encode cr bs = base64url bs \<and> base64_decode cr (base64url bs) = Some bs)
     \<and> (\<forall>bs. base32_encode cr bs = base32 bs \<and> base32_decode cr (base32 bs) = Some bs)"

text \<open>Protobuf writes the fields that are set, so a message with a version is not empty.\<close>

definition writes_versions :: "protobuf \<Rightarrow> bool" where
  "writes_versions pb \<longleftrightarrow>
     (\<forall>l. dl_protocolVersion l \<noteq> 0 \<longrightarrow> toBinary (locators pb) l \<noteq> [])
     \<and> (\<forall>a. sa_protocolVersion a \<noteq> 0 \<longrightarrow> toBinary (actions pb) a \<noteq> [])"

section \<open>Agreement\<close>

text \<open>The result of one implementation, as the other gives it, except for links to moments.\<close>

fun rust_code :: "schema_error \<Rightarrow> rust_error" where
  "rust_code INVALID_LINK = InvalidLink"
| "rust_code UNREGISTERED_ACTION = UnregisteredAction"
| "rust_code PAYLOAD_TOO_LARGE = PayloadTooLarge"

definition rust_nav :: "navigation_link \<Rightarrow> rust_navigation" where
  "rust_nav n =
     \<lparr>rn_resource = resource_name (nl_resource n), rn_id = nl_id n,
      rn_sub_resource = (if nl_runs n then Some ''runs'' else None), rn_sub_id = nl_subId n\<rparr>"

fun rust_view :: "parsed_link \<Rightarrow> rust_error + rust_link" where
  "rust_view (Url s) = Inr (WebUrl s)"
| "rust_view (Navigation n) = (if nl_resource n = moments then Inl InvalidLink else Inr (NavigationTo (rust_nav n)))"
| "rust_view (Action a) = Inr (SchemaActionLink a)"
| "rust_view (OauthCallback s) = Inr (OAuthCallbackUrl s)"

fun rust_result :: "parse_result \<Rightarrow> rust_error + rust_link" where
  "rust_result (Recognized l) = rust_view l"
| "rust_result (Malformed code) = Inl (rust_code code)"
| "rust_result (Unsupported code) = Inl (rust_code code)"

text \<open>The same before the outer handler turns errors into codes.\<close>

fun rust_thrown :: "link_thrown + parsed_link \<Rightarrow> rust_error + rust_link" where
  "rust_thrown (Inr l) = rust_view l"
| "rust_thrown (Inl (SchemaError code)) = Inl (rust_code code)"
| "rust_thrown (Inl OtherError) = Inl InvalidLink"

lemma rust_result_thrown: "rust_result (parse pb pu s) = rust_thrown (parseRecognized pb pu s)"
  by (auto simp: parse_def split: sum.splits link_thrown.splits schema_error.splits)

subsection \<open>Navigation\<close>

lemma segment_char_ascii: "segment_char c \<Longrightarrow> c < CHR 0x80"
  by (auto simp: segment_char_def less_eq_char_def less_char_def)

lemma utf8_length_ascii: "list_all segment_char s \<Longrightarrow> utf8_length s = int (length s)"
  by (induction s) (auto simp: utf8_length_def segment_char_ascii)

lemma rust_segment_eq: "rust_segment s \<longleftrightarrow> segment s \<and> s \<noteq> ''.'' \<and> s \<noteq> ''..''"
  by (auto simp: rust_segment_def segment_def utf8_length_ascii)

lemma rust_path_known:
  "rust_path (resource_name r) path =
     (case parse_path (resource_name r) path of None \<Rightarrow> Inl InvalidLink
      | Some n \<Rightarrow> if nl_resource n = moments then Inl InvalidLink else Inr (rust_nav n))"
  by (cases r; cases path) (simp_all add: rust_path_def parse_path_def nav_def rust_nav_def to_resource_def first_of_def Let_def)

lemma rust_path_unknown:
  assumes "\<And>r. res \<noteq> resource_name r"
  shows "rust_path res path = Inl InvalidLink \<and> parse_path res path = None"
  using assms [of cron] assms [of sessions] assms [of settings] assms [of channels] assms [of marketplace]
    assms [of evaluation] assms [of documents] assms [of chat] assms [of moments]
  by (simp add: rust_path_def parse_path_def Let_def)

lemma rust_path_eq:
  "rust_path res path =
     (case parse_path res path of None \<Rightarrow> Inl InvalidLink
      | Some n \<Rightarrow> if nl_resource n = moments then Inl InvalidLink else Inr (rust_nav n))"
proof (cases "\<exists>r. res = resource_name r")
  case True
  then show ?thesis using rust_path_known by blast
next
  case False
  then show ?thesis using rust_path_unknown [of res path] by simp
qed

lemma navigation_agrees:
  assumes "starts_with ''pt://'' s"
  shows "rust_bind (rust_navigation_of (drop 5 s)) (\<lambda>n. Inr (NavigationTo n))
    = rust_thrown (case parseNavigation s of None \<Rightarrow> Inl (SchemaError INVALID_LINK) | Some n \<Rightarrow> Inr (Navigation n))"
proof -
  obtain res path where parts: "split_slash (drop 5 s) = res # path" by (cases "split_slash (drop 5 s)") auto
  have nav: "rust_navigation_of (drop 5 s) =
      (if list_ex (\<lambda>p. \<not> segment p \<or> p = ''.'' \<or> p = ''..'') (res # path) then Inl InvalidLink
       else case parse_path res path of None \<Rightarrow> Inl InvalidLink
            | Some n \<Rightarrow> if nl_resource n = moments then Inl InvalidLink else Inr (rust_nav n))"
    by (simp add: rust_navigation_of_def parts rust_path_eq rust_segment_eq)
  show ?thesis
    using assms by (simp add: nav rust_bind_def parseNavigation_def Let_def parts split: option.split)
qed

subsection \<open>Actions\<close>

lemma unbase64url_error: "unbase64url s = Inl code \<Longrightarrow> code = INVALID_LINK"
  by (auto simp: unbase64url_def split: if_splits option.splits)

lemma unbase32_error: "unbase32 s = Inl code \<Longrightarrow> code = INVALID_LINK"
  by (auto simp: unbase32_def Let_def split: if_splits)

lemma decode_agrees:
  assumes "rfc4648 cr"
  shows "rust_decode cr s = (case unbase64url s of Inl _ \<Rightarrow> Inl InvalidLink | Inr bs \<Rightarrow> Inr bs)"
proof (cases "unbase64url s")
  case (Inr bs)
  then have "s \<noteq> []" "s = base64url bs" using unbase64url_iff [of s bs] by (auto simp: unbase64url_def)
  then have "rust_decode cr s = Inr bs" using assms by (simp add: rust_decode_def rust_bind_def ok_or_def rfc4648_def)
  then show ?thesis by (simp add: Inr)
next
  case (Inl code)
  have "base64url [] = []" by code_simp
  then have "s \<noteq> [] \<Longrightarrow> base64url bs \<noteq> s" for bs using Inl unbase64url_iff [of s bs] by (cases "bs = []") auto
  then have "rust_decode cr s = Inl InvalidLink"
    using assms by (auto simp: rust_decode_def rust_bind_def ok_or_def rfc4648_def split: option.splits)
  then show ?thesis by (simp add: Inl)
qed

lemma control_chars: "(\<lambda>c. c \<le> CHR 0x20 \<or> c = CHR 0x7F) = control_or_space"
  "(\<lambda>c. c \<le> CHR 0x20 \<or> c = CHR 0x7F \<or> c = CHR 0x5C) = (\<lambda>c. control_or_space c \<or> c = CHR 0x5C)"
  by (simp_all only: fun_eq_iff control_or_space_def disj_assoc refl simp_thms)

lemma validate_agrees:
  "rust_validate a = (case validateAction a of None \<Rightarrow> Inr () | Some code \<Rightarrow> Inl (rust_code code))"
proof (cases "sa_action a")
  case None
  then show ?thesis by (simp add: rust_validate_def validateAction_def)
next
  case (Some c)
  show ?thesis
    unfolding rust_validate_def validateAction_def control_chars Some option.sel Option.bind.simps bad_action_text_def
    by (cases c) (simp_all add: action_text_def)
qed

lemma bounded_agrees: "rust_bounded s = (case bounded s of None \<Rightarrow> Inr () | Some code \<Rightarrow> Inl (rust_code code))"
  unfolding rust_bounded_def bounded_def control_chars RUST_MAX_LINK_BYTES_def MAX_LINK_BYTES_def by simp

lemma rust_thrown_decode:
  "rust_thrown (bind_link (lift_schema (unbase64url s)) f) =
     (case unbase64url s of Inl _ \<Rightarrow> Inl InvalidLink | Inr bs \<Rightarrow> rust_thrown (f bs))"
  by (cases "unbase64url s") (auto simp: bind_link_def lift_schema_def dest: unbase64url_error)

lemma action_agrees:
  assumes "rfc4648 cr"
  shows "rust_schema_action cr pb device body = rust_thrown (parse_action pb device body)"
  unfolding rust_schema_action_def parse_action_def rust_thrown_decode decode_agrees [OF assms]
  by (auto simp: rust_bind_def ok_or_def bind_link_def canonicalAction_def validate_agrees isLocator_def isDeviceAction_def
      split: sum.splits option.splits action_case.splits)

lemma material_agrees:
  assumes "rfc4648 cr"
  shows "rust_material cr pb body = rust_thrown (parse_material pb body)"
  unfolding rust_material_def parse_material_def rust_thrown_decode decode_agrees [OF assms]
  by (auto simp: rust_bind_def ok_or_def rust_action_def action_link_def split: sum.splits option.splits)

lemma connection_agrees:
  assumes "rfc4648 cr"
  shows "rust_connection cr pb body = rust_thrown (parse_connection pb body)"
  unfolding rust_connection_def parse_connection_def rust_thrown_decode decode_agrees [OF assms]
  by (auto simp: rust_bind_def ok_or_def rust_action_def action_link_def split: sum.splits option.splits)

lemma relay_differs:
  "length xs = 32 \<Longrightarrow> length ys = 32 \<Longrightarrow>
     list_all (\<lambda>i. i < length ys \<and> xs ! i = ys ! i) [0..<length xs] \<longleftrightarrow> xs = ys"
  by (auto simp: list_all_iff list_eq_iff_nth_eq)

lemma locator_checks:
  "locator_ok l \<longleftrightarrow> \<not> (dl_protocolVersion l \<noteq> 1
          \<or> length (dl_bootstrapSecret l) \<noteq> 32 \<or> length (dl_stationRootEd25519 l) \<noteq> 32
          \<or> length (dl_offerDigest l) \<noteq> 32 \<or> dl_canonicalDiscoveryOrigin l = [] \<or> dl_expiresAtUnixMs l \<le> 0
          \<or> dl_endpointRole l \<notin> {1, 2} \<or> length (dl_relayEd25519 l) \<noteq> (if dl_endpointRole l = 2 then 32 else 0)
          \<or> (dl_endpointRole l = 2 \<and> dl_relayEd25519 l = dl_stationRootEd25519 l))"
  using relay_differs [of "dl_relayEd25519 l" "dl_stationRootEd25519 l"] unfolding locator_ok_def by auto

lemma reference_agrees:
  assumes "rfc4648 cr" and "writes_versions pb"
  shows "rust_reference cr pb body = rust_thrown (parse_reference pb body)"
proof -
  have rust: "rust_reference cr pb body =
      (case base32_decode cr body of None \<Rightarrow> Inl InvalidLink
       | Some bs \<Rightarrow> (case fromBinary (locators pb) bs of None \<Rightarrow> Inl InvalidLink
           | Some l \<Rightarrow> if base32 bs \<noteq> body \<or> toBinary (locators pb) l \<noteq> bs \<or> \<not> locator_ok l then Inl InvalidLink
                       else Inr (rust_action (DeviceLinkLocator l))))"
    using assms(1) unfolding rust_reference_def locator_checks
    by (auto simp: rust_bind_def ok_or_def rfc4648_def split: option.splits)
  have nonempty: "toBinary (locators pb) l \<noteq> []" if "locator_ok l" for l
    using assms(2) that by (auto simp: writes_versions_def locator_checks)
  show ?thesis
  proof (cases "unbase32 body")
    case (Inr bs)
    then have "base32_decode cr body = Some bs" "base32 bs = body"
      using assms(1) by (auto simp: unbase32_iff rfc4648_def)
    then show ?thesis using Inr
      by (auto simp: rust parse_reference_def bind_link_def lift_schema_def rust_action_def action_link_def
          split: option.splits)
  next
    case (Inl code)
    have "bs = [] \<or> base32 bs \<noteq> body" for bs using Inl unbase32_iff [of body bs] by auto
    then have "rust_reference cr pb body = Inl InvalidLink"
      unfolding rust using nonempty by (force split: option.splits)
    then show ?thesis using Inl unbase32_error [OF Inl] by (simp add: parse_reference_def bind_link_def lift_schema_def)
  qed
qed

subsection \<open>Web addresses\<close>

lemma bad_key_iff:
  "bad_key seen pairs \<longleftrightarrow>
     \<not> (distinct (map fst pairs) \<and> set (map fst pairs) \<inter> set seen = {}
        \<and> set (map fst pairs) \<subseteq> {''code'', ''state'', ''error'', ''error_description''})"
  by (induction seen pairs rule: bad_key.induct) auto

lemma has_pair_param:
  assumes "distinct (map fst (u_params u))"
  shows "has_pair (u_params u) key \<longleftrightarrow> param_set u key"
proof -
  have "has_pair (u_params u) key \<longleftrightarrow> (\<exists>v. map_of (u_params u) key = Some v \<and> v \<noteq> [])"
    using assms by (auto simp: has_pair_def list_ex_iff)
  then show ?thesis by (auto simp: param_set_def split: option.splits)
qed

lemma callback_agrees:
  "(if bad_key [] (u_params u) then Inl InvalidLink
    else if \<not> has_pair (u_params u) ''state'' \<or> has_pair (u_params u) ''code'' = has_pair (u_params u) ''error''
    then Inl InvalidLink else Inr (OAuthCallbackUrl s))
   = rust_thrown
      (let keys = map fst (u_params u) in
       if \<not> distinct keys \<or> \<not> param_set u ''state'' \<or> param_set u ''code'' = param_set u ''error''
       then Inl (SchemaError INVALID_LINK)
       else if \<not> set keys \<subseteq> {''code'', ''state'', ''error'', ''error_description''} then Inl (SchemaError INVALID_LINK)
       else Inr (OauthCallback s))"
  by (cases "distinct (map fst (u_params u))") (simp_all add: Let_def bad_key_iff has_pair_param)

lemma web_agrees:
  assumes "same_urls pu cr"
  shows "rust_web cr s = rust_thrown (parse_web pu s)"
proof -
  have rel: "rel_option (same_url s) (pu s) (url_parse cr s)" using assms by (simp add: same_urls_def)
  show ?thesis
  proof (cases "pu s")
    case None
    then show ?thesis using rel by (simp add: rust_web_def parse_web_def rust_bind_def ok_or_def)
  next
    case (Some u)
    then obtain r where r: "url_parse cr s = Some r" and same: "same_url s u r"
      using rel by (auto simp: option_rel_Some1)
    have scheme: "ru_scheme r \<in> {''http'', ''https''} \<longleftrightarrow> u_protocol u = ''http:'' \<or> u_protocol u = ''https:''"
    proof -
      have "u_protocol u = ru_scheme r @ [CHR '':'']" "''http:'' = ''http'' @ [CHR '':'']" "''https:'' = ''https'' @ [CHR '':'']"
        using same by (simp_all add: same_url_def)
      then show ?thesis by (metis append1_eq_conv insert_iff singletonD)
    qed
    have login: "ru_username r \<noteq> [] \<or> ru_password r \<noteq> None \<longleftrightarrow> u_username u \<noteq> [] \<or> u_password u \<noteq> []"
      and place: "ru_host_str r = Some ''oauth'' \<and> ru_path r = ''/callback'' \<and> ru_port r = None \<and> ru_fragment r = None
        \<longleftrightarrow> u_hostname u = ''oauth'' \<and> u_pathname u = ''/callback'' \<and> u_port u = [] \<and> CHR ''#'' \<notin> set s"
      and pairs: "ru_query_pairs r = u_params u"
      using same unfolding same_url_def by auto
    show ?thesis
      unfolding rust_web_def parse_web_def rust_bind_def ok_or_def Some r option.case sum.case scheme login place pairs
      unfolding Let_def [of "u_params u"] callback_agrees if_distrib [of rust_thrown] by simp
  qed
qed

subsection \<open>The two implementations\<close>

lemma parse_agrees:
  assumes "rfc4648 cr" and "same_urls pu cr" and "writes_versions pb"
  shows "rust_parse cr pb s = rust_result (parse pb pu s)"
proof (cases "bounded s")
  case (Some code)
  then show ?thesis by (simp add: rust_result_thrown rust_parse_def bounded_agrees rust_bind_def parseRecognized_def)
next
  case None
  have prefixes: "RUST_DEVICE_REFERENCE_PREFIX = DEVICE_REFERENCE_PREFIX" "RUST_DEVICE_PREFIX = DEVICE_PREFIX"
    "RUST_ACTION_PREFIX = ACTION_PREFIX"
    by (simp_all add: RUST_DEVICE_REFERENCE_PREFIX_def DEVICE_REFERENCE_PREFIX_def RUST_DEVICE_PREFIX_def DEVICE_PREFIX_def
        RUST_ACTION_PREFIX_def ACTION_PREFIX_def)
  have lengths: "length ''pt://'' = 5" "length ''ptm1:'' = 5" "length ''ptc1:'' = 5" "length ''peers-touch://connect#'' = 22"
    by simp_all
  have bound: "rust_bounded s = Inr ()" using None by (simp add: bounded_agrees)
  note agree = reference_agrees [OF assms(1,3)] action_agrees [OF assms(1)] material_agrees [OF assms(1)]
    connection_agrees [OF assms(1)] web_agrees [OF assms(2)]
  show ?thesis
    unfolding rust_result_thrown rust_parse_def parseRecognized_def bound None rust_bind_def [of "Inr ()"] sum.case option.case
      strip_prefix_def prefixes lengths agree
    by (simp add: navigation_agrees)
qed

lemma parse_action_string:
  assumes "validateAction a = None" "\<not> isLocator a" "faithful (actions pb) a" "bounded (action_string pb a) = None"
  shows "parse pb pu (action_string pb a) = Recognized (Action a)"
proof -
  let ?bs = "toBinary (actions pb) a"
  have form: "action_string pb a = (if isDeviceAction a then DEVICE_PREFIX else ACTION_PREFIX) @ base64url ?bs"
    using assms(1,2) validate_fields by (intro action_string_device) auto
  have "parse_action pb (isDeviceAction a) (base64url ?bs) = Inr (Action a)"
    unfolding parse_action_Inr using assms(1-3) by (auto simp: faithful_def)
  then show ?thesis
    using assms(4) b32_not_url [of ?bs]
    by (auto simp: parse_iff parseRecognized_def form device_prefix action_prefix split: if_splits)
qed

lemma encode_agrees:
  assumes "rfc4648 cr" and "same_urls pu cr" and "writes_versions pb" and "admissible pb (ActionIn a)"
  shows "encode_action cr pb a = map_sum rust_code id (encode pb pu (ActionIn a))"
proof (cases "validateAction a")
  case (Some code)
  then show ?thesis by (simp add: encode_action_def encode_def validate_agrees rust_bind_def)
next
  case None
  have prefixes: "RUST_DEVICE_REFERENCE_PREFIX = DEVICE_REFERENCE_PREFIX" "RUST_DEVICE_PREFIX = DEVICE_PREFIX"
    "RUST_ACTION_PREFIX = ACTION_PREFIX"
    by (simp_all add: RUST_DEVICE_REFERENCE_PREFIX_def DEVICE_REFERENCE_PREFIX_def RUST_DEVICE_PREFIX_def DEVICE_PREFIX_def
        RUST_ACTION_PREFIX_def ACTION_PREFIX_def)
  have ts: "encode pb pu (ActionIn a) = (case parse pb pu (action_string pb a) of
      Recognized link \<Rightarrow> if same_kind (ActionIn a) link then Inr (action_string pb a) else Inl INVALID_LINK
    | Malformed code \<Rightarrow> Inl code | Unsupported code \<Rightarrow> Inl code)"
    using None by (simp add: encode_def Let_def)
  show ?thesis
  proof (cases "isLocator a")
    case True
    then obtain l where l: "sa_action a = Some (DeviceLinkLocator l)"
      by (auto simp: isLocator_def split: option.splits action_case.splits)
    then have form: "action_string pb a = DEVICE_REFERENCE_PREFIX @ base32 (toBinary (locators pb) l)"
      by (simp add: action_string_def)
    have "same_kind (ActionIn a) link" if "parse pb pu (action_string pb a) = Recognized link" for link
      using that reference_action [of pb pu l link] assms(4) l by (simp add: form action_link_def)
    moreover have "encode_action cr pb a = rust_bind (rust_result (parse pb pu (action_string pb a))) (\<lambda>_. Inr (action_string pb a))"
      using assms(1) None l parse_agrees [OF assms(1-3)]
      by (simp add: encode_action_def validate_agrees rust_bind_def rfc4648_def prefixes form Let_def)
    ultimately show ?thesis
      unfolding ts using reference_action [of pb pu l] assms(4) l
      by (auto simp: rust_bind_def form action_link_def split: parse_result.splits)
  next
    case False
    then have faithful: "faithful (actions pb) a"
      using assms(4) validate_fields [OF None] by (auto simp: isLocator_def split: option.splits action_case.splits)
    have rust: "encode_action cr pb a = rust_bind (rust_bounded (action_string pb a)) (\<lambda>_. Inr (action_string pb a))"
      using assms(1) None False
      by (auto simp: encode_action_def validate_agrees rust_bind_def rfc4648_def prefixes action_string_def isLocator_def
          isDeviceAction_def Let_def split: option.splits action_case.splits)
    show ?thesis
    proof (cases "bounded (action_string pb a)")
      case None: None
      then show ?thesis
        using parse_action_string [OF \<open>validateAction a = None\<close> False faithful] rust
        by (simp add: ts bounded_agrees rust_bind_def)
    next
      case (Some code)
      then have "code \<noteq> UNREGISTERED_ACTION" by (auto simp: bounded_def split: if_splits)
      then show ?thesis
        using Some rust
        by (cases code) (simp_all add: ts bounded_agrees rust_bind_def parse_def parseRecognized_def)
    qed
  qed
qed

text \<open>
  C0.  The native and the web implementation of links agree.  Over engines of RFC 4648, URL parsers of one
  standard and protobuf that writes set fields, both give the same result for every text: the same link,
  or the same error.  The one exception is a link to moments, which the web implementation recognises and
  the native one refuses.  Both write the same text for an action that protobuf reads back.
\<close>

theorem rust_links_agree:
  assumes "rfc4648 cr" and "same_urls pu cr" and "writes_versions pb"
  shows "rust_parse cr pb s = rust_result (parse pb pu s)
    \<and> (admissible pb (ActionIn a) \<longrightarrow> encode_action cr pb a = map_sum rust_code id (encode pb pu (ActionIn a)))"
  using parse_agrees [OF assms] encode_agrees [OF assms] by simp

section \<open>Examples\<close>

definition demo_crates :: crates where
  "demo_crates =
     \<lparr>base64_encode = base64url,
      base64_decode = \<lambda>s. if s = [] then Some [] else case unbase64url s of Inl _ \<Rightarrow> None | Inr bs \<Rightarrow> Some bs,
      base32_encode = base32,
      base32_decode = \<lambda>s. if s = [] then Some [] else case unbase32 s of Inl _ \<Rightarrow> None | Inr bs \<Rightarrow> Some bs,
      url_parse = \<lambda>_. None\<rparr>"

definition demo_messages :: protobuf where
  "demo_messages =
     demo_protobuf\<lparr>actions := demo_actions\<lparr>toBinary := \<lambda>a. case sa_action a of
        Some (ConversationId t) \<Rightarrow> toBinary demo_actions a | _ \<Rightarrow> [0]\<rparr>,
      locators := \<lparr>toBinary = \<lambda>_. [0], fromBinary = \<lambda>_. None\<rparr>\<rparr>"

lemma demo_crates_ok: "rfc4648 demo_crates" "same_urls (\<lambda>_. None) demo_crates" "writes_versions demo_messages"
proof -
  have empty: "base64url [] = []" "base32 [] = []" by code_simp+
  have "base64_decode demo_crates (base64url bs) = Some bs \<and> base32_decode demo_crates (base32 bs) = Some bs" for bs
  proof (cases "bs = []")
    case True
    then show ?thesis by (simp add: demo_crates_def empty)
  next
    case False
    then have "unbase64url (base64url bs) = Inr bs" "unbase32 (base32 bs) = Inr bs"
      by (simp_all add: unbase64url_iff unbase32_iff)
    moreover then have "base64url bs \<noteq> []" "base32 bs \<noteq> []" by (auto simp: unbase64url_def unbase32_def)
    ultimately show ?thesis by (simp add: demo_crates_def)
  qed
  moreover have "base64_encode demo_crates = base64url" "base32_encode demo_crates = base32" by (simp_all add: demo_crates_def)
  ultimately show "rfc4648 demo_crates" by (simp add: rfc4648_def)
  show "same_urls (\<lambda>_. None) demo_crates" by (simp add: same_urls_def demo_crates_def)
  show "writes_versions demo_messages"
    by (auto simp: writes_versions_def demo_messages_def demo_protobuf_def demo_actions_def split: option.splits action_case.splits)
qed

theorem rust_links_agree_witness:
  "rfc4648 demo_crates \<and> same_urls (\<lambda>_. None) demo_crates \<and> writes_versions demo_messages
   \<and> rust_parse demo_crates demo_messages ''pt://moments'' = Inl InvalidLink
   \<and> encode_action demo_crates demo_messages demo_action = Inr demo_link"
proof -
  have "parse demo_messages (\<lambda>_. None) ''pt://moments'' = Recognized (Navigation (nav moments None))"
    and "admissible demo_messages (ActionIn demo_action)"
    and "encode demo_messages (\<lambda>_. None) (ActionIn demo_action) = Inr demo_link"
    by code_simp+
  then show ?thesis
    using rust_links_agree [OF demo_crates_ok, of "''pt://moments''" demo_action] demo_crates_ok by (simp add: nav_def)
qed

end
