(* ===== verification/Chat_CallId.thy ===== *)
theory Chat_CallId
  imports Link_Base32 Prelude_Numbers "HOL-Library.List_Lexorder"
begin

text \<open>
  Call identifiers (\<^verbatim>\<open>packages/client-chat-core/src/callId.ts\<close>): a ULID of ten characters for the time
  and sixteen for the randomness.  \<^verbatim>\<open>BigInt\<close> values are natural numbers, the random bytes are an
  argument.
\<close>

unbundle bit_operations_syntax

definition CROCKFORD_BASE32 :: string where
  "CROCKFORD_BASE32 = ''0123456789ABCDEFGHJKMNPQRSTVWXYZ''"

text \<open>The loop that puts \<open>n\<close> characters in front of \<open>part\<close>, five bits of \<open>value\<close> each.\<close>

fun crockford_part :: "nat \<Rightarrow> nat \<Rightarrow> string \<Rightarrow> string" where
  "crockford_part 0 value part = part"
| "crockford_part (Suc n) value part =
     crockford_part n (drop_bit 5 value) (CROCKFORD_BASE32 ! (value AND 31) # part)"

definition createCallId :: "jsnum \<Rightarrow> 8 word list \<Rightarrow> string + string" where
  "createCallId now randomBytes =
     (case safe_integer now of
        None \<Rightarrow> Inl ''call ID timestamp must fit the ULID 48-bit time field''
      | Some t \<Rightarrow>
          if t < 0 \<or> t > 0xffffffffffff
          then Inl ''call ID timestamp must fit the ULID 48-bit time field''
          else
            let timePart = crockford_part 10 (nat t) [];
                randomness = foldl (\<lambda>r byte. push_bit 8 r OR unat byte) 0 randomBytes;
                randomPart = crockford_part 16 randomness []
            in Inr (timePart @ randomPart))"

section \<open>Parts are fixed-width numerals\<close>

fun base_digits :: "nat \<Rightarrow> nat \<Rightarrow> nat list" where
  "base_digits 0 v = []"
| "base_digits (Suc n) v = base_digits n (v div 32) @ [v mod 32]"

lemma base_digits_spec:
  "length (base_digits n v) = n \<and> (\<forall>d \<in> set (base_digits n v). d < 32)
   \<and> digits_val 32 (base_digits n v) = v mod 32 ^ n"
proof (induction n arbitrary: v)
  case (Suc n)
  have "v mod 32 ^ Suc n = 32 * (v div 32 mod 32 ^ n) + v mod 32"
    by (simp add: mod_mult2_eq)
  with Suc show ?case by simp
qed simp

lemma crockford_digits:
  "crockford_part n v part = map (\<lambda>d. CROCKFORD_BASE32 ! d) (base_digits n v) @ part"
proof (induction n arbitrary: v part)
  case (Suc n)
  have "v AND 31 = v mod 32"
    using take_bit_eq_mask [of 5 v] by (simp add: mask_eq_exp_minus_1 take_bit_eq_mod)
  then show ?case by (simp add: Suc.IH drop_bit_eq_div)
qed simp

lemma crockford_order: "i < 32 \<Longrightarrow> j < 32 \<Longrightarrow> CROCKFORD_BASE32 ! i < CROCKFORD_BASE32 ! j \<longleftrightarrow> i < j"
proof -
  have "list_all (\<lambda>i. list_all (\<lambda>j. CROCKFORD_BASE32 ! i < CROCKFORD_BASE32 ! j \<longleftrightarrow> i < j) [0..<32]) [0..<32]"
    by code_simp
  then show "i < 32 \<Longrightarrow> j < 32 \<Longrightarrow> ?thesis" by (simp add: list_all_iff)
qed

lemma crockford_inj: "i < 32 \<Longrightarrow> j < 32 \<Longrightarrow> CROCKFORD_BASE32 ! i = CROCKFORD_BASE32 ! j \<longleftrightarrow> i = j"
  using crockford_order [of i j] crockford_order [of j i] by (metis less_irrefl nat_neq_iff)

lemma digits_less_lex:
  assumes "length ds = length es" "\<forall>d \<in> set ds. d < 32" "\<forall>d \<in> set es. d < 32"
    and "digits_val 32 ds < digits_val 32 es"
  shows "map (\<lambda>d. CROCKFORD_BASE32 ! d) ds @ r < map (\<lambda>d. CROCKFORD_BASE32 ! d) es @ r'"
  using assms
proof (induction ds arbitrary: es)
  case (Cons d ds)
  from Cons.prems(1) obtain e es' where es: "es = e # es'" by (cases es) simp_all
  have less: "digits_val 32 ds < 32 ^ length ds" "digits_val 32 es' < 32 ^ length ds"
    using Cons.prems(1-3) digits_val_less [of ds 32] digits_val_less [of es' 32] by (simp_all add: es)
  have val: "d * 32 ^ length ds + digits_val 32 ds < e * 32 ^ length ds + digits_val 32 es'"
    using Cons.prems(1,4) by (simp add: es)
  have "d \<le> e"
  proof (rule ccontr)
    assume "\<not> d \<le> e"
    then have "Suc e * 32 ^ length ds \<le> d * 32 ^ length ds" by (intro mult_le_mono1) simp
    with val less show False by simp
  qed
  moreover have "digits_val 32 ds < digits_val 32 es'" if "d = e" using val that by simp
  ultimately show ?case
    using Cons.IH [of es'] Cons.prems(1-3) crockford_order [of d e] by (auto simp: es)
qed simp

lemma random_value: "foldl (\<lambda>r byte. push_bit 8 r OR unat byte) 0 bs = byte_val bs"
proof (induction bs rule: rev_induct)
  case (snoc b bs)
  have "push_bit 8 n OR unat b = n * 256 + unat b" for n :: nat
    using push_or_nat [of "unat b" 8 n] unat_byte_less [of b] by simp
  with snoc show ?case by (simp add: byte_val_def)
qed (simp add: byte_val_def)

section \<open>Call identifiers sort by time\<close>

abbreviation call_part :: "nat \<Rightarrow> nat \<Rightarrow> string" where
  "call_part n v \<equiv> map (\<lambda>d. CROCKFORD_BASE32 ! d) (base_digits n v)"

lemma callId_form:
  "createCallId now r = Inr s \<longleftrightarrow>
     (\<exists>t. safe_integer now = Some t \<and> 0 \<le> t \<and> t < 2 ^ 48
        \<and> s = call_part 10 (nat t) @ call_part 16 (byte_val r))"
  by (auto simp: createCallId_def crockford_digits random_value Let_def split: option.splits)

lemma call_part_inj:
  assumes "call_part n v = call_part n w" "v < 32 ^ n" "w < 32 ^ n"
  shows "v = w"
proof -
  have "inj_on (\<lambda>d. CROCKFORD_BASE32 ! d) (set (base_digits n v) \<union> set (base_digits n w))"
    using base_digits_spec [of n v] base_digits_spec [of n w] crockford_inj by (auto simp: inj_on_def)
  then have "base_digits n v = base_digits n w" using assms(1) inj_on_map_eq_map by metis
  then show ?thesis
    using base_digits_spec [of n v] base_digits_spec [of n w] assms(2,3) by (metis mod_less)
qed

lemma call_part_alphabet: "set (call_part n v) \<subseteq> set CROCKFORD_BASE32"
proof -
  have "length CROCKFORD_BASE32 = 32" by (simp add: CROCKFORD_BASE32_def)
  then show ?thesis using base_digits_spec [of n v] by (auto intro: nth_mem)
qed

lemma random_less: "length r = 10 \<Longrightarrow> byte_val r < 32 ^ 16"
  using digits_val_less [of "map unat r" 256] unat_byte_less by (simp add: byte_val_def)

lemma callId_inj:
  assumes "length r = 10" "length r' = 10" "createCallId now r = Inr s" "createCallId now' r' = Inr s"
  shows "safe_integer now = safe_integer now' \<and> r = r'"
proof -
  obtain t t' where t: "safe_integer now = Some t" "0 \<le> t" "t < 2 ^ 48"
    "safe_integer now' = Some t'" "0 \<le> t'" "t' < 2 ^ 48"
    and s: "call_part 10 (nat t) @ call_part 16 (byte_val r)
      = call_part 10 (nat t') @ call_part 16 (byte_val r')"
    using assms(3,4) by (auto simp: callId_form)
  have parts: "call_part 10 (nat t) = call_part 10 (nat t')"
    "call_part 16 (byte_val r) = call_part 16 (byte_val r')"
    using s append_eq_append_conv [of "call_part 10 (nat t)" "call_part 10 (nat t')"]
    by (simp_all add: base_digits_spec)
  have "nat t = nat t'" using call_part_inj [OF parts(1)] t by (simp add: nat_less_iff)
  moreover have "byte_val r = byte_val r'" using call_part_inj [OF parts(2)] assms(1,2) random_less by simp
  ultimately show ?thesis using t assms(1,2) byte_val_inj by (simp add: nat_eq_iff)
qed

text \<open>
  C30. Call identifiers are fixed-width, sort by time and lose nothing.  A time that is a safe integer
  of at most 48 bits, and only such a time, gives an identifier; it has 26 characters of the alphabet.
  Of two identifiers the one for the earlier time is smaller as a string, whatever the randomness,
  and equal identifiers come from equal times and equal random bytes.
\<close>

theorem createCallId_sortable:
  assumes "length r = 10" and "length r' = 10"
  shows "((\<exists>s. createCallId now r = Inr s) \<longleftrightarrow>
      (\<exists>t. safe_integer now = Some t \<and> 0 \<le> t \<and> t < 2 ^ 48))
    \<and> (\<forall>s s'. createCallId now r = Inr s \<and> createCallId now' r' = Inr s' \<longrightarrow>
      length s = 26 \<and> set s \<subseteq> set CROCKFORD_BASE32
      \<and> (the (safe_integer now) < the (safe_integer now') \<longrightarrow> s < s')
      \<and> (s = s' \<longrightarrow> safe_integer now = safe_integer now' \<and> r = r'))"
proof (intro conjI allI impI, goal_cases)
  case 1
  show ?case by (auto simp: callId_form)
next
  case (2 s s')
  then show ?case by (auto simp: callId_form base_digits_spec)
next
  case (3 s s')
  then obtain t where s: "s = call_part 10 (nat t) @ call_part 16 (byte_val r)"
    by (auto simp: callId_form)
  show ?case unfolding s set_append by (intro Un_least call_part_alphabet)
next
  case (4 s s')
  then obtain t t' where t: "safe_integer now = Some t" "0 \<le> t" "t < 2 ^ 48"
    "s = call_part 10 (nat t) @ call_part 16 (byte_val r)"
    "safe_integer now' = Some t'" "0 \<le> t'" "t' < 2 ^ 48"
    "s' = call_part 10 (nat t') @ call_part 16 (byte_val r')" "t < t'"
    by (auto simp: callId_form)
  have "digits_val 32 (base_digits 10 (nat t)) < digits_val 32 (base_digits 10 (nat t'))"
    using t by (simp add: base_digits_spec nat_less_iff)
  then show ?case
    unfolding t(4,8) by (intro digits_less_lex) (simp_all add: base_digits_spec)
next
  case (5 s s')
  then show ?case using callId_inj [OF assms] by blast
next
  case (6 s s')
  then show ?case using callId_inj [OF assms] by blast
qed

theorem createCallId_sortable_witness:
  "\<exists>s s'. createCallId (Num 1) (replicate 10 255) = Inr s \<and> createCallId (Num 2) (replicate 10 0) = Inr s'
     \<and> s < s'"
proof -
  obtain s s' where "createCallId (Num 1) (replicate 10 255) = Inr s"
    "createCallId (Num 2) (replicate 10 0) = Inr s'"
    by (simp add: createCallId_def safe_integer_def)
  moreover have "safe_integer (Num 1) = Some 1" "safe_integer (Num 2) = Some 2"
    by (simp_all add: safe_integer_def)
  ultimately show ?thesis
    using createCallId_sortable [of "replicate 10 255" "replicate 10 0" "Num 1" "Num 2"] by auto
qed

end
