(* ===== verification/Chat_Media.thy ===== *)
theory Chat_Media
  imports Prelude_Numbers "HOL-Library.Char_ord"
begin

text \<open>
  Attachments of chat messages, from \<^verbatim>\<open>packages/client-chat-core/src/index.ts\<close>: media kinds by MIME
  type and file name, voice notes, and the payload of an encrypted message.
\<close>

section \<open>Attachments\<close>

text \<open>
  An attachment carries some fields under two spellings, camel case from the client and snake case
  from the wire; \<open>??\<close> prefers the first.  The fields of media encryption are not read by the code
  modelled here.
\<close>

record chat_attachment =
  at_cid :: "string option"
  at_filename :: "string option"
  at_mimeType :: "string option"
  at_mime_type :: "string option"
  at_contentKind :: "string option"
  at_content_kind :: "string option"
  at_durationMs :: "jsnum option"
  at_duration_ms :: "jsnum option"
  at_visibility :: "string option"

definition or_else :: "'a option \<Rightarrow> 'a option \<Rightarrow> 'a option" where
  "or_else x y = (case x of None \<Rightarrow> y | Some _ \<Rightarrow> x)"

definition or_empty :: "string option \<Rightarrow> string" where
  "or_empty x = (case x of None \<Rightarrow> [] | Some s \<Rightarrow> s)"

text \<open>\<^verbatim>\<open>toLowerCase\<close> below code unit 256.\<close>

definition lower_char :: "char \<Rightarrow> char" where
  "lower_char c =
     (if (CHR ''A'' \<le> c \<and> c \<le> CHR ''Z'') \<or> (CHR 0xC0 \<le> c \<and> c \<le> CHR 0xDE \<and> c \<noteq> CHR 0xD7)
      then char_of (of_char c + 32 :: nat) else c)"

definition js_lower :: "string \<Rightarrow> string" where
  "js_lower s = map lower_char s"

text \<open>The case-insensitive patterns compare ASCII letters only.\<close>

definition ascii_lower_char :: "char \<Rightarrow> char" where
  "ascii_lower_char c =
     (if CHR ''A'' \<le> c \<and> c \<le> CHR ''Z'' then char_of (of_char c + 32 :: nat) else c)"

definition ascii_lower :: "string \<Rightarrow> string" where
  "ascii_lower s = map ascii_lower_char s"

definition ends_with :: "string \<Rightarrow> string \<Rightarrow> bool" where
  "ends_with e s \<longleftrightarrow> length e \<le> length s \<and> drop (length s - length e) s = e"

definition has_extension :: "string list \<Rightarrow> string \<Rightarrow> bool" where
  "has_extension exts name \<longleftrightarrow> list_ex (\<lambda>e. ends_with (CHR ''.'' # e) (ascii_lower name)) exts"

definition IMAGE_EXTENSIONS :: "string list" where
  "IMAGE_EXTENSIONS =
     [''apng'', ''avif'', ''bmp'', ''gif'', ''heic'', ''heif'', ''ico'', ''jpg'', ''jpeg'', ''png'',
      ''svg'', ''tif'', ''tiff'', ''webp'']"

definition VIDEO_EXTENSIONS :: "string list" where
  "VIDEO_EXTENSIONS = [''avi'', ''m4v'', ''mkv'', ''mov'', ''mp4'', ''mpeg'', ''mpg'', ''webm'']"

definition AUDIO_EXTENSIONS :: "string list" where
  "AUDIO_EXTENSIONS = [''aac'', ''flac'', ''m4a'', ''mp3'', ''ogg'', ''opus'', ''wav'', ''webm'']"

definition VISUAL_EXTENSIONS :: "string list" where
  "VISUAL_EXTENSIONS =
     [''apng'', ''avif'', ''bmp'', ''gif'', ''heic'', ''heif'', ''jpg'', ''jpeg'', ''m4v'', ''mov'',
      ''mp4'', ''png'', ''webm'', ''webp'']"

section \<open>Kinds\<close>

datatype media_kind = MImage | MVideo | MAudio | MFile

definition CHAT_MESSAGE_TYPE_TEXT :: int where "CHAT_MESSAGE_TYPE_TEXT = 1"

definition CHAT_MESSAGE_TYPE_IMAGE :: int where "CHAT_MESSAGE_TYPE_IMAGE = 2"

definition CHAT_MESSAGE_TYPE_FILE :: int where "CHAT_MESSAGE_TYPE_FILE = 3"

definition CHAT_MESSAGE_TYPE_AUDIO :: int where "CHAT_MESSAGE_TYPE_AUDIO = 4"

definition CHAT_MESSAGE_TYPE_VIDEO :: int where "CHAT_MESSAGE_TYPE_VIDEO = 5"

lemmas message_type_defs = CHAT_MESSAGE_TYPE_TEXT_def CHAT_MESSAGE_TYPE_IMAGE_def
  CHAT_MESSAGE_TYPE_FILE_def CHAT_MESSAGE_TYPE_AUDIO_def CHAT_MESSAGE_TYPE_VIDEO_def

definition chatMessageTypeForMime :: "string \<Rightarrow> int" where
  "chatMessageTypeForMime mimeType =
     (let normalized = js_lower (js_trim mimeType) in
      if starts_with ''image/'' normalized then CHAT_MESSAGE_TYPE_IMAGE
      else if starts_with ''audio/'' normalized then CHAT_MESSAGE_TYPE_AUDIO
      else if starts_with ''video/'' normalized then CHAT_MESSAGE_TYPE_VIDEO
      else CHAT_MESSAGE_TYPE_FILE)"

definition chatMediaKindFromMimeFilename :: "string \<Rightarrow> string \<Rightarrow> media_kind" where
  "chatMediaKindFromMimeFilename mimeType filename =
     (let normalizedMime = js_lower (js_trim mimeType); normalizedFilename = js_trim filename in
      if starts_with ''image/'' normalizedMime then MImage
      else if starts_with ''video/'' normalizedMime then MVideo
      else if starts_with ''audio/'' normalizedMime then MAudio
      else if has_extension IMAGE_EXTENSIONS normalizedFilename then MImage
      else if has_extension VIDEO_EXTENSIONS normalizedFilename then MVideo
      else if has_extension AUDIO_EXTENSIONS normalizedFilename then MAudio
      else MFile)"

definition chatAttachmentMimeType :: "chat_attachment \<Rightarrow> string" where
  "chatAttachmentMimeType a = js_trim (or_empty (or_else (at_mimeType a) (at_mime_type a)))"

definition chatMediaKindForAttachment :: "chat_attachment \<Rightarrow> media_kind" where
  "chatMediaKindForAttachment a =
     chatMediaKindFromMimeFilename (chatAttachmentMimeType a) (or_empty (at_filename a))"

definition chatMessageTypeForAttachment :: "chat_attachment \<Rightarrow> int" where
  "chatMessageTypeForAttachment a =
     (case chatMediaKindForAttachment a of
        MImage \<Rightarrow> CHAT_MESSAGE_TYPE_IMAGE
      | MVideo \<Rightarrow> CHAT_MESSAGE_TYPE_VIDEO
      | MAudio \<Rightarrow> CHAT_MESSAGE_TYPE_AUDIO
      | MFile \<Rightarrow> CHAT_MESSAGE_TYPE_FILE)"

definition chatMessageTypeForAttachments :: "chat_attachment list \<Rightarrow> int option" where
  "chatMessageTypeForAttachments as =
     (case as of [] \<Rightarrow> None | a # _ \<Rightarrow> Some (chatMessageTypeForAttachment a))"

text \<open>\<^verbatim>\<open>Math.round\<close> rounds halves up.\<close>

definition chatAttachmentDurationMs :: "chat_attachment \<Rightarrow> int" where
  "chatAttachmentDurationMs a =
     (case or_else (at_durationMs a) (at_duration_ms a) of
        Some (Num q) \<Rightarrow> if q > 0 then floor (q + 1 / 2) else 0
      | _ \<Rightarrow> 0)"

definition isChatVoiceNoteAttachment :: "chat_attachment \<Rightarrow> bool" where
  "isChatVoiceNoteAttachment a \<longleftrightarrow>
     or_else (at_contentKind a) (at_content_kind a) = Some ''voice_note''
     \<and> starts_with ''audio/'' (js_lower (chatAttachmentMimeType a))
     \<and> chatAttachmentDurationMs a > 0"

definition normalizeChatAttachmentVisibility :: "string option \<Rightarrow> string option" where
  "normalizeChatAttachmentVisibility v =
     (if v \<in> {Some ''public'', Some ''chat'', Some ''private''} then v else None)"

definition hasChatAttachmentIdentity :: "chat_attachment \<Rightarrow> bool" where
  "hasChatAttachmentIdentity a \<longleftrightarrow>
     js_trim (or_empty (at_cid a)) \<noteq> [] \<or> js_trim (or_empty (at_filename a)) \<noteq> []"

definition isVisualChatAttachment :: "chat_attachment \<Rightarrow> bool" where
  "isVisualChatAttachment a \<longleftrightarrow>
     (let mimeType = js_lower (chatAttachmentMimeType a) in
      starts_with ''image/'' mimeType \<or> starts_with ''video/'' mimeType
      \<or> has_extension VISUAL_EXTENSIONS (or_empty (at_filename a)))"

definition isPreviewableChatAttachment :: "chat_attachment \<Rightarrow> bool" where
  "isPreviewableChatAttachment a \<longleftrightarrow> chatMediaKindForAttachment a \<in> {MImage, MVideo, MAudio}"

text \<open>The message type of a payload is kept when it is a positive finite number.\<close>

record encrypted_payload =
  ep_text :: string
  ep_attachments :: "chat_attachment list"
  ep_messageType :: "rat option"

definition buildChatEncryptedMessagePayload ::
  "string option \<Rightarrow> chat_attachment list \<Rightarrow> jsnum \<Rightarrow> encrypted_payload" where
  "buildChatEncryptedMessagePayload text attachments messageType =
     \<lparr>ep_text = or_empty text,
      ep_attachments = filter hasChatAttachmentIdentity attachments,
      ep_messageType = (case messageType of Num q \<Rightarrow> if q > 0 then Some q else None | _ \<Rightarrow> None)\<rparr>"

definition encryptedChatTransportMessageType :: int where
  "encryptedChatTransportMessageType = CHAT_MESSAGE_TYPE_TEXT"

section \<open>What is shown as visual can be previewed\<close>

lemma ends_with_iff: "ends_with e s \<longleftrightarrow> (\<exists>p. s = p @ e)"
  by (auto simp: ends_with_def) (metis append_take_drop_id)

lemma js_space_small: "js_space c \<Longrightarrow> \<not> (CHR ''0'' \<le> c \<and> c \<le> CHR ''z'') \<and> c \<noteq> CHR ''.''"
  by (auto simp: js_space_def less_eq_char_def)

lemma js_space_lower: "js_space c \<Longrightarrow> ascii_lower_char c = c"
  by (auto simp: ascii_lower_char_def js_space_def less_eq_char_def)

lemma trim_suffix:
  assumes "e \<noteq> []" "\<not> js_space (hd e)" "\<not> js_space (last e)"
  shows "\<exists>q. js_trim (p @ e) = q @ e"
proof -
  have d: "dropWhile js_space (p @ e) = dropWhile js_space p @ e"
    using assms(1,2) by (cases e) (auto simp: dropWhile_append)
  have "dropWhile js_space (rev (dropWhile js_space p @ e)) = rev (dropWhile js_space p @ e)"
    using assms(1,3) by (cases e rule: rev_cases) auto
  then show ?thesis by (auto simp: js_trim_def d)
qed

lemma extension_trim:
  assumes "has_extension exts s" "\<forall>e \<in> set exts. e \<noteq> [] \<and> list_all (\<lambda>c. CHR ''0'' \<le> c \<and> c \<le> CHR ''z'') e"
  shows "has_extension exts (js_trim s)"
proof -
  obtain e p where e: "e \<in> set exts" "ascii_lower s = p @ CHR ''.'' # e"
    using assms(1) by (auto simp: has_extension_def list_ex_iff ends_with_iff)
  obtain p' e' where s: "s = p' @ e'" "ascii_lower p' = p" "ascii_lower e' = CHR ''.'' # e"
    using e(2) unfolding ascii_lower_def by (metis append_eq_map_conv)
  have plain: "\<not> js_space c" if "c \<in> set e'" for c
  proof
    assume "js_space c"
    then have "c = ascii_lower_char c" using js_space_lower by simp
    with that have "c \<in> set (ascii_lower e')" by (auto simp: ascii_lower_def)
    then have "c = CHR ''.'' \<or> (CHR ''0'' \<le> c \<and> c \<le> CHR ''z'')"
      using assms(2) e(1) s(3) by (auto simp: list_all_iff)
    with \<open>js_space c\<close> show False using js_space_small by blast
  qed
  have "e' \<noteq> []" using s(3) by (auto simp: ascii_lower_def)
  then obtain q where "js_trim s = q @ e'"
    using trim_suffix [of e' p'] plain s(1) by auto
  then have "ascii_lower (js_trim s) = ascii_lower q @ CHR ''.'' # e"
    using s(3) by (simp add: ascii_lower_def)
  then show ?thesis using e(1) by (auto simp: has_extension_def list_ex_iff ends_with_iff)
qed

lemma trim_idem [simp]: "js_trim (js_trim s) = js_trim s"
proof -
  let ?d = "dropWhile js_space s"
  have "\<not> js_space (hd (js_trim s))" if "js_trim s \<noteq> []"
  proof -
    have "\<exists>t. ?d = js_trim s @ t"
      by (metis js_trim_def rev_append rev_rev_ident takeWhile_dropWhile_id)
    then have "hd ?d = hd (js_trim s)" "?d \<noteq> []" using that by (auto simp del: dropWhile_eq_Nil_conv)
    then show ?thesis using hd_dropWhile [of js_space s] by metis
  qed
  moreover have "\<not> js_space (last (js_trim s))" if "js_trim s \<noteq> []"
    using that hd_dropWhile [of js_space "rev ?d"] by (auto simp: js_trim_def last_rev)
  ultimately have "dropWhile js_space (js_trim s) = js_trim s"
    "dropWhile js_space (rev (js_trim s)) = rev (js_trim s)"
    by (auto simp: dropWhile_eq_self_iff hd_rev)
  then show ?thesis by (simp add: js_trim_def [of "js_trim s"])
qed

lemma visual_extensions:
  assumes "has_extension VISUAL_EXTENSIONS s"
  shows "has_extension IMAGE_EXTENSIONS (js_trim s) \<or> has_extension VIDEO_EXTENSIONS (js_trim s)"
proof -
  have "\<forall>e \<in> set VISUAL_EXTENSIONS. e \<noteq> [] \<and> list_all (\<lambda>c. CHR ''0'' \<le> c \<and> c \<le> CHR ''z'') e" by code_simp
  then have "has_extension VISUAL_EXTENSIONS (js_trim s)" using extension_trim assms by blast
  moreover have "set VISUAL_EXTENSIONS \<subseteq> set IMAGE_EXTENSIONS \<union> set VIDEO_EXTENSIONS" by code_simp
  ultimately show ?thesis by (auto simp: has_extension_def list_ex_iff)
qed

text \<open>
  Every attachment the clients show as visual can be previewed: by its MIME type or by a file name
  the visual pattern accepts, it is classified as an image, a video or, when its MIME type says so, as
  audio.
\<close>

theorem visual_attachments_previewable:
  assumes "isVisualChatAttachment a"
  shows "isPreviewableChatAttachment a"
  using assms visual_extensions [of "or_empty (at_filename a)"]
  by (auto simp: isVisualChatAttachment_def isPreviewableChatAttachment_def chatMediaKindForAttachment_def
      chatMediaKindFromMimeFilename_def chatAttachmentMimeType_def Let_def)

theorem visual_attachments_previewable_witness:
  "isPreviewableChatAttachment
     \<lparr>at_cid = None, at_filename = Some '' Photo.JPEG'', at_mimeType = None, at_mime_type = None,
      at_contentKind = None, at_content_kind = None, at_durationMs = None, at_duration_ms = None,
      at_visibility = None\<rparr>"
  by (rule visual_attachments_previewable) code_simp

end
