(* ===== verification/Chat_Outbox.thy ===== *)
theory Chat_Outbox
  imports Chat_Media
begin

text \<open>
  The outbox of the chat core, \<^verbatim>\<open>packages/client-chat-core/src/index.ts\<close>: operations waiting to be sent,
  with their attempts.  The payload is whatever the client sends.  Times are integers; \<open>now\<close> is the value
  of the argument or of the clock.
\<close>

section \<open>Items and operations\<close>

datatype outbox_scope = OutboxFriend | OutboxGroup

datatype outbox_operation = SendMessage | EditMessage | RecallMessage | DeleteMessage | AckRead

datatype outbox_status = Queued | Sending | Failed

record 'p outbox_draft =
  od_localId :: string
  od_scope :: outbox_scope
  od_conversationId :: string
  od_operation :: outbox_operation
  od_payload :: 'p

record 'p outbox_item =
  oi_localId :: string
  oi_scope :: outbox_scope
  oi_conversationId :: string
  oi_operation :: outbox_operation
  oi_payload :: 'p
  oi_status :: outbox_status
  oi_attempts :: nat
  oi_createdAt :: int
  oi_updatedAt :: int
  oi_nextAttemptAt :: "int option"
  oi_error :: "string option"

record failure_options =
  fo_now :: int
  fo_retryDelayMs :: "int option"
  fo_error :: "string option"

definition queued_item :: "'p outbox_draft \<Rightarrow> int \<Rightarrow> 'p outbox_item" where
  "queued_item draft now =
     \<lparr>oi_localId = od_localId draft, oi_scope = od_scope draft, oi_conversationId = od_conversationId draft,
      oi_operation = od_operation draft, oi_payload = od_payload draft, oi_status = Queued, oi_attempts = 0,
      oi_createdAt = now, oi_updatedAt = now, oi_nextAttemptAt = None, oi_error = None\<rparr>"

definition enqueueChatOutboxItem :: "'p outbox_item list \<Rightarrow> 'p outbox_draft \<Rightarrow> int \<Rightarrow> 'p outbox_item list" where
  "enqueueChatOutboxItem queue draft now =
     (case find (\<lambda>item. oi_localId item = od_localId draft) queue of
        Some existing \<Rightarrow> queue
      | None \<Rightarrow> queue @ [queued_item draft now])"

definition sending_item :: "int \<Rightarrow> 'p outbox_item \<Rightarrow> 'p outbox_item" where
  "sending_item now item =
     item\<lparr>oi_status := Sending, oi_attempts := oi_attempts item + 1, oi_updatedAt := now, oi_error := None,
          oi_nextAttemptAt := None\<rparr>"

definition markChatOutboxSending :: "'p outbox_item list \<Rightarrow> string \<Rightarrow> int \<Rightarrow> 'p outbox_item list" where
  "markChatOutboxSending queue localId now =
     map (\<lambda>item. if oi_localId item = localId then sending_item now item else item) queue"

definition completeChatOutboxItem :: "'p outbox_item list \<Rightarrow> string \<Rightarrow> 'p outbox_item list" where
  "completeChatOutboxItem queue localId = filter (\<lambda>item. oi_localId item \<noteq> localId) queue"

definition failed_item :: "failure_options \<Rightarrow> 'p outbox_item \<Rightarrow> 'p outbox_item" where
  "failed_item opts item =
     item\<lparr>oi_status := Failed, oi_updatedAt := fo_now opts,
          oi_nextAttemptAt := Some (fo_now opts + (case fo_retryDelayMs opts of None \<Rightarrow> 5000 | Some d \<Rightarrow> d)),
          oi_error := (if or_empty (fo_error opts) \<noteq> [] then fo_error opts else oi_error item)\<rparr>"

definition failChatOutboxItem :: "'p outbox_item list \<Rightarrow> string \<Rightarrow> failure_options \<Rightarrow> 'p outbox_item list" where
  "failChatOutboxItem queue localId opts =
     map (\<lambda>item. if oi_localId item = localId then failed_item opts item else item) queue"

definition ready_to_drain :: "int \<Rightarrow> 'p outbox_item \<Rightarrow> bool" where
  "ready_to_drain now item \<longleftrightarrow>
     oi_status item = Queued \<or>
     oi_status item = Failed \<and> (case oi_nextAttemptAt item of None \<Rightarrow> 0 | Some t \<Rightarrow> t) \<le> now"

definition chatOutboxReadyToDrain :: "'p outbox_item list \<Rightarrow> int \<Rightarrow> 'p outbox_item list" where
  "chatOutboxReadyToDrain queue now = filter (ready_to_drain now) queue"

section \<open>Histories of an outbox\<close>

datatype 'p outbox_op =
    OpEnqueue "'p outbox_draft" int
  | OpSending string int
  | OpComplete string
  | OpFail string failure_options

fun outbox_apply :: "'p outbox_item list \<Rightarrow> 'p outbox_op \<Rightarrow> 'p outbox_item list" where
  "outbox_apply q (OpEnqueue d now) = enqueueChatOutboxItem q d now"
| "outbox_apply q (OpSending i now) = markChatOutboxSending q i now"
| "outbox_apply q (OpComplete i) = completeChatOutboxItem q i"
| "outbox_apply q (OpFail i opts) = failChatOutboxItem q i opts"

fun op_target :: "'p outbox_op \<Rightarrow> string" where
  "op_target (OpEnqueue d now) = od_localId d"
| "op_target (OpSending i now) = i"
| "op_target (OpComplete i) = i"
| "op_target (OpFail i opts) = i"

text \<open>The specification: the life of one operation, unaffected by the others.\<close>

fun item_life :: "'p outbox_item option \<Rightarrow> 'p outbox_op \<Rightarrow> 'p outbox_item option" where
  "item_life None (OpEnqueue d now) = Some (queued_item d now)"
| "item_life (Some it) (OpEnqueue d now) = Some it"
| "item_life it (OpSending i now) = map_option (sending_item now) it"
| "item_life it (OpComplete i) = None"
| "item_life it (OpFail i opts) = map_option (failed_item opts) it"

definition item_at :: "'p outbox_item list \<Rightarrow> string \<Rightarrow> 'p outbox_item option" where
  "item_at q i = find (\<lambda>item. oi_localId item = i) q"

definition outbox_wf :: "'p outbox_item list \<Rightarrow> bool" where
  "outbox_wf q \<longleftrightarrow> distinct (map oi_localId q)"

lemma item_localId [simp]:
  "oi_localId (queued_item d now) = od_localId d"
  "oi_localId (sending_item now it) = oi_localId it"
  "oi_localId (failed_item opts it) = oi_localId it"
  by (simp_all add: queued_item_def sending_item_def failed_item_def)

lemma item_at_map:
  assumes "\<And>it. oi_localId (f it) = oi_localId it"
  shows "item_at (map (\<lambda>it. if oi_localId it = j then f it else it) q) i =
    (if i = j then map_option f (item_at q i) else item_at q i)"
  unfolding item_at_def by (induction q) (auto simp: assms)

lemma item_at_filter:
  "item_at (filter (\<lambda>it. oi_localId it \<noteq> j) q) i = (if i = j then None else item_at q i)"
  unfolding item_at_def by (induction q) auto

lemma item_at_append: "item_at (q @ [it]) i =
    (case item_at q i of None \<Rightarrow> if oi_localId it = i then Some it else None | Some x \<Rightarrow> Some x)"
  unfolding item_at_def by (induction q) auto

lemma item_at_None: "item_at q i = None \<longleftrightarrow> i \<notin> oi_localId ` set q"
  unfolding item_at_def by (auto simp: find_None_iff)

lemma item_at_step:
  "item_at (outbox_apply q op) i = (if op_target op = i then item_life (item_at q i) op else item_at q i)"
proof (cases op)
  case (OpEnqueue d now)
  then show ?thesis
    by (cases "item_at q (od_localId d)")
      (auto simp: enqueueChatOutboxItem_def item_at_def [symmetric] item_at_append split: option.splits)
qed (auto simp: markChatOutboxSending_def failChatOutboxItem_def completeChatOutboxItem_def item_at_map item_at_filter)

lemma outbox_wf_step: "outbox_wf q \<Longrightarrow> outbox_wf (outbox_apply q op)"
proof (cases op)
  case (OpEnqueue d now)
  then show "outbox_wf q \<Longrightarrow> outbox_wf (outbox_apply q op)"
    using item_at_None [of q "od_localId d"]
    by (auto simp: outbox_wf_def enqueueChatOutboxItem_def item_at_def split: option.splits)
next
  case (OpSending i now)
  have "map oi_localId (markChatOutboxSending q i now) = map oi_localId q"
    by (simp add: markChatOutboxSending_def)
  then show "outbox_wf q \<Longrightarrow> outbox_wf (outbox_apply q op)" using OpSending by (simp add: outbox_wf_def)
next
  case (OpFail i opts)
  have "map oi_localId (failChatOutboxItem q i opts) = map oi_localId q"
    by (simp add: failChatOutboxItem_def)
  then show "outbox_wf q \<Longrightarrow> outbox_wf (outbox_apply q op)" using OpFail by (simp add: outbox_wf_def)
qed (simp add: outbox_wf_def completeChatOutboxItem_def distinct_map_filter)

declare outbox_apply.simps [simp del]

lemma outbox_life:
  "item_at (foldl outbox_apply q ops) i = foldl item_life (item_at q i) (filter (\<lambda>op. op_target op = i) ops)"
  by (induction ops arbitrary: q) (simp_all add: item_at_step)

lemma outbox_wf_histories: "outbox_wf q \<Longrightarrow> outbox_wf (foldl outbox_apply q ops)"
  by (induction ops arbitrary: q) (simp_all add: outbox_wf_step)

lemma outbox_wf_history: "outbox_wf (foldl outbox_apply [] ops)"
  by (rule outbox_wf_histories) (simp add: outbox_wf_def)

lemma ready_iff:
  assumes "outbox_wf q"
  shows "i \<in> oi_localId ` set (chatOutboxReadyToDrain q now) \<longleftrightarrow>
    (case item_at q i of None \<Rightarrow> False | Some it \<Rightarrow> ready_to_drain now it)"
  using assms unfolding chatOutboxReadyToDrain_def item_at_def outbox_wf_def
  by (induction q) (auto simp: image_iff)

fun ends_attempt :: "string \<Rightarrow> 'p outbox_op \<Rightarrow> bool" where
  "ends_attempt i (OpComplete j) \<longleftrightarrow> i = j"
| "ends_attempt i (OpFail j opts) \<longleftrightarrow> i = j"
| "ends_attempt i _ \<longleftrightarrow> False"

text \<open>While an attempt lasts the item stays \<open>Sending\<close>, whatever else happens to the outbox.\<close>

definition in_flight :: "'p outbox_item option \<Rightarrow> bool" where
  "in_flight it \<longleftrightarrow> (case it of None \<Rightarrow> False | Some x \<Rightarrow> oi_status x = Sending)"

lemma in_flight_history:
  assumes "in_flight (item_at q i)" "\<forall>op \<in> set ops. \<not> ends_attempt i op"
  shows "in_flight (item_at (foldl outbox_apply q ops) i)"
  using assms
proof (induction ops arbitrary: q)
  case (Cons op ops)
  have "in_flight (item_at (outbox_apply q op) i)"
    using Cons.prems by (cases op) (auto simp: item_at_step in_flight_def sending_item_def split: option.splits)
  then show ?case using Cons by simp
qed simp

definition sendings :: "string \<Rightarrow> 'p outbox_op list \<Rightarrow> nat" where
  "sendings i ops = length (filter (\<lambda>op. \<exists>now. op = OpSending i now) ops)"

lemma life_keeps:
  assumes "item_at q i = Some it" "\<forall>op \<in> set ops. op \<noteq> OpComplete i"
  shows "\<exists>it'. item_at (foldl outbox_apply q ops) i = Some it' \<and> oi_operation it' = oi_operation it \<and>
    oi_payload it' = oi_payload it \<and> oi_conversationId it' = oi_conversationId it \<and>
    oi_createdAt it' = oi_createdAt it \<and> oi_attempts it' = oi_attempts it + sendings i ops"
  using assms
proof (induction ops arbitrary: q it)
  case (Cons op ops)
  obtain it1 where it1: "item_at (outbox_apply q op) i = Some it1" "oi_operation it1 = oi_operation it"
    "oi_payload it1 = oi_payload it" "oi_conversationId it1 = oi_conversationId it"
    "oi_createdAt it1 = oi_createdAt it" "oi_attempts it1 = oi_attempts it + sendings i [op]"
    using Cons.prems
    by (cases op; cases "op_target op = i") (auto simp: item_at_step sendings_def sending_item_def failed_item_def)
  from Cons.IH [OF it1(1)] Cons.prems(2) it1 show ?case by (fastforce simp: sendings_def)
qed (simp add: sendings_def)

text \<open>
  C28.  The outbox loses no operation: an operation put into the outbox stays there, with its payload
  and with one attempt counted per sending, through everything that happens to it and to the others,
  until it is completed, and the identifiers of the outbox stay distinct.
\<close>

theorem outbox_keeps_operations:
  assumes "item_at (foldl outbox_apply [] before) (od_localId d) = None"
    and "\<forall>op \<in> set ops. op \<noteq> OpComplete (od_localId d)"
  shows "let q = foldl outbox_apply [] (before @ [OpEnqueue d t] @ ops) in
    outbox_wf q \<and> (\<exists>it. item_at q (od_localId d) = Some it \<and> oi_operation it = od_operation d \<and>
      oi_payload it = od_payload d \<and> oi_conversationId it = od_conversationId d \<and> oi_createdAt it = t \<and>
      oi_attempts it = sendings (od_localId d) ops)"
proof -
  let ?q = "outbox_apply (foldl outbox_apply [] before) (OpEnqueue d t)"
  have "item_at ?q (od_localId d) = Some (queued_item d t)" using assms(1) by (simp add: item_at_step)
  from life_keeps [OF this assms(2)] show ?thesis
    using outbox_wf_history [of "before @ [OpEnqueue d t] @ ops"] by (auto simp: Let_def queued_item_def)
qed

definition demo_draft :: "string \<Rightarrow> nat outbox_draft" where
  "demo_draft i = \<lparr>od_localId = i, od_scope = OutboxFriend, od_conversationId = ''c'', od_operation = SendMessage,
     od_payload = 7\<rparr>"

definition demo_failure :: failure_options where
  "demo_failure = \<lparr>fo_now = 20, fo_retryDelayMs = None, fo_error = Some ''offline''\<rparr>"

theorem outbox_keeps_operations_witness:
  "\<exists>it. item_at (foldl outbox_apply []
     ([OpEnqueue (demo_draft ''a'') 1] @ [OpEnqueue (demo_draft ''b'') 2] @
      [OpSending ''b'' 3, OpFail ''b'' demo_failure, OpComplete ''a'', OpSending ''b'' 6000])) ''b'' = Some it
     \<and> oi_payload it = 7 \<and> oi_attempts it = 2"
proof -
  have b: "od_localId (demo_draft ''b'') = ''b''" "od_payload (demo_draft ''b'') = 7" by code_simp+
  have none: "item_at (foldl outbox_apply [] [OpEnqueue (demo_draft ''a'') 1]) ''b'' = None" by code_simp
  have two: "sendings ''b'' [OpSending ''b'' 3, OpFail ''b'' demo_failure, OpComplete ''a'', OpSending ''b'' 6000] = 2"
    by (simp add: sendings_def)
  show ?thesis
    using outbox_keeps_operations [of "[OpEnqueue (demo_draft ''a'') 1]" "demo_draft ''b''"
        "[OpSending ''b'' 3, OpFail ''b'' demo_failure, OpComplete ''a'', OpSending ''b'' 6000]" 2]
    unfolding b using none two by (auto simp: Let_def)
qed

text \<open>
  C29.  The outbox hands an operation out once per attempt: from the moment it is marked as sending,
  and until that attempt is completed or failed, it is not ready at any time, even when the same draft
  is put into the outbox again; after a failure it is ready again exactly from the retry time on.
\<close>

theorem outbox_hands_out_once:
  assumes "outbox_wf q" "item_at q i \<noteq> None" "\<forall>op \<in> set ops. \<not> ends_attempt i op"
  shows "i \<notin> oi_localId ` set (chatOutboxReadyToDrain (foldl outbox_apply q (OpSending i t # ops)) now) \<and>
    (i \<in> oi_localId ` set (chatOutboxReadyToDrain (foldl outbox_apply q (OpSending i t # ops @ [OpFail i opts])) now)
     \<longleftrightarrow> fo_now opts + (case fo_retryDelayMs opts of None \<Rightarrow> 5000 | Some d \<Rightarrow> d) \<le> now)"
proof -
  let ?q = "foldl outbox_apply (outbox_apply q (OpSending i t)) ops"
  have "in_flight (item_at (outbox_apply q (OpSending i t)) i)"
    using assms(2) by (auto simp: item_at_step in_flight_def sending_item_def)
  then have "in_flight (item_at ?q i)" using in_flight_history assms(3) by blast
  then obtain it where it: "item_at ?q i = Some it" "oi_status it = Sending"
    by (auto simp: in_flight_def split: option.splits)
  have wf: "outbox_wf ?q" using outbox_wf_histories [OF outbox_wf_step [OF assms(1)]] .
  have "item_at (outbox_apply ?q (OpFail i opts)) i = Some (failed_item opts it)"
    using it by (simp add: item_at_step)
  then show ?thesis
    using it ready_iff [OF wf, of i now] ready_iff [OF outbox_wf_step [OF wf], of i "OpFail i opts" now]
    by (simp add: ready_to_drain_def failed_item_def)
qed

theorem outbox_hands_out_once_witness:
  "''a'' \<in> oi_localId ` set (chatOutboxReadyToDrain (foldl outbox_apply [queued_item (demo_draft ''a'') 1]
     (OpSending ''a'' 3 # [OpEnqueue (demo_draft ''a'') 4] @ [OpFail ''a'' demo_failure])) 5020)"
proof -
  have "outbox_wf [queued_item (demo_draft ''a'') 1]" by code_simp
  moreover have "item_at [queued_item (demo_draft ''a'') 1] ''a'' \<noteq> None" by code_simp
  ultimately show ?thesis
    using outbox_hands_out_once [of "[queued_item (demo_draft ''a'') 1]" "''a''" "[OpEnqueue (demo_draft ''a'') 4]" 3 5020
        demo_failure] by (simp add: demo_failure_def)
qed

end
