(* ===== verification/Chat_Replica.thy ===== *)
theory Chat_Replica
  imports Prelude "HOL-Library.Product_Lexorder"
begin

text \<open>
  Replicas that merge what they receive.  The clients keep messages in a \<^verbatim>\<open>Map\<close> by identifier, merge
  an incoming version into the one they have, and show the values sorted.  This theory states once what
  such a replica needs for its content to depend only on the set of versions received, not on their
  order or multiplicity; the message list of the chat core and the agent chat cache are instances.
\<close>

section \<open>Sorting distinct keys\<close>

lemma sort_key_set_eq:
  fixes rank :: "'m \<Rightarrow> 'o::linorder"
  assumes "distinct xs" "distinct ys" "set xs = set ys" "inj_on rank (set xs)"
  shows "sort_key rank xs = sort_key rank ys"
proof -
  have "map rank (sort_key rank xs) = map rank (sort_key rank ys)"
    using assms by (intro sorted_distinct_set_unique) (auto simp: distinct_map)
  then show ?thesis using assms inj_on_map_eq_map [of rank "sort_key rank xs" "sort_key rank ys"] by simp
qed

section \<open>Items indexed by a key\<close>

text \<open>
  The pattern \<^verbatim>\<open>for (const m of list) map.set(key(m), m)\<close>, and maps whose entries stand under their own
  key.
\<close>

definition index_by :: "('m \<Rightarrow> 'k) \<Rightarrow> 'm list \<Rightarrow> ('k, 'm) jsmap" where
  "index_by key ms = fold (\<lambda>m. map_set (key m) m) ms []"

definition keyed :: "('m \<Rightarrow> 'k) \<Rightarrow> ('k, 'm) jsmap \<Rightarrow> bool" where
  "keyed key m \<longleftrightarrow> map_wf m \<and> (\<forall>k v. map_get m k = Some v \<longrightarrow> key v = k)"

lemma keyed_Nil [simp]: "keyed key []"
  by (simp add: keyed_def)

lemma keyed_set: "keyed key m \<Longrightarrow> key v = k \<Longrightarrow> keyed key (map_set k v m)"
  by (auto simp: keyed_def)

lemma keyed_values:
  assumes "keyed key m"
  shows "distinct (map key (map_values m))" and "v \<in> set (map_values m) \<longleftrightarrow> map_get m (key v) = Some v"
proof -
  have in_m: "(k, v) \<in> set m \<Longrightarrow> key v = k" for k v
    using assms map_get_eq_iff [of m k v] unfolding keyed_def by blast
  then have "map key (map_values m) = map fst m" by (force simp: map_values_def)
  then show "distinct (map key (map_values m))" using assms by (simp add: keyed_def map_wf_def)
  have "v \<in> set (map_values m) \<longleftrightarrow> (\<exists>k. map_get m k = Some v)"
    using assms by (simp add: keyed_def in_map_values)
  then show "v \<in> set (map_values m) \<longleftrightarrow> map_get m (key v) = Some v"
    using assms unfolding keyed_def by metis
qed

lemma option_fun_eqI: "(\<And>i v. f i = Some v \<longleftrightarrow> g i = Some v) \<Longrightarrow> f = g"
  by (rule ext) (metis not_Some_eq)

lemma keyed_get: "keyed key m \<Longrightarrow> map_get m (key v) = Some v \<and> key v = i \<longleftrightarrow> map_get m i = Some v"
  by (auto simp: keyed_def)

lemma index_by_snoc: "index_by key (ms @ [m]) = map_set (key m) m (index_by key ms)"
  by (simp add: index_by_def)

lemma keyed_index: "keyed key (index_by key ms)"
  by (induction ms rule: rev_induct) (simp_all add: index_by_snoc keyed_set, simp add: index_by_def)

lemma index_by_get:
  "map_get (index_by key ms) k = find (\<lambda>m. key m = k) (rev ms)"
  by (induction ms rule: rev_induct) (simp_all add: index_by_snoc, simp add: index_by_def)

lemma index_by_distinct:
  assumes "distinct (map key ms)"
  shows "map_get (index_by key ms) k = Some v \<longleftrightarrow> v \<in> set ms \<and> key v = k"
proof -
  have "find (\<lambda>m. key m = k) xs = Some v \<longleftrightarrow> v \<in> set xs \<and> key v = k" if "distinct (map key xs)" for xs
    using that by (induction xs) (auto simp: image_iff)
  from this [of "rev ms"] show ?thesis using assms by (simp add: index_by_get rev_map [symmetric] distinct_map)
qed

text \<open>Two lists without repeated keys and with the same items at every key, sorted, are the same.\<close>

lemma sorted_index_eq:
  fixes rank :: "'m \<Rightarrow> 'o::linorder"
  assumes "distinct (map key xs)" "distinct (map key ys)" "map_get (index_by key xs) = map_get (index_by key ys)"
    and "inj_on rank (set xs)"
  shows "sort_key rank xs = sort_key rank ys"
proof (rule sort_key_set_eq)
  have "v \<in> set xs \<longleftrightarrow> v \<in> set ys" for v
    using index_by_distinct [OF assms(1), of "key v" v] index_by_distinct [OF assms(2), of "key v" v] assms(3)
    by simp
  then show "set xs = set ys" by blast
qed (use assms in \<open>auto simp: distinct_map\<close>)

section \<open>Versions of one item\<close>

text \<open>
  \<open>join current incoming\<close> merges two versions with the same key.  Two versions with the same \<open>view\<close>
  are the same for a reader.  On versions of one key, merging is, up to the view, a semilattice.
\<close>

locale replica =
  fixes key :: "'m \<Rightarrow> 'k" and join :: "'m \<Rightarrow> 'm \<Rightarrow> 'm" and view :: "'m \<Rightarrow> 'v" and U :: "'m set"
  assumes join_U: "a \<in> U \<Longrightarrow> b \<in> U \<Longrightarrow> key a = key b \<Longrightarrow> join a b \<in> U \<and> key (join a b) = key a"
    and join_comm: "a \<in> U \<Longrightarrow> b \<in> U \<Longrightarrow> key a = key b \<Longrightarrow> view (join a b) = view (join b a)"
    and join_idem: "a \<in> U \<Longrightarrow> view (join a a) = view a"
    and join_assoc: "a \<in> U \<Longrightarrow> b \<in> U \<Longrightarrow> c \<in> U \<Longrightarrow> key a = key b \<Longrightarrow> key b = key c \<Longrightarrow>
        view (join (join a b) c) = view (join a (join b c))"
    and join_cong: "a \<in> U \<Longrightarrow> a' \<in> U \<Longrightarrow> b \<in> U \<Longrightarrow> key a = key b \<Longrightarrow> key a' = key b \<Longrightarrow>
        view a = view a' \<Longrightarrow> view (join a b) = view (join a' b)"
begin

definition deliver :: "'m \<Rightarrow> ('k \<Rightarrow> 'm option) \<Rightarrow> 'k \<Rightarrow> 'm option" where
  "deliver m s = s(key m \<mapsto> (case s (key m) of None \<Rightarrow> m | Some c \<Rightarrow> join c m))"

definition joins :: "'m \<Rightarrow> 'm list \<Rightarrow> 'm" where
  "joins a ms = foldl join a ms"

definition versions :: "'k \<Rightarrow> 'm list \<Rightarrow> bool" where
  "versions k ms \<longleftrightarrow> (\<forall>m \<in> set ms. m \<in> U \<and> key m = k)"

lemma versions_simps [simp]:
  "versions k []"
  "versions k (m # ms) \<longleftrightarrow> m \<in> U \<and> key m = k \<and> versions k ms"
  "versions k (ms @ ns) \<longleftrightarrow> versions k ms \<and> versions k ns"
  by (auto simp: versions_def)

lemma joins_simps [simp]:
  "joins a [] = a"
  "joins a (ms @ [m]) = join (joins a ms) m"
  by (simp_all add: joins_def)

lemma joins_U: "a \<in> U \<Longrightarrow> key a = k \<Longrightarrow> versions k ms \<Longrightarrow> joins a ms \<in> U \<and> key (joins a ms) = k"
  by (induction ms rule: rev_induct) (auto simp: join_U)

lemma joins_cong:
  assumes "a \<in> U" "a' \<in> U" "key a = k" "key a' = k" "view a = view a'" "versions k ms"
  shows "view (joins a ms) = view (joins a' ms)"
  using assms(6)
proof (induction ms rule: rev_induct)
  case (snoc m ms)
  then show ?case
    using joins_U [OF assms(1,3), of ms] joins_U [OF assms(2,4), of ms]
      join_cong [of "joins a ms" "joins a' ms" m] by simp
qed (simp add: assms(5))

lemma join_joins:
  assumes "a \<in> U" "b \<in> U" "key a = k" "key b = k" "versions k ms"
  shows "view (join a (joins b ms)) = view (joins (join a b) ms)"
  using assms(5)
proof (induction ms rule: rev_induct)
  case (snoc m ms)
  have ab: "join a b \<in> U" "key (join a b) = k" using join_U [OF assms(1,2)] assms(3,4) by simp_all
  have b: "joins b ms \<in> U" "key (joins b ms) = k" using joins_U [OF assms(2,4)] snoc.prems by simp_all
  have j: "joins (join a b) ms \<in> U" "key (joins (join a b) ms) = k" using joins_U [OF ab] snoc.prems by simp_all
  have ajb: "join a (joins b ms) \<in> U" "key (join a (joins b ms)) = k"
    using join_U [OF assms(1) b(1)] assms(3) b(2) by simp_all
  have m: "m \<in> U" "key m = k" using snoc.prems by simp_all
  have "view (join a (join (joins b ms) m)) = view (join (join a (joins b ms)) m)"
    using join_assoc [OF assms(1) b(1) m(1)] assms(3) b(2) m(2) by simp
  also have "\<dots> = view (join (joins (join a b) ms) m)"
    using join_cong [OF ajb(1) j(1) m(1)] ajb(2) j(2) m(2) snoc by simp
  finally show ?case by simp
qed simp

lemma join_absorb:
  assumes "a \<in> U" "key a = k" "versions k ms" "x \<in> insert a (set ms)"
  shows "view (join (joins a ms) x) = view (joins a ms)"
  using assms(3,4)
proof (induction ms rule: rev_induct)
  case Nil
  then show ?case using assms(1) by (simp add: join_idem)
next
  case (snoc m ms)
  let ?j = "joins a ms"
  have j: "?j \<in> U" "key ?j = k" using joins_U [OF assms(1,2)] snoc.prems(1) by simp_all
  have m: "m \<in> U" "key m = k" using snoc.prems(1) by simp_all
  have x: "x \<in> U" "key x = k" using snoc.prems assms(1,2) by (auto simp: versions_def)
  show ?case
  proof (cases "x = m")
    case True
    have mm: "join m m \<in> U" "key (join m m) = k" using join_U [OF m(1) m(1)] m(2) by simp_all
    have "view (join (join ?j m) m) = view (join ?j (join m m))"
      using join_assoc [OF j(1) m(1) m(1)] j(2) m(2) by simp
    also have "\<dots> = view (join (join m m) ?j)" using join_comm [OF j(1) mm(1)] j(2) mm(2) by simp
    also have "\<dots> = view (join m ?j)"
      using join_cong [OF mm(1) m(1) j(1)] j(2) m(2) mm(2) join_idem [OF m(1)] by simp
    also have "\<dots> = view (join ?j m)" using join_comm [OF m(1) j(1)] j(2) m(2) by simp
    finally show ?thesis by (simp add: True)
  next
    case False
    then have IH: "view (join ?j x) = view ?j" using snoc by simp
    have mx: "join m x \<in> U" "key (join m x) = k" using join_U [OF m(1) x(1)] m(2) x(2) by simp_all
    have xm: "join x m \<in> U" "key (join x m) = k" using join_U [OF x(1) m(1)] m(2) x(2) by simp_all
    have jx: "join ?j x \<in> U" "key (join ?j x) = k" using join_U [OF j(1) x(1)] j(2) x(2) by simp_all
    have "view (join (join ?j m) x) = view (join ?j (join m x))"
      using join_assoc [OF j(1) m(1) x(1)] j(2) m(2) x(2) by simp
    also have "\<dots> = view (join (join m x) ?j)" using join_comm [OF j(1) mx(1)] j(2) mx(2) by simp
    also have "\<dots> = view (join (join x m) ?j)"
      using join_cong [OF mx(1) xm(1) j(1)] mx(2) xm(2) j(2) join_comm [OF m(1) x(1)] m(2) x(2) by simp
    also have "\<dots> = view (join ?j (join x m))" using join_comm [OF xm(1) j(1)] j(2) xm(2) by simp
    also have "\<dots> = view (join (join ?j x) m)"
      using join_assoc [OF j(1) x(1) m(1)] j(2) m(2) x(2) by simp
    also have "\<dots> = view (join ?j m)" using join_cong [OF jx(1) j(1) m(1)] jx(2) j(2) m(2) IH by simp
    finally show ?thesis by simp
  qed
qed

lemma joins_absorb:
  assumes "a \<in> U" "key a = k" "versions k xs" "\<And>x. x \<in> set xs \<Longrightarrow> view (join a x) = view a"
  shows "view (joins a xs) = view a"
  using assms(3,4)
proof (induction xs rule: rev_induct)
  case (snoc x xs)
  have j: "joins a xs \<in> U" "key (joins a xs) = k" using joins_U [OF assms(1,2)] snoc.prems(1) by simp_all
  have "view (joins a xs) = view a" using snoc by simp
  then have "view (join (joins a xs) x) = view (join a x)"
    using join_cong [OF j(1) assms(1), of x] j(2) assms(2) snoc.prems(1) by simp
  then show ?case using snoc.prems(2) [of x] by simp
qed simp

lemma joins_upper:
  assumes "a \<in> U" "b \<in> U" "key a = k" "key b = k" "versions k ms" "versions k ns"
    and "insert b (set ns) \<subseteq> insert a (set ms)"
  shows "view (join (joins a ms) (joins b ns)) = view (joins a ms)"
proof -
  let ?j = "joins a ms"
  have j: "?j \<in> U" "key ?j = k" using joins_U [OF assms(1,3,5)] by simp_all
  have jb: "join ?j b \<in> U" "key (join ?j b) = k" using join_U [OF j(1) assms(2)] j(2) assms(4) by simp_all
  have absorb: "view (join ?j x) = view ?j" if "x \<in> insert b (set ns)" for x
    using join_absorb [OF assms(1,3,5)] assms(7) that by blast
  have "view (join ?j (joins b ns)) = view (joins (join ?j b) ns)"
    using join_joins [OF j(1) assms(2) j(2) assms(4,6)] .
  also have "\<dots> = view (joins ?j ns)"
    using joins_cong [OF jb(1) j(1) jb(2) j(2) _ assms(6)] absorb by blast
  also have "\<dots> = view ?j" using joins_absorb [OF j assms(6)] absorb by blast
  finally show ?thesis .
qed

text \<open>Merging depends only on the set of versions.\<close>

lemma joins_set:
  assumes "a \<in> U" "b \<in> U" "key a = k" "key b = k" "versions k ms" "versions k ns"
    and "insert b (set ns) = insert a (set ms)"
  shows "view (joins a ms) = view (joins b ns)"
proof -
  have j: "joins a ms \<in> U" "key (joins a ms) = k" using joins_U [OF assms(1,3,5)] by simp_all
  have j': "joins b ns \<in> U" "key (joins b ns) = k" using joins_U [OF assms(2,4,6)] by simp_all
  have "view (joins a ms) = view (join (joins a ms) (joins b ns))"
    using joins_upper [OF assms(1-6)] assms(7) by simp
  also have "\<dots> = view (join (joins b ns) (joins a ms))" using join_comm [OF j(1) j'(1)] j(2) j'(2) by simp
  also have "\<dots> = view (joins b ns)" using joins_upper [OF assms(2,1,4,3,6,5)] assms(7) by simp
  finally show ?thesis .
qed

lemma deliver_fold:
  "fold deliver ms (\<lambda>_. None) k =
     (case filter (\<lambda>m. key m = k) ms of [] \<Rightarrow> None | a # as \<Rightarrow> Some (joins a as))"
proof (induction ms arbitrary: k rule: rev_induct)
  case (snoc m ms)
  show ?case
  proof (cases "key m = k")
    case True
    then show ?thesis
      using snoc [of k] by (cases "filter (\<lambda>m. key m = k) ms") (simp_all add: deliver_def)
  next
    case False
    then show ?thesis using snoc [of k] by (simp add: deliver_def)
  qed
qed simp

lemma deliveries_converge:
  assumes "set ms = set ns" "set ms \<subseteq> U"
  shows "map_option view (fold deliver ms (\<lambda>_. None) k) = map_option view (fold deliver ns (\<lambda>_. None) k)"
proof -
  let ?f = "filter (\<lambda>m. key m = k)"
  have sets: "set (?f ms) = set (?f ns)" using assms(1) by simp
  have ver: "versions k (?f ms)" "versions k (?f ns)" using assms by (auto simp: versions_def)
  show ?thesis
  proof (cases "?f ms")
    case Nil
    then have "?f ns = []" using sets by (metis set_empty)
    then show ?thesis by (simp add: deliver_fold Nil)
  next
    case (Cons a as)
    then obtain b bs where b: "?f ns = b # bs" using sets by (cases "?f ns") auto
    have "view (joins a as) = view (joins b bs)"
      using ver sets unfolding Cons b by (intro joins_set [of a b k]) auto
    then show ?thesis by (simp add: deliver_fold Cons b)
  qed
qed

end

end
