(* ===== verification/Chat_Notices.thy ===== *)
theory Chat_Notices
  imports Chat_Media Chat_Replica "HOL-Library.List_Lexorder" "HOL-Library.Char_ord"
begin

text \<open>
  Typing, presence, notifications, unread counters, encryption status and host events of the chat core,
  \<^verbatim>\<open>packages/client-chat-core/src/index.ts\<close>.  Objects used as dictionaries are maps in insertion order;
  \<open>None\<close> is \<^verbatim>\<open>null\<close>, which these functions return when nothing changes.
\<close>

section \<open>Typing\<close>

record typing_entry =
  te_typing :: bool
  te_lastUpdate :: int

type_synonym typing_peers = "(string, (string, typing_entry) jsmap) jsmap"

definition or_empty_map :: "('k, 'v) jsmap option \<Rightarrow> ('k, 'v) jsmap" where
  "or_empty_map m = (case m of None \<Rightarrow> [] | Some x \<Rightarrow> x)"

definition applyChatTypingStateToMap ::
  "typing_peers \<Rightarrow> string \<Rightarrow> string \<Rightarrow> bool \<Rightarrow> int \<Rightarrow> typing_peers option" where
  "applyChatTypingStateToMap typingPeers sessionUlid fromActorId typing now =
     (let sessionMap = or_empty_map (map_get typingPeers sessionUlid) in
      if \<not> typing \<and> map_get sessionMap fromActorId = None then None
      else Some (map_set sessionUlid
                   (map_set fromActorId \<lparr>te_typing = typing, te_lastUpdate = now\<rparr> sessionMap) typingPeers))"

definition stale_entry :: "int \<Rightarrow> typing_entry \<Rightarrow> bool" where
  "stale_entry staleBefore e \<longleftrightarrow> \<not> te_typing e \<or> te_lastUpdate e < staleBefore"

definition pruned_actors :: "int \<Rightarrow> (string, typing_entry) jsmap \<Rightarrow> (string, typing_entry) jsmap" where
  "pruned_actors staleBefore byActor = filter (\<lambda>p. \<not> stale_entry staleBefore (snd p)) byActor"

definition prune_session ::
  "int \<Rightarrow> string \<times> (string, typing_entry) jsmap \<Rightarrow> bool \<times> typing_peers \<Rightarrow> bool \<times> typing_peers" where
  "prune_session staleBefore p acc =
     (let nextActors = pruned_actors staleBefore (snd p);
          sessionChanged = list_ex (\<lambda>q. stale_entry staleBefore (snd q)) (snd p) in
      if nextActors \<noteq> [] then (fst acc \<or> sessionChanged, map_set (fst p) nextActors (snd acc))
      else (fst acc \<or> sessionChanged \<or> snd p \<noteq> [], snd acc))"

definition pruneChatTypingPeers :: "typing_peers \<Rightarrow> int \<Rightarrow> typing_peers option" where
  "pruneChatTypingPeers typingPeers staleBefore =
     (let r = fold (prune_session staleBefore) typingPeers (False, []) in
      if fst r then Some (snd r) else None)"

section \<open>Presence\<close>

record presence_participant =
  pp_actorPtid :: "string option"
  pp_online :: bool

definition seed_participant :: "presence_participant \<Rightarrow> (string, bool) jsmap \<Rightarrow> (string, bool) jsmap" where
  "seed_participant p presence =
     (let a = or_empty (pp_actorPtid p) in
      if a = [] \<or> map_get presence a \<noteq> None then presence else map_set a (pp_online p) presence)"

definition seedChatPresenceFromParticipants ::
  "'t list \<Rightarrow> ('t \<Rightarrow> presence_participant list) \<Rightarrow> (string, bool) jsmap" where
  "seedChatPresenceFromParticipants items resolveParticipants =
     fold (\<lambda>item. fold seed_participant (resolveParticipants item)) items []"

definition applyChatPresenceToMap ::
  "(string, bool) jsmap \<Rightarrow> string \<Rightarrow> bool \<Rightarrow> (string, bool) jsmap option" where
  "applyChatPresenceToMap presence actorPtid online =
     (if actorPtid = [] then None
      else if map_get presence actorPtid = Some online then None
      else Some (map_set actorPtid online presence))"

section \<open>Notifications\<close>

text \<open>A notification is an object: its own properties in order.  A spread copies every own property.\<close>

datatype 'a prop_value = PUndefined | PNumber int | PString string | POther 'a

type_synonym 'a notification = "(string, 'a prop_value) jsmap"

definition spread :: "'a notification \<Rightarrow> 'a notification \<Rightarrow> 'a notification" where
  "spread a b = fold (\<lambda>p. map_set (fst p) (snd p)) b a"

definition prop_get :: "'a notification \<Rightarrow> string \<Rightarrow> 'a prop_value" where
  "prop_get n k = (case map_get n k of None \<Rightarrow> PUndefined | Some v \<Rightarrow> v)"

definition notification_id :: "'a notification \<Rightarrow> string" where
  "notification_id n = (case prop_get n ''id'' of PString s \<Rightarrow> s | _ \<Rightarrow> [])"

definition merge_notification :: "'a notification \<Rightarrow> (string, 'a notification) jsmap \<Rightarrow> (string, 'a notification) jsmap" where
  "merge_notification n byId =
     (if notification_id n = [] then byId
      else map_set (notification_id n)
             (case map_get byId (notification_id n) of None \<Rightarrow> n | Some existing \<Rightarrow> spread existing n) byId)"

text \<open>The comparator is the reverse of the order by this key; \<open>sort_desc\<close> sorts by it and is stable.\<close>

definition sort_desc :: "('a \<Rightarrow> 'k::linorder) \<Rightarrow> 'a list \<Rightarrow> 'a list" where
  "sort_desc key xs = rev (sort_key key (rev xs))"

definition js_slice_to :: "int \<Rightarrow> 'a list \<Rightarrow> 'a list" where
  "js_slice_to n xs = (if n \<ge> 0 then take (nat n) xs else take (length xs - nat (- n)) xs)"

definition mergeChatNotifications ::
  "(string \<Rightarrow> 'k::linorder) \<Rightarrow> ('a notification \<Rightarrow> int) \<Rightarrow> int option
    \<Rightarrow> 'a notification list \<Rightarrow> 'a notification list \<Rightarrow> 'a notification list" where
  "mergeChatNotifications collate resolveCreatedAt limit current incoming =
     (let byId = fold merge_notification (current @ incoming) [];
          merged = sort_desc (\<lambda>n. (resolveCreatedAt n, collate (notification_id n))) (map_values byId) in
      case limit of
        None \<Rightarrow> merged
      | Some l \<Rightarrow> if l = 0 then merged else js_slice_to l merged)"

definition filterUnreadChatNotifications :: "'a notification list \<Rightarrow> int \<Rightarrow> 'a notification list" where
  "filterUnreadChatNotifications notifications unreadStatus =
     filter (\<lambda>n. prop_get n ''status'' = PNumber unreadStatus) notifications"

definition projectChatNotificationUnreadCount :: "'a notification list \<Rightarrow> int \<Rightarrow> int \<Rightarrow> int" where
  "projectChatNotificationUnreadCount notifications unreadStatus unreadTotal =
     (if unreadTotal > 0 then unreadTotal
      else int (length (filterUnreadChatNotifications notifications unreadStatus)))"

definition read_version :: "int \<Rightarrow> string \<Rightarrow> 'a notification \<Rightarrow> 'a notification" where
  "read_version readStatus readAt n =
     map_set ''readAt'' (PString readAt) (map_set ''status'' (PNumber readStatus) n)"

definition applyChatNotificationsRead ::
  "'a notification list \<Rightarrow> string list \<Rightarrow> int \<Rightarrow> string \<Rightarrow> 'a notification list" where
  "applyChatNotificationsRead notifications ids readStatus readAt =
     (if ids = [] then notifications
      else map (\<lambda>n. if notification_id n \<noteq> [] \<and> notification_id n \<in> set ids
                    then read_version readStatus readAt n else n) notifications)"

definition applyAllChatNotificationsRead ::
  "'a notification list \<Rightarrow> int \<Rightarrow> string \<Rightarrow> 'a prop_value \<Rightarrow> 'a notification list" where
  "applyAllChatNotificationsRead notifications readStatus readAt category =
     map (\<lambda>n. if category \<noteq> PUndefined \<and> prop_get n ''category'' \<noteq> category then n
              else read_version readStatus readAt n) notifications"

definition deleteChatNotifications :: "'a notification list \<Rightarrow> string list \<Rightarrow> 'a notification list" where
  "deleteChatNotifications notifications ids =
     (if ids = [] then notifications
      else filter (\<lambda>n. notification_id n = [] \<or> notification_id n \<notin> set ids) notifications)"

section \<open>Unread counters\<close>

definition sumChatUnreadCounters :: "(string, int) jsmap \<Rightarrow> int" where
  "sumChatUnreadCounters counters = foldl (+) 0 (map_values counters)"

definition bumpChatUnreadCounter :: "(string, int) jsmap \<Rightarrow> string \<Rightarrow> (string, int) jsmap option" where
  "bumpChatUnreadCounter counters conversationId =
     (if conversationId = [] then None
      else Some (map_set conversationId
                   ((case map_get counters conversationId of None \<Rightarrow> 0 | Some c \<Rightarrow> c) + 1) counters))"

definition clearChatUnreadCounter :: "(string, int) jsmap \<Rightarrow> string \<Rightarrow> (string, int) jsmap option" where
  "clearChatUnreadCounter counters conversationId =
     (if conversationId = [] then None
      else case map_get counters conversationId of
        None \<Rightarrow> None
      | Some c \<Rightarrow> if c = 0 then None else Some (map_del conversationId counters))"

record participant_unread =
  pu_ulid :: "string option"
  pu_participantAPtid :: "string option"
  pu_participantBPtid :: "string option"
  pu_unreadCountA :: "int option"
  pu_unreadCountB :: "int option"

definition count_or_zero :: "int option \<Rightarrow> int" where
  "count_or_zero c = (case c of None \<Rightarrow> 0 | Some n \<Rightarrow> n)"

definition chatUnreadForParticipant :: "participant_unread \<Rightarrow> string option \<Rightarrow> int" where
  "chatUnreadForParticipant session viewerDid =
     (let unreadA = count_or_zero (pu_unreadCountA session); unreadB = count_or_zero (pu_unreadCountB session) in
      if or_empty viewerDid = [] then max unreadA unreadB
      else if pu_participantAPtid session = viewerDid then unreadA
      else if pu_participantBPtid session = viewerDid then unreadB
      else max unreadA unreadB)"

definition clearChatUnreadForParticipant ::
  "participant_unread list \<Rightarrow> string option \<Rightarrow> string option \<Rightarrow> participant_unread list" where
  "clearChatUnreadForParticipant sessions sessionUlid viewerDid =
     (if or_empty sessionUlid = [] \<or> or_empty viewerDid = [] then sessions
      else map (\<lambda>s. if pu_ulid s \<noteq> sessionUlid then s
                    else if pu_participantAPtid s = viewerDid then s\<lparr>pu_unreadCountA := Some 0\<rparr>
                    else if pu_participantBPtid s = viewerDid then s\<lparr>pu_unreadCountB := Some 0\<rparr>
                    else s) sessions)"

section \<open>Encryption status\<close>

datatype e2ee_status = E2Unknown | E2Preparing | E2Ready | E2Blocked | E2Error

record e2ee_entry =
  ee_status :: e2ee_status
  ee_updatedAt :: int
  ee_error :: "string option"

definition setChatE2eeProjectionStatus ::
  "(string, e2ee_entry) jsmap \<Rightarrow> string \<Rightarrow> e2ee_status \<Rightarrow> int \<Rightarrow> string option \<Rightarrow> (string, e2ee_entry) jsmap" where
  "setChatE2eeProjectionStatus projection key status now error =
     (let normalizedKey = js_trim key;
          next = \<lparr>ee_status = status, ee_updatedAt = now, ee_error = (if or_empty error \<noteq> [] then error else None)\<rparr> in
      if normalizedKey = [] then projection
      else if map_get projection normalizedKey = Some next then projection
      else map_set normalizedKey next projection)"

definition clearChatE2eeProjectionStatus ::
  "(string, e2ee_entry) jsmap \<Rightarrow> string \<Rightarrow> (string, e2ee_entry) jsmap" where
  "clearChatE2eeProjectionStatus projection key =
     (if \<not> map_has projection key then projection else map_del key projection)"

definition chatE2eeProjectionCanSend :: "(string, e2ee_entry) jsmap \<Rightarrow> string \<Rightarrow> bool" where
  "chatE2eeProjectionCanSend projection key =
     (case map_get projection key of None \<Rightarrow> False | Some e \<Rightarrow> ee_status e = E2Ready)"

definition chatE2eeProjectionError :: "(string, e2ee_entry) jsmap \<Rightarrow> string \<Rightarrow> string option" where
  "chatE2eeProjectionError projection key = Option.bind (map_get projection key) ee_error"

section \<open>Host events\<close>

datatype host_event_kind = HostPush | HostDeepLink | HostNotificationTap | HostNetworkOnline | HostAppResume | HostNativeHint

fun host_kind_text :: "host_event_kind \<Rightarrow> string" where
  "host_kind_text HostPush = ''push''"
| "host_kind_text HostDeepLink = ''deep-link''"
| "host_kind_text HostNotificationTap = ''notification-tap''"
| "host_kind_text HostNetworkOnline = ''network-online''"
| "host_kind_text HostAppResume = ''app-resume''"
| "host_kind_text HostNativeHint = ''native-hint''"

record host_event =
  he_kind :: host_event_kind
  he_target :: "string option"
  he_sessionUlid :: "string option"
  he_notificationId :: "string option"
  he_url :: "string option"
  he_reason :: "string option"

record host_payload =
  hp_kind :: "string option"
  hp_target :: "string option"
  hp_sessionUlid :: "string option"
  hp_session_ulid :: "string option"
  hp_notificationId :: "string option"
  hp_notification_id :: "string option"
  hp_url :: "string option"
  hp_reason :: "string option"

definition normalizeSocialHostEventKind :: "string \<Rightarrow> string option \<Rightarrow> host_event_kind" where
  "normalizeSocialHostEventKind eventName rawKind =
     (if rawKind = Some ''push'' \<or> ends_with '':push'' eventName then HostPush
      else if rawKind = Some ''deep-link'' \<or> ends_with '':deep-link'' eventName then HostDeepLink
      else if rawKind = Some ''notification-tap'' \<or> ends_with '':notification-tap'' eventName then HostNotificationTap
      else if rawKind = Some ''network-online'' \<or> ends_with '':network-online'' eventName then HostNetworkOnline
      else if rawKind = Some ''app-resume'' \<or> rawKind = Some ''resume'' \<or> ends_with '':resume'' eventName
              \<or> ends_with '':tray-open'' eventName then HostAppResume
      else HostNativeHint)"

definition buildSocialHostEvent :: "string \<Rightarrow> host_payload option \<Rightarrow> host_event" where
  "buildSocialHostEvent eventName payload =
     \<lparr>he_kind = normalizeSocialHostEventKind eventName (Option.bind payload hp_kind),
      he_target = Option.bind payload hp_target,
      he_sessionUlid = or_else (Option.bind payload hp_sessionUlid) (Option.bind payload hp_session_ulid),
      he_notificationId = or_else (Option.bind payload hp_notificationId) (Option.bind payload hp_notification_id),
      he_url = Option.bind payload hp_url,
      he_reason = Option.bind payload hp_reason\<rparr>"

definition socialHostEventTargetsNotifications :: "host_event \<Rightarrow> bool" where
  "socialHostEventTargetsNotifications event \<longleftrightarrow>
     or_empty (he_notificationId event) \<noteq> [] \<or> he_target event = Some ''notification''
     \<or> he_kind event = HostPush \<or> he_kind event = HostNotificationTap"

fun first_text :: "string option list \<Rightarrow> string \<Rightarrow> string" where
  "first_text [] dflt = dflt"
| "first_text (x # xs) dflt = (if or_empty x \<noteq> [] then or_empty x else first_text xs dflt)"

definition socialHostEventReconcileReason :: "host_event \<Rightarrow> string" where
  "socialHostEventReconcileReason event =
     ''host'' @ '':'' @ host_kind_text (he_kind event) @ '':'' @
     first_text [he_reason event, he_target event, he_sessionUlid event, he_notificationId event] ''event''"

section \<open>Redelivered notifications\<close>

lemma map_set_same: "map_get m k = Some v \<Longrightarrow> map_set k v m = m"
  unfolding map_get_def map_set_def by (induction m) (auto split: if_splits)

lemma spread_get:
  "map_wf b \<Longrightarrow> map_get (spread a b) k = (case map_get b k of None \<Rightarrow> map_get a k | Some v \<Rightarrow> Some v)"
  unfolding spread_def map_wf_def
proof (induction b arbitrary: a)
  case (Cons p b)
  have "map_get b (fst p) = None" using Cons.prems in_map_keys_get [of "fst p" b] by (simp add: map_keys_def)
  then show ?case using Cons by (auto split: option.splits)
qed simp

lemma spread_absorbs:
  assumes "\<And>k v. map_get b k = Some v \<Longrightarrow> map_get a k = Some v" "map_wf b"
  shows "spread a b = a"
  using assms
proof (induction b arbitrary: a)
  case (Cons p b)
  have fresh: "map_get b (fst p) = None"
    using Cons.prems(2) in_map_keys_get [of "fst p" b] by (simp add: map_keys_def map_wf_def)
  have "map_set (fst p) (snd p) a = a" using Cons.prems(1) [of "fst p" "snd p"] by (simp add: map_set_same)
  moreover have "map_get a k = Some v" if "map_get b k = Some v" for k v
    using Cons.prems(1) [of k v] fresh that by (cases "fst p = k") simp_all
  then have "spread a b = a" using Cons.prems(2) by (intro Cons.IH) (simp_all add: map_wf_def)
  ultimately show ?case by (simp add: spread_def)
qed (simp add: spread_def)

lemma spread_twice: "map_wf b \<Longrightarrow> spread (spread a b) b = spread a b"
  by (rule spread_absorbs) (simp_all add: spread_get)

lemma spread_id:
  assumes "map_wf b" "notification_id b \<noteq> []"
  shows "notification_id (spread a b) = notification_id b"
  using assms by (auto simp: notification_id_def prop_get_def spread_get split: option.splits)

lemma merge_keyed_notification:
  assumes "keyed notification_id m" "map_wf n"
  shows "keyed notification_id (merge_notification n m)"
  using assms by (auto simp: merge_notification_def spread_id intro!: keyed_set split: option.splits)

lemma merge_notifications_keyed:
  assumes "keyed notification_id m" "\<forall>n \<in> set ns. map_wf n"
  shows "keyed notification_id (fold merge_notification ns m)"
  using assms by (induction ns arbitrary: m) (auto simp: merge_keyed_notification)

lemma merge_notification_get:
  "map_get (merge_notification n m) i =
     (if notification_id n \<noteq> [] \<and> notification_id n = i
      then Some (case map_get m i of None \<Rightarrow> n | Some e \<Rightarrow> spread e n) else map_get m i)"
  by (simp add: merge_notification_def)

lemma merge_notifications_other:
  "i \<notin> notification_id ` set ns \<Longrightarrow> map_get (fold merge_notification ns m) i = map_get m i"
  by (induction ns arbitrary: m) (auto simp: merge_notification_get)

text \<open>What a page has put into the map absorbs the page.\<close>

definition absorbed :: "'a notification \<Rightarrow> (string, 'a notification) jsmap \<Rightarrow> bool" where
  "absorbed n m \<longleftrightarrow> notification_id n = [] \<or>
     (\<exists>e. map_get m (notification_id n) = Some e \<and> spread e n = e)"

lemma absorbed_merge: "absorbed n m \<Longrightarrow> merge_notification n m = m"
  by (auto simp: absorbed_def merge_notification_def map_set_same)

lemma absorbed_page: "\<forall>n \<in> set ns. absorbed n m \<Longrightarrow> fold merge_notification ns m = m"
  by (induction ns) (auto simp: absorbed_merge)

lemma spread_self: "map_wf n \<Longrightarrow> spread n n = n"
  by (rule spread_absorbs) simp_all

lemma page_absorbed:
  assumes "distinct (map notification_id ns)" "\<forall>n \<in> set ns. map_wf n" "n \<in> set ns"
  shows "absorbed n (fold merge_notification ns m)"
  using assms
proof (induction ns arbitrary: m)
  case (Cons x ns)
  show ?case
  proof (cases "n = x")
    case True
    then have "map_get (fold merge_notification ns (merge_notification x m)) (notification_id n)
        = map_get (merge_notification x m) (notification_id n)"
      using Cons.prems(1) by (intro merge_notifications_other) auto
    then show ?thesis
      using True Cons.prems(2)
      by (auto simp: absorbed_def merge_notification_get spread_twice spread_self split: option.splits)
  next
    case False
    then show ?thesis using Cons by simp
  qed
qed simp

lemma absorbed_cong: "map_get m = map_get m' \<Longrightarrow> absorbed n m = absorbed n m'"
  by (simp add: absorbed_def)

lemma fold_merge_index:
  assumes "\<forall>n \<in> set ns. notification_id n \<noteq> []" "distinct (map notification_id ns)"
  shows "fold merge_notification ns [] = map (\<lambda>n. (notification_id n, n)) ns"
  using assms
proof (induction ns rule: rev_induct)
  case (snoc n ns)
  then have "map_get (map (\<lambda>n. (notification_id n, n)) ns) (notification_id n) = None"
    by (auto simp: map_get_def map_of_eq_None_iff)
  then show ?case using snoc by (simp add: merge_notification_def map_set_fresh)
qed simp

lemma sort_desc_sorted: "sort_desc f (sort_desc f xs) = sort_desc f xs"
  by (simp add: sort_desc_def sort_key_id_if_sorted)

text \<open>
  Redelivery of notifications is harmless: merging the same page of notifications a second time
  changes nothing, neither the order nor any field.
\<close>

theorem notification_redelivery:
  fixes collate :: "string \<Rightarrow> 'k::linorder"
  assumes "distinct (map notification_id incoming)" "\<forall>n \<in> set current \<union> set incoming. map_wf n"
  shows "mergeChatNotifications collate resolveCreatedAt None
      (mergeChatNotifications collate resolveCreatedAt None current incoming) incoming
    = mergeChatNotifications collate resolveCreatedAt None current incoming"
proof -
  let ?m = "fold merge_notification incoming (fold merge_notification current [])"
  let ?f = "\<lambda>n. (resolveCreatedAt n, collate (notification_id n))"
  let ?s = "sort_desc ?f (map_values ?m)"
  have keyed: "keyed notification_id ?m" using assms(2) by (intro merge_notifications_keyed) auto
  have nonempty: "map_get ?m [] = None"
  proof -
    have "map_get (fold merge_notification ns m) [] = map_get m []" for ns :: "'a notification list" and m
      by (induction ns arbitrary: m) (auto simp: merge_notification_get)
    then show ?thesis by simp
  qed
  have s: "\<forall>n \<in> set ?s. notification_id n \<noteq> []" "distinct (map notification_id ?s)"
    using keyed_values [OF keyed] nonempty by (auto simp: sort_desc_def distinct_map)
  have "map_get (map (\<lambda>n. (notification_id n, n)) ?s) i = Some v \<longleftrightarrow> map_get ?m i = Some v" for i v
  proof -
    have "map_wf (map (\<lambda>n. (notification_id n, n)) ?s)" using s(2) by (simp add: map_wf_def o_def)
    then have "map_get (map (\<lambda>n. (notification_id n, n)) ?s) i = Some v \<longleftrightarrow> v \<in> set (map_values ?m) \<and> notification_id v = i"
      by (auto simp: map_get_eq_iff sort_desc_def)
    also have "\<dots> \<longleftrightarrow> map_get ?m i = Some v"
      unfolding keyed_values(2) [OF keyed] by (rule keyed_get [OF keyed])
    finally show ?thesis .
  qed
  then have "map_get (map (\<lambda>n. (notification_id n, n)) ?s) = map_get ?m" by (rule option_fun_eqI)
  then have "\<forall>n \<in> set incoming. absorbed n (map (\<lambda>n. (notification_id n, n)) ?s)"
    using page_absorbed [OF assms(1), of _ "fold merge_notification current []"] assms(2) by (simp add: absorbed_def)
  then have "fold merge_notification (?s @ incoming) [] = map (\<lambda>n. (notification_id n, n)) ?s"
    by (simp add: fold_merge_index [OF s] absorbed_page)
  then show ?thesis
    by (simp add: mergeChatNotifications_def Let_def map_values_def o_def sort_desc_sorted)
qed

definition demo_notice :: "string \<Rightarrow> int \<Rightarrow> unit notification" where
  "demo_notice i st = [(''id'', PString i), (''status'', PNumber st)]"

theorem notification_redelivery_witness:
  "mergeChatNotifications id (\<lambda>_. 0) None
     (mergeChatNotifications id (\<lambda>_. 0) None [demo_notice ''a'' 0] [demo_notice ''b'' 0, demo_notice ''a'' 1])
     [demo_notice ''b'' 0, demo_notice ''a'' 1]
   = mergeChatNotifications id (\<lambda>_. 0) None [demo_notice ''a'' 0] [demo_notice ''b'' 0, demo_notice ''a'' 1]"
proof -
  have "distinct (map notification_id [demo_notice ''b'' 0, demo_notice ''a'' 1])" by code_simp
  moreover have "\<forall>n \<in> set [demo_notice ''a'' 0] \<union> set [demo_notice ''b'' 0, demo_notice ''a'' 1]. map_wf n"
    by code_simp
  ultimately show ?thesis by (rule notification_redelivery)
qed

section \<open>Counters\<close>

datatype counter_op = Bump string | ClearCounter string

fun counter_step :: "(string, int) jsmap \<Rightarrow> counter_op \<Rightarrow> (string, int) jsmap" where
  "counter_step cs (Bump c) = (case bumpChatUnreadCounter cs c of None \<Rightarrow> cs | Some cs' \<Rightarrow> cs')"
| "counter_step cs (ClearCounter c) = (case clearChatUnreadCounter cs c of None \<Rightarrow> cs | Some cs' \<Rightarrow> cs')"

text \<open>The number of messages of a conversation since it was last cleared.\<close>

fun unread_since :: "string \<Rightarrow> int \<Rightarrow> counter_op list \<Rightarrow> int" where
  "unread_since c n [] = n"
| "unread_since c n (Bump d # ops) = unread_since c (if c = d \<and> c \<noteq> [] then n + 1 else n) ops"
| "unread_since c n (ClearCounter d # ops) = unread_since c (if c = d then 0 else n) ops"

definition counter_at :: "(string, int) jsmap \<Rightarrow> string \<Rightarrow> int" where
  "counter_at cs c = count_or_zero (map_get cs c)"

definition counters_ok :: "(string, int) jsmap \<Rightarrow> bool" where
  "counters_ok cs \<longleftrightarrow> map_wf cs \<and> (\<forall>c n. map_get cs c = Some n \<longrightarrow> n > 0 \<and> c \<noteq> [])"

lemma counter_step_ok: "counters_ok cs \<Longrightarrow> counters_ok (counter_step cs op)"
  by (cases op) (auto simp: counters_ok_def bumpChatUnreadCounter_def clearChatUnreadCounter_def
      split: option.splits if_splits, fastforce)

lemma counter_step_at:
  "counters_ok cs \<Longrightarrow> counter_at (counter_step cs op) c = unread_since c (counter_at cs c) [op]"
  by (cases op) (auto simp: counters_ok_def bumpChatUnreadCounter_def clearChatUnreadCounter_def counter_at_def
      count_or_zero_def split: option.splits)

lemma unread_since_Cons: "unread_since c n (op # ops) = unread_since c (unread_since c n [op]) ops"
  by (cases op) simp_all

lemma counters_history:
  "counters_ok cs \<Longrightarrow> counters_ok (foldl counter_step cs ops) \<and>
     counter_at (foldl counter_step cs ops) c = unread_since c (counter_at cs c) ops"
proof (induction ops arbitrary: cs)
  case (Cons op ops)
  then show ?case using Cons.IH [OF counter_step_ok] counter_step_at unread_since_Cons [of c _ op ops] by simp
qed simp

lemma sum_counters:
  assumes "map_wf cs"
  shows "sumChatUnreadCounters cs = (\<Sum>c \<in> set (map_keys cs). counter_at cs c)"
proof -
  have "foldl (+) a xs = a + sum_list xs" for a :: int and xs by (induction xs arbitrary: a) simp_all
  moreover have "sum_list (map snd cs) = (\<Sum>c \<in> fst ` set cs. counter_at cs c)"
    using assms unfolding map_wf_def
  proof (induction cs)
    case (Cons p cs)
    have "(\<Sum>c \<in> fst ` set cs. counter_at (p # cs) c) = (\<Sum>c \<in> fst ` set cs. counter_at cs c)"
      using Cons.prems by (intro sum.cong) (auto simp: counter_at_def)
    then show ?case using Cons by (simp add: counter_at_def count_or_zero_def)
  qed simp
  ultimately show ?thesis by (simp add: sumChatUnreadCounters_def map_values_def map_keys_def)
qed

text \<open>
  Unread counters count: after any sequence of received messages and cleared conversations every
  counter is the number of messages since its conversation was last cleared, and the total is the sum
  of these numbers over any set of conversations that includes those with unread messages.
\<close>

theorem unread_counters_count:
  assumes "finite C" "\<forall>c. unread_since c 0 ops \<noteq> 0 \<longrightarrow> c \<in> C"
  shows "(\<forall>c. counter_at (foldl counter_step [] ops) c = unread_since c 0 ops) \<and>
    sumChatUnreadCounters (foldl counter_step [] ops) = (\<Sum>c \<in> C. unread_since c 0 ops)"
proof -
  let ?cs = "foldl counter_step [] ops"
  have ok: "counters_ok ?cs" and at: "counter_at ?cs c = unread_since c 0 ops" for c
    using counters_history [of "[]" ops] by (simp_all add: counters_ok_def counter_at_def count_or_zero_def)
  have "set (map_keys ?cs) \<subseteq> C"
  proof
    fix c assume "c \<in> set (map_keys ?cs)"
    then obtain n where "map_get ?cs c = Some n" "n > 0" using ok by (auto simp: in_map_keys_get counters_ok_def)
    then have "counter_at ?cs c \<noteq> 0" by (simp add: counter_at_def count_or_zero_def)
    then show "c \<in> C" using assms(2) at by simp
  qed
  moreover have "unread_since c 0 ops = 0" if "c \<notin> set (map_keys ?cs)" for c
    using that at [of c] by (simp add: in_map_keys_get counter_at_def count_or_zero_def)
  ultimately have "(\<Sum>c \<in> set (map_keys ?cs). unread_since c 0 ops) = (\<Sum>c \<in> C. unread_since c 0 ops)"
    using assms(1) by (intro sum.mono_neutral_left) blast+
  moreover have "sumChatUnreadCounters ?cs = (\<Sum>c \<in> set (map_keys ?cs). unread_since c 0 ops)"
    using sum_counters [of ?cs] ok unfolding counters_ok_def at by blast
  ultimately show ?thesis using at by simp
qed

theorem unread_counters_count_witness:
  "sumChatUnreadCounters (foldl counter_step [] [Bump ''a'', Bump ''b'', Bump ''a'', ClearCounter ''b'']) = 2"
proof -
  have "\<forall>c. unread_since c 0 [Bump ''a'', Bump ''b'', Bump ''a'', ClearCounter ''b''] \<noteq> 0 \<longrightarrow> c \<in> {''a''}" by simp
  from conjunct2 [OF unread_counters_count [OF _ this]] show ?thesis by (simp del: foldl_Cons)
qed

section \<open>Typing peers\<close>

definition typing_at :: "typing_peers \<Rightarrow> string \<Rightarrow> string \<Rightarrow> typing_entry option" where
  "typing_at peers s a = Option.bind (map_get peers s) (\<lambda>m. map_get m a)"

definition peers_wf :: "typing_peers \<Rightarrow> bool" where
  "peers_wf peers \<longleftrightarrow> map_wf peers \<and> (\<forall>p \<in> set peers. map_wf (snd p))"

lemma prune_fold:
  assumes "map_wf peers" "\<forall>p \<in> set peers. map_get acc (fst p) = None"
  shows "fold (prune_session t) peers (b, acc) =
    (b \<or> (\<exists>p \<in> set peers. \<exists>q \<in> set (snd p). stale_entry t (snd q)),
     acc @ filter (\<lambda>p. snd p \<noteq> []) (map (\<lambda>p. (fst p, pruned_actors t (snd p))) peers))"
  using assms
proof (induction peers arbitrary: b acc)
  case (Cons p peers)
  have wf: "map_wf peers" "fst p \<notin> fst ` set peers" using Cons.prems(1) by (auto simp: map_wf_def)
  let ?n = "pruned_actors t (snd p)"
  show ?case
  proof (cases "?n = []")
    case True
    then have "snd p \<noteq> [] \<longleftrightarrow> (\<exists>q \<in> set (snd p). stale_entry t (snd q))"
      by (cases "snd p") (auto simp: pruned_actors_def)
    then have "prune_session t p (b, acc) = (b \<or> (\<exists>q \<in> set (snd p). stale_entry t (snd q)), acc)"
      using True by (auto simp: prune_session_def Let_def list_ex_iff)
    then show ?thesis using Cons.IH [OF wf(1), of acc] Cons.prems(2) True by simp
  next
    case False
    have "prune_session t p (b, acc) = (b \<or> (\<exists>q \<in> set (snd p). stale_entry t (snd q)), acc @ [(fst p, ?n)])"
      using False Cons.prems(2) by (simp add: prune_session_def Let_def list_ex_iff map_set_fresh)
    moreover have "\<forall>x \<in> set peers. map_get (acc @ [(fst p, ?n)]) (fst x) = None"
    proof
      fix x assume x: "x \<in> set peers"
      then have "fst x \<noteq> fst p" using wf(2) by (metis imageI)
      then show "map_get (acc @ [(fst p, ?n)]) (fst x) = None" using x Cons.prems(2) by (simp add: map_get_append)
    qed
    ultimately show ?thesis using Cons.IH [OF wf(1)] False by simp
  qed
qed simp

lemma map_get_filter_snd:
  "map_wf m \<Longrightarrow> map_get (filter (\<lambda>p. P (snd p)) m) k = (case map_get m k of None \<Rightarrow> None | Some v \<Rightarrow> if P v then Some v else None)"
proof (induction m)
  case (Cons p m)
  then have "map_wf m" "map_get m (fst p) = None"
    using in_map_keys_get [of "fst p" m] by (auto simp: map_wf_def map_keys_def)
  then show ?case using Cons by (auto split: option.splits)
qed simp

lemma map_get_map_snd: "map_get (map (\<lambda>p. (fst p, f (snd p))) m) k = map_option f (map_get m k)"
  by (induction m) auto

text \<open>
  Pruning the typing peers leaves exactly those who are typing and were heard of since the given
  time, in sessions that are not empty, and reports no change exactly when there is nobody to remove.
\<close>

theorem pruneChatTypingPeers_correct:
  assumes "peers_wf peers"
  shows "case pruneChatTypingPeers peers t of
      None \<Rightarrow> (\<forall>s a e. typing_at peers s a = Some e \<longrightarrow> \<not> stale_entry t e)
    | Some peers' \<Rightarrow>
        (\<exists>s a e. typing_at peers s a = Some e \<and> stale_entry t e) \<and> peers_wf peers' \<and> [] \<notin> set (map_values peers') \<and>
        (\<forall>s a. typing_at peers' s a =
           (case typing_at peers s a of None \<Rightarrow> None | Some e \<Rightarrow> if stale_entry t e then None else Some e))"
proof -
  let ?n = "filter (\<lambda>p. snd p \<noteq> []) (map (\<lambda>p. (fst p, pruned_actors t (snd p))) peers)"
  have wf: "map_wf peers" and inner: "\<And>s m. map_get peers s = Some m \<Longrightarrow> map_wf m"
    using assms by (auto simp: peers_wf_def dest!: map_get_Some_in)
  have run: "fold (prune_session t) peers (False, []) = ((\<exists>p \<in> set peers. \<exists>q \<in> set (snd p). stale_entry t (snd q)), ?n)"
    using prune_fold [OF wf, of "[]" t False] by simp
  have stale: "(\<exists>p \<in> set peers. \<exists>q \<in> set (snd p). stale_entry t (snd q)) \<longleftrightarrow>
      (\<exists>s a e. typing_at peers s a = Some e \<and> stale_entry t e)"
    (is "?l \<longleftrightarrow> ?r")
  proof
    assume ?l
    then obtain s m a e where "(s, m) \<in> set peers" "(a, e) \<in> set m" "stale_entry t e" by auto
    then have "map_get peers s = Some m" "map_get m a = Some e"
      using wf inner [of s m] by (auto simp: map_get_eq_iff)
    then have "typing_at peers s a = Some e" by (simp add: typing_at_def)
    then show ?r using \<open>stale_entry t e\<close> by blast
  next
    assume ?r
    then obtain s m a e where "map_get peers s = Some m" "map_get m a = Some e" "stale_entry t e"
      by (auto simp: typing_at_def bind_eq_Some_conv)
    then show ?l using map_get_Some_in [of peers s m] map_get_Some_in [of m a e] by force
  qed
  have wf': "map_wf (map (\<lambda>p. (fst p, pruned_actors t (snd p))) peers)" using wf by (simp add: map_wf_def o_def)
  have "typing_at ?n s a = (case typing_at peers s a of None \<Rightarrow> None | Some e \<Rightarrow> if stale_entry t e then None else Some e)" for s a
  proof (cases "map_get peers s")
    case (Some m)
    then have "map_get (pruned_actors t m) a =
        (case map_get m a of None \<Rightarrow> None | Some e \<Rightarrow> if stale_entry t e then None else Some e)"
      using map_get_filter_snd [OF inner, of s m "\<lambda>e. \<not> stale_entry t e" a] by (auto simp: pruned_actors_def split: option.splits)
    then show ?thesis using Some map_get_filter_snd [OF wf', of "\<lambda>m. m \<noteq> []" s]
      by (auto simp: typing_at_def map_get_map_snd split: option.splits if_splits)
  qed (simp add: typing_at_def map_get_filter_snd [OF wf', of "\<lambda>m. m \<noteq> []"] map_get_map_snd)
  moreover have "peers_wf ?n"
    using assms by (auto simp: peers_wf_def map_wf_def pruned_actors_def o_def distinct_map_filter)
  moreover have "[] \<notin> set (map_values ?n)" by (auto simp: map_values_def)
  ultimately show ?thesis using run stale unfolding pruneChatTypingPeers_def by (auto simp: Let_def)
qed


theorem pruneChatTypingPeers_correct_witness:
  "typing_at [(''s'', [(''a'', \<lparr>te_typing = True, te_lastUpdate = 5\<rparr>), (''b'', \<lparr>te_typing = True, te_lastUpdate = 1\<rparr>)])] ''s'' ''b'' \<noteq> None \<and>
   pruneChatTypingPeers
     [(''s'', [(''a'', \<lparr>te_typing = True, te_lastUpdate = 5\<rparr>), (''b'', \<lparr>te_typing = True, te_lastUpdate = 1\<rparr>)])] 3 \<noteq> None"
proof -
  let ?p = "[(''s'', [(''a'', \<lparr>te_typing = True, te_lastUpdate = 5\<rparr>), (''b'', \<lparr>te_typing = True, te_lastUpdate = 1\<rparr>)])]"
  have wf: "peers_wf ?p" by code_simp
  have b: "typing_at ?p ''s'' ''b'' = Some \<lparr>te_typing = True, te_lastUpdate = 1\<rparr>" by code_simp
  have "stale_entry 3 \<lparr>te_typing = True, te_lastUpdate = 1\<rparr>" by code_simp
  then show ?thesis using pruneChatTypingPeers_correct [OF wf, of 3] b by (auto split: option.splits)
qed

text \<open>The status of a key is set under the trimmed key and read under the key as given.\<close>

lemma e2ee_key_not_trimmed:
  "\<not> chatE2eeProjectionCanSend (setChatE2eeProjectionStatus [] '' did'' E2Ready 1 None) '' did''
   \<and> chatE2eeProjectionCanSend (setChatE2eeProjectionStatus [] '' did'' E2Ready 1 None) ''did''"
  by code_simp

lemma e2ee_status_set:
  assumes "js_trim key = key" "key \<noteq> []"
  shows "chatE2eeProjectionCanSend (setChatE2eeProjectionStatus projection key status now error) key \<longleftrightarrow> status = E2Ready"
  using assms by (auto simp: chatE2eeProjectionCanSend_def setChatE2eeProjectionStatus_def Let_def)

lemma presence_seed_first:
  "map_get (fold seed_participant ps presence) a =
     (case map_get presence a of
        Some b \<Rightarrow> Some b
      | None \<Rightarrow> if a = [] then None else map_option pp_online (find (\<lambda>p. or_empty (pp_actorPtid p) = a) ps))"
  by (induction ps arbitrary: presence) (auto simp: seed_participant_def Let_def split: option.splits)

end
