(* ===== verification/Chat_Messages.thy ===== *)
theory Chat_Messages
  imports Chat_Media Chat_Replica "HOL-Library.List_Lexorder" "HOL-Library.Char_ord"
begin

text \<open>
  Message lists of the chat core, \<^verbatim>\<open>packages/client-chat-core/src/index.ts\<close>: merging a received
  message, receipts, recalls, edits and deletions, decrypted content, and on top of them the merge of
  the desktop client, \<^verbatim>\<open>apps/desktop/src/store/socialProjection.ts\<close>.

  \<^verbatim>\<open>localeCompare\<close> orders strings by a collation; the argument \<open>collate\<close> gives the collation key of
  a string, so that a comparator that falls back to it is an order by pairs, and \<^verbatim>\<open>Array.sort\<close>, which
  is stable, is \<open>sort_key\<close>.  Times are integers.
\<close>

section \<open>Messages\<close>

record chat_message =
  cm_ulid :: "string option"
  cm_senderPtid :: "string option"
  cm_content :: "string option"
  cm_attachments :: "chat_attachment list option"
  cm_replyToUlid :: "string option"
  cm_threadRootUlid :: "string option"
  cm_recalled :: "bool option"
  cm_status :: "int option"
  cm_encryptedPayload :: "nat list option"
  cm_editedAt :: "int option"
  cm_deliveredAt :: "int option"
  cm_readAt :: "int option"

text \<open>The \<^verbatim>\<open>ulid\<close>, empty when it is absent: the code treats both as having none.\<close>

definition ulid_of :: "chat_message \<Rightarrow> string" where
  "ulid_of m = or_empty (cm_ulid m)"

section \<open>Merging\<close>

definition by_ulid :: "chat_message list \<Rightarrow> (string, chat_message) jsmap" where
  "by_ulid ms = fold (\<lambda>m acc. if ulid_of m \<noteq> [] then map_set (ulid_of m) m acc else acc) ms []"

definition message_order ::
  "(string \<Rightarrow> 'k::linorder) \<Rightarrow> (chat_message \<Rightarrow> int) \<Rightarrow> chat_message \<Rightarrow> int \<times> 'k" where
  "message_order collate ts m = (ts m, collate (ulid_of m))"

record merge_options =
  mo_resolveTimestampMs :: "chat_message \<Rightarrow> int"
  mo_shouldInclude :: "(chat_message \<Rightarrow> bool) option"
  mo_mergeExisting :: "(chat_message \<Rightarrow> chat_message \<Rightarrow> chat_message) option"

definition merged_version ::
  "merge_options \<Rightarrow> chat_message option \<Rightarrow> chat_message \<Rightarrow> chat_message" where
  "merged_version opts current incoming =
     (case (current, mo_mergeExisting opts) of (Some c, Some f) \<Rightarrow> f c incoming | _ \<Rightarrow> incoming)"

definition mergeChatMessages ::
  "(string \<Rightarrow> 'k::linorder) \<Rightarrow> merge_options \<Rightarrow> chat_message list \<Rightarrow> chat_message \<Rightarrow> chat_message list" where
  "mergeChatMessages collate opts messages incoming =
     (if ulid_of incoming = [] then messages
      else if (case mo_shouldInclude opts of None \<Rightarrow> False | Some p \<Rightarrow> \<not> p incoming) then messages
      else let m = by_ulid messages; u = ulid_of incoming in
           sort_key (message_order collate (mo_resolveTimestampMs opts))
             (map_values (map_set u (merged_version opts (map_get m u) incoming) m)))"

definition mergeUniqueChatMessages :: "chat_message list \<Rightarrow> chat_message list \<Rightarrow> chat_message list" where
  "mergeUniqueChatMessages existing incoming =
     fst (fold (\<lambda>m (next, seen).
                  if ulid_of m = [] \<or> ulid_of m \<in> set seen then (next, seen)
                  else (next @ [m], set_add (ulid_of m) seen))
           (existing @ incoming) ([], []))"



definition preserveMessageReceiptStatuses :: "chat_message list \<Rightarrow> chat_message list \<Rightarrow> chat_message list" where
  "preserveMessageReceiptStatuses existing reconciled =
     (let existingByUlid = fold (\<lambda>m. map_set (cm_ulid m) m) existing [] in
      map (\<lambda>m. case cm_status m of
             None \<Rightarrow> m
           | Some s \<Rightarrow>
               (case map_get existingByUlid (cm_ulid m) of
                  None \<Rightarrow> m
                | Some current \<Rightarrow>
                    (case cm_status current of
                       None \<Rightarrow> m
                     | Some c \<Rightarrow>
                         if c \<le> s then m
                         else m\<lparr>cm_status := Some c, cm_deliveredAt := cm_deliveredAt current,
                                cm_readAt := cm_readAt current\<rparr>)))
        reconciled)"

section \<open>Receipts\<close>

datatype receipt_kind = KindNumber int | KindName string

definition resolveChatMessageReceiptStatus :: "receipt_kind \<Rightarrow> int \<Rightarrow> int \<Rightarrow> int option" where
  "resolveChatMessageReceiptStatus kind delivered read =
     (if kind = KindNumber delivered \<or> kind = KindName ''DELIVERED'' then Some delivered
      else if kind = KindNumber read \<or> kind = KindName ''READ'' then Some read
      else None)"

definition status_of :: "chat_message \<Rightarrow> int" where
  "status_of m = (case cm_status m of None \<Rightarrow> 0 | Some s \<Rightarrow> s)"

text \<open>
  The functions that update a list return \<^verbatim>\<open>null\<close>, here \<open>None\<close>, when nothing changes.  They map the
  list and note whether some message was changed.
\<close>

definition map_changed :: "('m \<Rightarrow> 'm option) \<Rightarrow> 'm list \<Rightarrow> 'm list option" where
  "map_changed f ms =
     (if list_ex (\<lambda>m. f m \<noteq> None) ms
      then Some (map (\<lambda>m. case f m of None \<Rightarrow> m | Some m' \<Rightarrow> m') ms) else None)"

definition applyChatMessageReceiptToList ::
  "chat_message list option \<Rightarrow> string \<Rightarrow> int option \<Rightarrow> chat_message list option" where
  "applyChatMessageReceiptToList messages messageUlid nextStatus =
     (case (messages, nextStatus) of
        (Some ms, Some s) \<Rightarrow>
          if ms = [] then None
          else map_changed (\<lambda>m. if cm_ulid m \<noteq> Some messageUlid \<or> status_of m \<ge> s then None
                               else Some (m\<lparr>cm_status := Some s\<rparr>)) ms
      | _ \<Rightarrow> None)"

section \<open>Mutations\<close>

datatype mutation_kind = RECALL | EDIT | DELETE

record mutation_input =
  mi_kind :: mutation_kind
  mi_newContent :: "string option"
  mi_newCiphertext :: "nat list option"
  mi_mutatedTsUnixMs :: "int option"

text \<open>
  \<open>now\<close> is the value of \<^verbatim>\<open>options.now\<close> or of the clock; \<open>createEditedAt\<close> and \<open>canMutate\<close> are the
  optional callbacks, the latter accepting everything when it is absent.
\<close>

record mutation_options =
  op_now :: int
  op_createEditedAt :: "(int \<Rightarrow> int option) option"
  op_emptyCiphertext :: "nat list option"
  op_canMutateMessage :: "chat_message \<Rightarrow> bool"

definition empty_ciphertext :: "mutation_options \<Rightarrow> nat list" where
  "empty_ciphertext opts = (case op_emptyCiphertext opts of None \<Rightarrow> [] | Some b \<Rightarrow> b)"

definition edited :: "mutation_options \<Rightarrow> mutation_input \<Rightarrow> chat_message \<Rightarrow> chat_message" where
  "edited opts mu m =
     (let ts = (case mi_mutatedTsUnixMs mu of Some t \<Rightarrow> t | None \<Rightarrow> op_now opts);
          editedAt = Option.bind (op_createEditedAt opts) (\<lambda>f. f ts) in
      m\<lparr>cm_content := (if or_empty (mi_newContent mu) \<noteq> [] then mi_newContent mu else cm_content m),
        cm_encryptedPayload :=
          (case mi_newCiphertext mu of
             Some (b # bs) \<Rightarrow> Some (b # bs)
           | _ \<Rightarrow> (case cm_encryptedPayload m of None \<Rightarrow> Some (empty_ciphertext opts) | Some p \<Rightarrow> Some p)),
        cm_editedAt := (case editedAt of None \<Rightarrow> cm_editedAt m | Some e \<Rightarrow> Some e)\<rparr>)"

definition recalled_version :: "mutation_options \<Rightarrow> chat_message \<Rightarrow> chat_message" where
  "recalled_version opts m =
     m\<lparr>cm_recalled := Some True, cm_content := Some [], cm_encryptedPayload := Some (empty_ciphertext opts)\<rparr>"

definition applyChatMessageMutationToList ::
  "mutation_options \<Rightarrow> chat_message list option \<Rightarrow> string \<Rightarrow> mutation_input \<Rightarrow> chat_message list option" where
  "applyChatMessageMutationToList opts messages messageUlid mu =
     (case messages of
        None \<Rightarrow> None
      | Some ms \<Rightarrow>
          if ms = [] then None
          else if mi_kind mu = DELETE then
            (if list_ex (\<lambda>m. cm_ulid m = Some messageUlid) ms
             then Some (filter (\<lambda>m. cm_ulid m \<noteq> Some messageUlid) ms) else None)
          else map_changed (\<lambda>m.
                 if cm_ulid m \<noteq> Some messageUlid \<or> \<not> op_canMutateMessage opts m then None
                 else if mi_kind mu = RECALL then
                   (if cm_recalled m = Some True then None else Some (recalled_version opts m))
                 else Some (edited opts mu m)) ms)"

definition applyChatDecryptedContentToList ::
  "chat_message list option \<Rightarrow> string \<Rightarrow> string \<Rightarrow> chat_message list option" where
  "applyChatDecryptedContentToList messages messageUlid plaintext =
     (case messages of
        None \<Rightarrow> None
      | Some ms \<Rightarrow>
          if ms = [] \<or> plaintext = [] then None
          else map_changed (\<lambda>m. if cm_ulid m \<noteq> Some messageUlid \<or> cm_content m = Some plaintext then None
                               else Some (m\<lparr>cm_content := Some plaintext\<rparr>)) ms)"

section \<open>What a merge keeps\<close>

text \<open>
  A list that a merge returns has at most one message per identifier and none without one;
  \<open>latest\<close> is the last version of a message in a list.
\<close>

definition well_kept :: "chat_message list \<Rightarrow> bool" where
  "well_kept ms \<longleftrightarrow> distinct (map ulid_of ms) \<and> [] \<notin> set (map ulid_of ms)"

definition latest :: "chat_message list \<Rightarrow> string \<Rightarrow> chat_message option" where
  "latest ms u = find (\<lambda>m. ulid_of m = u) (rev ms)"

definition keeps_ulid :: "merge_options \<Rightarrow> bool" where
  "keeps_ulid opts \<longleftrightarrow>
     (\<forall>f c m. mo_mergeExisting opts = Some f \<longrightarrow> ulid_of c = ulid_of m \<longrightarrow> ulid_of (f c m) = ulid_of m)"

definition accepts :: "merge_options \<Rightarrow> chat_message \<Rightarrow> bool" where
  "accepts opts m \<longleftrightarrow> ulid_of m \<noteq> [] \<and> (case mo_shouldInclude opts of None \<Rightarrow> True | Some p \<Rightarrow> p m)"

lemma by_ulid_index: "by_ulid ms = index_by ulid_of (filter (\<lambda>m. ulid_of m \<noteq> []) ms)"
  unfolding by_ulid_def index_by_def fold_filter by (rule fold_cong) auto

lemma find_filter: "find P (filter Q xs) = find (\<lambda>x. Q x \<and> P x) xs"
  by (induction xs) auto

lemma by_ulid_get: "map_get (by_ulid ms) u = (if u = [] then None else latest ms u)"
proof -
  have "map_get (by_ulid ms) u = find (\<lambda>m. ulid_of m \<noteq> [] \<and> ulid_of m = u) (rev ms)"
    by (simp add: by_ulid_index index_by_get rev_filter find_filter)
  also have "\<dots> = (if u = [] then None else latest ms u)"
    unfolding latest_def by (auto simp: find_None_iff intro!: find_cong)
  finally show ?thesis .
qed

lemma well_kept_filter: "well_kept ms \<Longrightarrow> filter (\<lambda>m. ulid_of m \<noteq> []) ms = ms"
  by (force simp: well_kept_def filter_id_conv)

lemma latest_well_kept: "well_kept ms \<Longrightarrow> latest ms u = Some m \<longleftrightarrow> m \<in> set ms \<and> ulid_of m = u"
  unfolding latest_def index_by_get [symmetric] by (simp add: well_kept_def index_by_distinct)

lemma merged_ulid:
  assumes "keeps_ulid opts" "\<And>c. cur = Some c \<Longrightarrow> ulid_of c = ulid_of m"
  shows "ulid_of (merged_version opts cur m) = ulid_of m"
  using assms by (auto simp: merged_version_def keeps_ulid_def split: option.splits)

lemma mergeChatMessages_accepted:
  "accepts opts m \<Longrightarrow> mergeChatMessages collate opts ms m =
     sort_key (message_order collate (mo_resolveTimestampMs opts))
       (map_values (map_set (ulid_of m) (merged_version opts (map_get (by_ulid ms) (ulid_of m)) m) (by_ulid ms)))"
  by (auto simp: mergeChatMessages_def accepts_def Let_def split: option.splits)

lemma mergeChatMessages_rejected:
  "\<not> accepts opts m \<Longrightarrow> mergeChatMessages collate opts ms m = ms"
  by (auto simp: mergeChatMessages_def accepts_def split: option.splits)

lemma latest_ulid: "latest ms u = Some m \<Longrightarrow> ulid_of m = u"
  unfolding latest_def by (auto simp: find_Some_iff)

lemma merge_keyed:
  assumes "keeps_ulid opts" "accepts opts m"
  shows "keyed ulid_of (map_set (ulid_of m) (merged_version opts (latest ms (ulid_of m)) m) (by_ulid ms))"
  using assms latest_ulid merged_ulid by (auto simp: by_ulid_index keyed_index intro!: keyed_set)

lemma merge_well_kept:
  assumes "keeps_ulid opts" "accepts opts m"
  shows "well_kept (mergeChatMessages collate opts ms m)"
proof -
  let ?v = "map_set (ulid_of m) (merged_version opts (latest ms (ulid_of m)) m) (by_ulid ms)"
  have u: "ulid_of m \<noteq> []" using assms(2) by (simp add: accepts_def)
  have "[] \<notin> ulid_of ` set (map_values ?v)"
    using keyed_values(2) [OF merge_keyed [OF assms]] u by (auto simp: by_ulid_get)
  moreover have "distinct (map ulid_of (map_values ?v))" by (rule keyed_values(1) [OF merge_keyed [OF assms]])
  ultimately show ?thesis
    using u by (simp add: well_kept_def mergeChatMessages_accepted [OF assms(2)] by_ulid_get distinct_map)
qed

lemma merge_latest:
  assumes "keeps_ulid opts" "accepts opts m" "u \<noteq> []"
  shows "latest (mergeChatMessages collate opts ms m) u =
    (if u = ulid_of m then Some (merged_version opts (latest ms u) m) else latest ms u)"
proof -
  let ?v = "map_set (ulid_of m) (merged_version opts (latest ms (ulid_of m)) m) (by_ulid ms)"
  have "ulid_of m \<noteq> []" using assms(2) by (simp add: accepts_def)
  then have "latest (mergeChatMessages collate opts ms m) u = Some v \<longleftrightarrow> v \<in> set (map_values ?v) \<and> ulid_of v = u" for v
    using latest_well_kept [OF merge_well_kept [OF assms(1,2)]]
    by (simp add: mergeChatMessages_accepted [OF assms(2)] by_ulid_get)
  then have "latest (mergeChatMessages collate opts ms m) u = Some v \<longleftrightarrow> map_get ?v u = Some v" for v
    using keyed_values(2) [OF merge_keyed [OF assms(1,2)]] merge_keyed [OF assms(1,2), of ms]
    unfolding keyed_def by metis
  then have "latest (mergeChatMessages collate opts ms m) u = map_get ?v u" by (metis not_Some_eq)
  then show ?thesis using assms(3) by (simp add: by_ulid_get)
qed

lemma merge_sorted:
  "accepts opts m \<Longrightarrow>
     sorted (map (message_order collate (mo_resolveTimestampMs opts)) (mergeChatMessages collate opts ms m))"
  by (simp add: mergeChatMessages_accepted)

text \<open>
  Merging a received message into a list: one without identifier, or that the caller excludes,
  leaves the list as it is.  Otherwise the result has one message per identifier, in the order of time
  and identifier, holds at the message's identifier what the merge makes of it and of the version
  there, and keeps the latest version of every other message.
\<close>

theorem mergeChatMessages_correct:
  assumes "keeps_ulid opts"
  shows "if accepts opts m
    then well_kept (mergeChatMessages collate opts ms m)
      \<and> sorted (map (message_order collate (mo_resolveTimestampMs opts)) (mergeChatMessages collate opts ms m))
      \<and> (\<forall>u. u \<noteq> [] \<longrightarrow> latest (mergeChatMessages collate opts ms m) u =
            (if u = ulid_of m then Some (merged_version opts (latest ms u) m) else latest ms u))
    else mergeChatMessages collate opts ms m = ms"
  by (simp add: mergeChatMessages_rejected merge_well_kept [OF assms] merge_latest [OF assms] merge_sorted)

definition plain_message :: "string \<Rightarrow> string \<Rightarrow> chat_message" where
  "plain_message u content =
     \<lparr>cm_ulid = Some u, cm_senderPtid = None, cm_content = Some content, cm_attachments = None,
      cm_replyToUlid = None, cm_threadRootUlid = None, cm_recalled = None, cm_status = None,
      cm_encryptedPayload = None, cm_editedAt = None, cm_deliveredAt = None, cm_readAt = None\<rparr>"

definition plain_merge :: "(chat_message \<Rightarrow> int) \<Rightarrow> merge_options" where
  "plain_merge ts = \<lparr>mo_resolveTimestampMs = ts, mo_shouldInclude = None, mo_mergeExisting = None\<rparr>"

theorem mergeChatMessages_correct_witness:
  "keeps_ulid (plain_merge (\<lambda>_. 0)) \<and> accepts (plain_merge (\<lambda>_. 0)) (plain_message ''a'' ''new'') \<and>
   latest (mergeChatMessages length (plain_merge (\<lambda>_. 0)) [plain_message ''a'' ''old''] (plain_message ''a'' ''new''))
     ''a'' = Some (plain_message ''a'' ''new'')"
proof -
  have k: "keeps_ulid (plain_merge (\<lambda>_. 0))" by (simp add: keeps_ulid_def plain_merge_def)
  have a: "accepts (plain_merge (\<lambda>_. 0)) (plain_message ''a'' ''new'')" by code_simp
  show ?thesis
    using k a mergeChatMessages_correct [OF k, of "plain_message ''a'' ''new''" length "[plain_message ''a'' ''old'']"]
    by (auto simp: merged_version_def plain_merge_def plain_message_def ulid_of_def or_empty_def split: option.splits)
qed

section \<open>Convergence\<close>
















section \<open>Receipts commute\<close>

text \<open>A receipt as the stores apply it: a list that does not change is kept.\<close>

definition receipt_step :: "chat_message list \<Rightarrow> string \<times> int \<Rightarrow> chat_message list" where
  "receipt_step ms r =
     (case applyChatMessageReceiptToList (Some ms) (fst r) (Some (snd r)) of None \<Rightarrow> ms | Some ms' \<Rightarrow> ms')"

definition best_status :: "(string \<times> int) list \<Rightarrow> chat_message \<Rightarrow> int" where
  "best_status rs m = foldl (\<lambda>b r. if cm_ulid m = Some (fst r) then max b (snd r) else b) (status_of m) rs"

definition receipted :: "(string \<times> int) list \<Rightarrow> chat_message \<Rightarrow> chat_message" where
  "receipted rs m = (if best_status rs m > status_of m then m\<lparr>cm_status := Some (best_status rs m)\<rparr> else m)"

lemma map_changed_map:
  "(case map_changed f ms of None \<Rightarrow> ms | Some ms' \<Rightarrow> ms') = map (\<lambda>m. case f m of None \<Rightarrow> m | Some m' \<Rightarrow> m') ms"
  by (auto simp: map_changed_def list_ex_iff intro!: map_idI [symmetric])

lemma receipt_step_map: "receipt_step ms r = map (receipted [r]) ms"
proof -
  have "receipt_step ms r = (case map_changed (\<lambda>m. if cm_ulid m \<noteq> Some (fst r) \<or> status_of m \<ge> snd r then None
           else Some (m\<lparr>cm_status := Some (snd r)\<rparr>)) ms of None \<Rightarrow> ms | Some ms' \<Rightarrow> ms')"
    by (auto simp: receipt_step_def applyChatMessageReceiptToList_def map_changed_def)
  also have "\<dots> = map (receipted [r]) ms"
    unfolding map_changed_map by (auto simp: receipted_def best_status_def)
  finally show ?thesis .
qed

lemma status_receipted: "status_of (receipted rs m) = max (status_of m) (best_status rs m)"
  by (auto simp: receipted_def status_of_def)

lemma best_status_ge: "status_of m \<le> best_status rs m"
  unfolding best_status_def by (induction rs rule: rev_induct) auto

lemma receipted_ulid [simp]: "cm_ulid (receipted rs m) = cm_ulid m"
  by (simp add: receipted_def)

lemma receipted_snoc: "receipted [r] (receipted rs m) = receipted (rs @ [r]) m"
proof -
  have "best_status (rs @ [r]) m = (if cm_ulid m = Some (fst r) then max (best_status rs m) (snd r) else best_status rs m)"
    by (simp add: best_status_def)
  then show ?thesis
    using best_status_ge [of m rs] unfolding receipted_def [of "[r]"] 
    by (auto simp: best_status_def [of "[r]"] status_receipted) (auto simp: receipted_def)
qed

lemma receipt_steps: "foldl receipt_step ms rs = map (receipted rs) ms"
proof (induction rs rule: rev_induct)
  case Nil
  then show ?case by (simp add: receipted_def best_status_def)
next
  case (snoc r rs)
  then show ?case by (simp add: receipt_step_map receipted_snoc)
qed

definition carried :: "(string \<times> int) list \<Rightarrow> chat_message \<Rightarrow> int set" where
  "carried rs m = {s. \<exists>u. (u, s) \<in> set rs \<and> cm_ulid m = Some u}"

lemma carried_simps:
  "carried [] m = {}"
  "carried (rs @ [r]) m = (if cm_ulid m = Some (fst r) then insert (snd r) (carried rs m) else carried rs m)"
  by (simp add: carried_def, cases r, auto simp: carried_def)

lemma finite_carried [simp]: "finite (carried rs m)"
  by (induction rs rule: rev_induct) (auto simp: carried_simps)

lemma best_status_Max: "best_status rs m = Max (insert (status_of m) (carried rs m))"
proof (induction rs rule: rev_induct)
  case Nil
  then show ?case by (simp add: best_status_def carried_simps)
next
  case (snoc r rs)
  have "Max (insert (status_of m) (insert (snd r) (carried rs m))) = max (snd r) (Max (insert (status_of m) (carried rs m)))"
    unfolding insert_commute [of "status_of m"] by (rule Max_insert) simp_all
  then show ?case using snoc by (simp add: best_status_def carried_simps max.commute del: Max_insert)
qed

text \<open>
  Receipts commute.  After any sequence of receipts every message has the greatest of its status
  and of the statuses its receipts carry, and nothing else of it has changed; so the list depends on
  the set of receipts, not on their order or repetition, and no status ever decreases.
\<close>

theorem receipts_commute:
  "foldl receipt_step ms rs =
     map (\<lambda>m. let best = Max (insert (status_of m) (carried rs m)) in
          if best > status_of m then m\<lparr>cm_status := Some best\<rparr> else m) ms"
  by (simp add: receipt_steps receipted_def best_status_Max Let_def)


section \<open>Mutations\<close>

definition mutation_step ::
  "mutation_options \<Rightarrow> chat_message list \<Rightarrow> string \<times> mutation_input \<Rightarrow> chat_message list" where
  "mutation_step opts ms u =
     (case applyChatMessageMutationToList opts (Some ms) (fst u) (snd u) of None \<Rightarrow> ms | Some ms' \<Rightarrow> ms')"

definition mutated :: "mutation_options \<Rightarrow> string \<times> mutation_input \<Rightarrow> chat_message \<Rightarrow> chat_message" where
  "mutated opts u m =
     (if cm_ulid m \<noteq> Some (fst u) \<or> \<not> op_canMutateMessage opts m then m
      else if mi_kind (snd u) = RECALL then (if cm_recalled m = Some True then m else recalled_version opts m)
      else edited opts (snd u) m)"

lemma mutation_step_eq:
  "mutation_step opts ms u =
     (if mi_kind (snd u) = DELETE then filter (\<lambda>m. cm_ulid m \<noteq> Some (fst u)) ms else map (mutated opts u) ms)"
proof (cases "mi_kind (snd u) = DELETE")
  case True
  then show ?thesis
    by (auto simp: mutation_step_def applyChatMessageMutationToList_def list_ex_iff intro!: filter_True [symmetric])
next
  case False
  let ?f = "\<lambda>m. if cm_ulid m \<noteq> Some (fst u) \<or> \<not> op_canMutateMessage opts m then None
                 else if mi_kind (snd u) = RECALL then
                   (if cm_recalled m = Some True then None else Some (recalled_version opts m))
                 else Some (edited opts (snd u) m)"
  have "mutation_step opts ms u = (case map_changed ?f ms of None \<Rightarrow> ms | Some ms' \<Rightarrow> ms')"
    using False by (auto simp: mutation_step_def applyChatMessageMutationToList_def map_changed_def)
  also have "\<dots> = map (mutated opts u) ms" unfolding map_changed_map by (auto simp: mutated_def)
  finally show ?thesis using False by simp
qed

lemma mutated_keeps:
  "cm_ulid (mutated opts u m) = cm_ulid m"
  "cm_senderPtid (mutated opts u m) = cm_senderPtid m"
  "cm_recalled m = Some True \<Longrightarrow> cm_recalled (mutated opts u m) = Some True"
  by (simp_all add: mutated_def edited_def recalled_version_def Let_def)


text \<open>What a sequence of mutations makes of one message, and which messages it leaves.\<close>

definition after_mutations ::
  "mutation_options \<Rightarrow> (string \<times> mutation_input) list \<Rightarrow> chat_message \<Rightarrow> chat_message" where
  "after_mutations opts us m = foldl (\<lambda>m u. if mi_kind (snd u) = DELETE then m else mutated opts u m) m us"

definition survives :: "(string \<times> mutation_input) list \<Rightarrow> chat_message \<Rightarrow> bool" where
  "survives us m \<longleftrightarrow> (\<forall>u \<in> set us. mi_kind (snd u) = DELETE \<longrightarrow> cm_ulid m \<noteq> Some (fst u))"

lemma after_mutations_simps [simp]:
  "after_mutations opts [] m = m"
  "after_mutations opts (us @ [u]) m =
     (if mi_kind (snd u) = DELETE then after_mutations opts us m else mutated opts u (after_mutations opts us m))"
  by (simp_all add: after_mutations_def)

lemma after_mutations_keep:
  "cm_ulid (after_mutations opts us m) = cm_ulid m"
  "cm_senderPtid (after_mutations opts us m) = cm_senderPtid m"
  "cm_recalled m = Some True \<Longrightarrow> cm_recalled (after_mutations opts us m) = Some True"
  by (induction us rule: rev_induct) (simp_all add: mutated_keeps)

lemma mutations_pointwise:
  "foldl (mutation_step opts) ms us = map (after_mutations opts us) (filter (survives us) ms)"
proof (induction us rule: rev_induct)
  case Nil
  then show ?case by (simp add: survives_def filter_True map_idI)
next
  case (snoc u us)
  show ?case
  proof (cases "mi_kind (snd u) = DELETE")
    case True
    then have "survives (us @ [u]) = (\<lambda>m. survives us m \<and> cm_ulid m \<noteq> Some (fst u))"
      by (auto simp: survives_def fun_eq_iff)
    then have "filter (survives (us @ [u])) ms = filter (\<lambda>m. cm_ulid m \<noteq> Some (fst u)) (filter (survives us) ms)"
      by simp
    then show ?thesis using snoc True by (simp add: mutation_step_eq filter_map o_def after_mutations_keep)
  next
    case False
    then have "survives (us @ [u]) = survives us" by (auto simp: survives_def fun_eq_iff)
    then show ?thesis using snoc False by (simp add: mutation_step_eq)
  qed
qed

end
