(* ===== verification/Chat_Surface.thy ===== *)
theory Chat_Surface
  imports Chat_Messages Prelude_Numbers
begin

text \<open>
  What the chat clients show, \<^verbatim>\<open>packages/client-chat-core/src/index.ts\<close>: the composer, the kinds of
  message display and search, message timelines, threads, conversation lists and the projections of
  conversations and messages.  The calendar of the local time zone is the argument \<open>calendar\<close>, the text
  of year, month and day of a time.
\<close>

section \<open>Composer\<close>

record enter_key_state =
  ek_key :: string
  ek_shiftKey :: bool
  ek_isComposing :: bool
  ek_nativeIsComposing :: bool
  ek_keyCode :: "int option"
  ek_lastCompositionEndAt :: "int option"
  ek_now :: int

definition COMPOSITION_END_ENTER_GUARD_MS :: int where
  "COMPOSITION_END_ENTER_GUARD_MS = 120"

definition shouldSendComposerEnter :: "enter_key_state \<Rightarrow> bool" where
  "shouldSendComposerEnter st =
     (if ek_key st \<noteq> ''Enter'' then False
      else if ek_shiftKey st then False
      else if ek_isComposing st \<or> ek_nativeIsComposing st then False
      else if (case ek_lastCompositionEndAt st of
                 None \<Rightarrow> False
               | Some e \<Rightarrow> e \<noteq> 0 \<and> ek_now st - e < COMPOSITION_END_ENTER_GUARD_MS) then False
      else ek_keyCode st \<noteq> Some 229)"

record composer_capabilities =
  cc_emoji :: "bool option"
  cc_file :: "bool option"
  cc_screenshot :: "bool option"
  cc_voice :: "bool option"

record resolved_capabilities =
  rc_emoji :: bool
  rc_file :: bool
  rc_screenshot :: bool
  rc_voice :: bool

definition capability :: "bool option \<Rightarrow> bool option \<Rightarrow> bool" where
  "capability override base = (case or_else override base of None \<Rightarrow> False | Some b \<Rightarrow> b)"

definition resolveChatComposerCapabilities ::
  "composer_capabilities \<Rightarrow> composer_capabilities option \<Rightarrow> resolved_capabilities" where
  "resolveChatComposerCapabilities base override =
     \<lparr>rc_emoji = capability (Option.bind override cc_emoji) (cc_emoji base),
      rc_file = capability (Option.bind override cc_file) (cc_file base),
      rc_screenshot = capability (Option.bind override cc_screenshot) (cc_screenshot base),
      rc_voice = capability (Option.bind override cc_voice) (cc_voice base)\<rparr>"

definition EMPTY_COMPOSER_CAPABILITIES :: composer_capabilities where
  "EMPTY_COMPOSER_CAPABILITIES =
     \<lparr>cc_emoji = Some False, cc_file = Some False, cc_screenshot = Some False, cc_voice = Some False\<rparr>"

definition chatComposerAcceptsAttachments :: "composer_capabilities \<Rightarrow> bool" where
  "chatComposerAcceptsAttachments capabilities =
     (let resolved = resolveChatComposerCapabilities EMPTY_COMPOSER_CAPABILITIES (Some capabilities) in
      rc_file resolved \<or> rc_screenshot resolved \<or> rc_voice resolved)"

definition canSubmitChatComposerDraft :: "string option \<Rightarrow> int \<Rightarrow> composer_capabilities \<Rightarrow> bool" where
  "canSubmitChatComposerDraft text attachmentCount capabilities =
     (js_trim (or_empty text) \<noteq> [] \<or> attachmentCount > 0 \<and> chatComposerAcceptsAttachments capabilities)"

section \<open>Messages as shown\<close>

definition isOwnChatMessage :: "chat_message \<Rightarrow> string option \<Rightarrow> bool" where
  "isOwnChatMessage m currentUserPtid \<longleftrightarrow> or_empty currentUserPtid \<noteq> [] \<and> cm_senderPtid m = currentUserPtid"

definition messageReplyToUlid :: "chat_message \<Rightarrow> string" where
  "messageReplyToUlid m = or_empty (cm_replyToUlid m)"

definition messageThreadRootUlid :: "chat_message \<Rightarrow> string" where
  "messageThreadRootUlid m = or_empty (cm_threadRootUlid m)"

definition isExplicitChatThreadReply :: "chat_message \<Rightarrow> bool" where
  "isExplicitChatThreadReply m \<longleftrightarrow> messageThreadRootUlid m \<noteq> []"


definition isEncryptedChatPlaceholder :: "chat_message \<Rightarrow> string \<Rightarrow> bool" where
  "isEncryptedChatPlaceholder m placeholder \<longleftrightarrow> or_empty (cm_content m) = placeholder"




fun text_includes :: "string \<Rightarrow> string \<Rightarrow> bool" where
  "text_includes q [] \<longleftrightarrow> q = []"
| "text_includes q (c # s) \<longleftrightarrow> starts_with q (c # s) \<or> text_includes q s"



definition chatMessageSenderPtids :: "chat_message list \<Rightarrow> string option \<Rightarrow> string list" where
  "chatMessageSenderPtids messages currentUserPtid =
     set_of_list (map or_empty
       (filter (\<lambda>did. or_empty did \<noteq> [] \<and> did \<noteq> currentUserPtid) (map cm_senderPtid messages)))"

definition chatThreadReplyTargetUlid :: "chat_message option \<Rightarrow> chat_message option \<Rightarrow> string" where
  "chatThreadReplyTargetUlid rootMessage replyTarget =
     (let t = or_empty (Option.bind replyTarget cm_ulid) in
      if t \<noteq> [] then t else or_empty (Option.bind rootMessage cm_ulid))"



section \<open>Timelines\<close>

definition chatMessageCalendarDayKey :: "(int \<Rightarrow> string) \<Rightarrow> int \<Rightarrow> string" where
  "chatMessageCalendarDayKey calendar timestampMs = (if timestampMs = 0 then [] else calendar timestampMs)"

definition DEFAULT_MESSAGE_TIME_GROUP_GAP_MS :: int where
  "DEFAULT_MESSAGE_TIME_GROUP_GAP_MS = 10 * 60 * 1000"

record message_surface_item =
  si_index :: nat
  si_message :: chat_message
  si_previousMessage :: "chat_message option"
  si_timestampMs :: int
  si_dayKey :: string
  si_showDateSeparator :: bool
  si_timelineGap :: bool

definition message_surface_item_at ::
  "(int \<Rightarrow> string) \<Rightarrow> (chat_message \<Rightarrow> int) \<Rightarrow> int \<Rightarrow> chat_message list \<Rightarrow> nat \<Rightarrow> message_surface_item" where
  "message_surface_item_at calendar resolveTimestampMs timeGroupGapMs messages i =
     (let message = messages ! i;
          previousMessage = (if i = 0 then None else Some (messages ! (i - 1)));
          timestampMs = resolveTimestampMs message;
          previousTimestampMs = (case previousMessage of None \<Rightarrow> 0 | Some p \<Rightarrow> resolveTimestampMs p);
          dayKey = chatMessageCalendarDayKey calendar timestampMs;
          previousDayKey = chatMessageCalendarDayKey calendar previousTimestampMs;
          sameDay = (dayKey \<noteq> [] \<and> previousDayKey \<noteq> [] \<and> dayKey = previousDayKey) in
      \<lparr>si_index = i, si_message = message, si_previousMessage = previousMessage, si_timestampMs = timestampMs,
       si_dayKey = dayKey, si_showDateSeparator = (dayKey \<noteq> [] \<and> dayKey \<noteq> previousDayKey),
       si_timelineGap = (sameDay \<and> timestampMs > 0 \<and> previousTimestampMs > 0
                         \<and> timestampMs - previousTimestampMs > timeGroupGapMs)\<rparr>)"

definition buildChatMessageSurfaceItems ::
  "(int \<Rightarrow> string) \<Rightarrow> (chat_message \<Rightarrow> int) \<Rightarrow> int \<Rightarrow> chat_message list \<Rightarrow> message_surface_item list" where
  "buildChatMessageSurfaceItems calendar resolveTimestampMs timeGroupGapMs messages =
     map (message_surface_item_at calendar resolveTimestampMs timeGroupGapMs messages) [0..<length messages]"

section \<open>Threads\<close>

definition countChatThreadReplies :: "chat_message list \<Rightarrow> string \<Rightarrow> nat" where
  "countChatThreadReplies messages rootUlid =
     (if rootUlid = [] then 0
      else length (filter (\<lambda>m. messageThreadRootUlid m = rootUlid) messages))"

definition thread_reply :: "string \<Rightarrow> chat_message \<Rightarrow> bool" where
  "thread_reply rootUlid m \<longleftrightarrow> ulid_of m \<noteq> [] \<and> ulid_of m \<noteq> rootUlid \<and> messageThreadRootUlid m = rootUlid"

definition collectChatThreadPreviewMessages ::
  "(string \<Rightarrow> 'k::linorder) \<Rightarrow> (chat_message \<Rightarrow> int) \<Rightarrow> int \<Rightarrow> string \<Rightarrow> chat_message list \<Rightarrow> chat_message list
    \<Rightarrow> chat_message list" where
  "collectChatThreadPreviewMessages collate resolveTimestampMs limit rootUlid currentMessages loadedThreadMessages =
     (if rootUlid = [] \<or> limit \<le> 0 then []
      else let byUlid = fold (\<lambda>m acc. if thread_reply rootUlid m then map_set (ulid_of m) m acc else acc)
                             (currentMessages @ loadedThreadMessages) [];
               sortedMessages = sort_key (message_order collate resolveTimestampMs) (map_values byUlid) in
           drop (nat (max 0 (int (length sortedMessages) - limit))) sortedMessages)"

definition countHiddenEarlierChatThreadReplies :: "int \<Rightarrow> int \<Rightarrow> int" where
  "countHiddenEarlierChatThreadReplies totalReplyCount previewReplyCount = max 0 (totalReplyCount - previewReplyCount)"

record thread_surface =
  ts_rootMessage :: "chat_message option"
  ts_replies :: "chat_message list"
  ts_displayMessages :: "chat_message list"

definition buildChatThreadSurface ::
  "string option \<Rightarrow> chat_message list \<Rightarrow> chat_message list \<Rightarrow> thread_surface" where
  "buildChatThreadSurface rootUlid currentMessages loadedThreadMessages =
     (let loadedRoot = (if or_empty rootUlid \<noteq> []
                        then find (\<lambda>m. cm_ulid m = rootUlid) loadedThreadMessages else None);
          fallbackRoot = (if or_empty rootUlid \<noteq> []
                          then find (\<lambda>m. cm_ulid m = rootUlid) currentMessages else None);
          firstLoaded = (case loadedThreadMessages of [] \<Rightarrow> None | m # _ \<Rightarrow> Some m) in
      case or_else loadedRoot (or_else fallbackRoot firstLoaded) of
        None \<Rightarrow> \<lparr>ts_rootMessage = None, ts_replies = [], ts_displayMessages = []\<rparr>
      | Some rootMessage \<Rightarrow>
          let loadedReplies = filter (\<lambda>m. cm_ulid m \<noteq> cm_ulid rootMessage) loadedThreadMessages;
              replies = (if loadedReplies \<noteq> [] then loadedReplies
                         else filter (\<lambda>m. cm_ulid m \<noteq> cm_ulid rootMessage
                                \<and> Some (messageThreadRootUlid m) = cm_ulid rootMessage) currentMessages) in
          \<lparr>ts_rootMessage = Some rootMessage, ts_replies = replies, ts_displayMessages = rootMessage # replies\<rparr>)"

section \<open>Conversations\<close>

record conversation_preference =
  cp_sticky :: "bool option"
  cp_muted :: "bool option"
  cp_alertEnabled :: "bool option"

definition chatConversationSuppressesAlerts :: "conversation_preference option \<Rightarrow> bool" where
  "chatConversationSuppressesAlerts preference \<longleftrightarrow>
     Option.bind preference cp_muted = Some True \<or> Option.bind preference cp_alertEnabled = Some False"

definition visibleChatConversationUnread :: "jsnum \<Rightarrow> conversation_preference option \<Rightarrow> jsnum" where
  "visibleChatConversationUnread unread preference =
     (if chatConversationSuppressesAlerts preference then Num 0 else unread)"

record 't conversation_surface_item =
  ci_conversation :: 't
  ci_index :: nat
  ci_preference :: "conversation_preference option"
  ci_searchText :: string
  ci_unread :: jsnum
  ci_updatedAt :: int
  ci_visibleUnread :: jsnum

definition is_sticky :: "conversation_preference option \<Rightarrow> bool" where
  "is_sticky preference \<longleftrightarrow> Option.bind preference cp_sticky = Some True"

text \<open>The comparator is the order by this key: sticky conversations first, then the latest.\<close>

definition conversation_rank :: "'t conversation_surface_item \<Rightarrow> int \<times> int" where
  "conversation_rank item = (if is_sticky (ci_preference item) then 0 else 1, - ci_updatedAt item)"

definition buildChatConversationSurfaceItems ::
  "string \<Rightarrow> ('t \<Rightarrow> conversation_preference option) \<Rightarrow> ('t \<Rightarrow> string) \<Rightarrow> ('t \<Rightarrow> jsnum) \<Rightarrow> ('t \<Rightarrow> int)
    \<Rightarrow> 't list \<Rightarrow> 't conversation_surface_item list" where
  "buildChatConversationSurfaceItems query resolvePreference resolveSearchText resolveUnread resolveUpdatedAt conversations =
     (let normalizedQuery = js_lower (js_trim query);
          items = map (\<lambda>(index, conversation).
                    \<lparr>ci_conversation = conversation, ci_index = index, ci_preference = resolvePreference conversation,
                     ci_searchText = resolveSearchText conversation, ci_unread = resolveUnread conversation,
                     ci_updatedAt = resolveUpdatedAt conversation,
                     ci_visibleUnread = visibleChatConversationUnread (resolveUnread conversation)
                                          (resolvePreference conversation)\<rparr>)
                    (List.enumerate 0 conversations) in
      sort_key conversation_rank
        (filter (\<lambda>item. normalizedQuery = [] \<or> text_includes normalizedQuery (js_lower (ci_searchText item))) items))"

section \<open>Projections\<close>

datatype im_kind = ImFriend | ImGroup

fun im_kind_text :: "im_kind \<Rightarrow> string" where
  "im_kind_text ImFriend = ''friend''"
| "im_kind_text ImGroup = ''group''"

datatype im_sync_status = Bootstrapping | Live | Reconciling | Degraded | Disconnected | AuthDenied

datatype im_error_kind = NetworkError | AuthError | DecryptError | PermissionError | UnknownError

record im_error =
  ie_kind :: im_error_kind
  ie_message :: string
  ie_retryable :: bool
  ie_at :: int

record im_preview =
  ip_content :: string
  ip_type :: int
  ip_senderPtid :: string

record im_conversation_input =
  ici_kind :: im_kind
  ici_id :: string
  ici_title :: string
  ici_avatar :: "string option"
  ici_lastActivityMs :: jsnum
  ici_unread :: jsnum
  ici_muted :: "bool option"
  ici_alertEnabled :: "bool option"
  ici_hidden :: "bool option"
  ici_preview :: "im_preview option"
  ici_syncStatus :: "im_sync_status option"
  ici_error :: "im_error option"
  ici_cursor :: "string option"

record im_conversation =
  ic_kind :: im_kind
  ic_id :: string
  ic_title :: string
  ic_avatar :: string
  ic_lastActivityMs :: rat
  ic_unread :: jsnum
  ic_visibleUnread :: jsnum
  ic_muted :: bool
  ic_alertEnabled :: bool
  ic_hidden :: bool
  ic_preview :: "im_preview option"
  ic_syncStatus :: im_sync_status
  ic_error :: "im_error option"
  ic_cursor :: "string option"

text \<open>\<^verbatim>\<open>Number.isFinite(x) ? x : 0\<close> and \<^verbatim>\<open>Math.max(0, Math.floor(x || 0))\<close>.\<close>

definition finite_or_zero :: "jsnum \<Rightarrow> rat" where
  "finite_or_zero n = (case n of Num q \<Rightarrow> q | _ \<Rightarrow> 0)"

definition whole_count :: "jsnum \<Rightarrow> jsnum" where
  "whole_count n =
     (case n of NaN \<Rightarrow> Num 0 | PosInf \<Rightarrow> PosInf | NegInf \<Rightarrow> Num 0 | Num q \<Rightarrow> Num (max 0 (of_int \<lfloor>q\<rfloor>)))"

definition projectIMConversation :: "im_conversation_input \<Rightarrow> im_conversation" where
  "projectIMConversation i =
     (let muted = (ici_muted i = Some True);
          alertEnabled = (ici_alertEnabled i \<noteq> Some False);
          unread = whole_count (ici_unread i) in
      \<lparr>ic_kind = ici_kind i, ic_id = ici_id i, ic_title = ici_title i, ic_avatar = or_empty (ici_avatar i),
       ic_lastActivityMs = finite_or_zero (ici_lastActivityMs i), ic_unread = unread,
       ic_visibleUnread = visibleChatConversationUnread unread
         (Some \<lparr>cp_sticky = None, cp_muted = Some muted, cp_alertEnabled = Some alertEnabled\<rparr>),
       ic_muted = muted, ic_alertEnabled = alertEnabled, ic_hidden = (ici_hidden i = Some True),
       ic_preview = ici_preview i,
       ic_syncStatus = (case ici_syncStatus i of None \<Rightarrow> Live | Some s \<Rightarrow> s),
       ic_error = ici_error i, ic_cursor = ici_cursor i\<rparr>)"

text \<open>The comparator is the order by this key: latest activity first, then kind and identifier.\<close>

definition im_conversation_rank :: "(string \<Rightarrow> 'k::linorder) \<Rightarrow> im_conversation \<Rightarrow> rat \<times> 'k" where
  "im_conversation_rank collate c = (- ic_lastActivityMs c, collate (im_kind_text (ic_kind c) @ '':'' @ ic_id c))"

definition projectIMConversations ::
  "(string \<Rightarrow> 'k::linorder) \<Rightarrow> im_conversation_input list \<Rightarrow> im_conversation list" where
  "projectIMConversations collate inputs =
     sort_key (im_conversation_rank collate)
       (filter (\<lambda>c. \<not> ic_hidden c) (map projectIMConversation inputs))"

datatype im_status = StatusNumber int | StatusText string

record im_message_input =
  imi_id :: string
  imi_conversationKind :: im_kind
  imi_conversationId :: string
  imi_senderPtid :: string
  imi_type :: int
  imi_content :: "string option"
  imi_attachments :: "chat_attachment list option"
  imi_status :: "im_status option"
  imi_sentAtMs :: jsnum
  imi_recalled :: "bool option"
  imi_editedAtMs :: "int option"
  imi_replyToId :: "string option"
  imi_threadRootId :: "string option"
  imi_encrypted :: "bool option"
  imi_error :: "im_error option"

record im_message =
  im_id :: string
  im_conversationKind :: im_kind
  im_conversationId :: string
  im_senderPtid :: string
  im_type :: int
  im_content :: string
  im_attachments :: "chat_attachment list"
  im_status :: "im_status option"
  im_sentAtMs :: rat
  im_recalled :: bool
  im_editedAtMs :: "int option"
  im_replyToId :: "string option"
  im_threadRootId :: "string option"
  im_encrypted :: bool
  im_error :: "im_error option"

definition projectIMMessage :: "im_message_input \<Rightarrow> im_message" where
  "projectIMMessage i =
     \<lparr>im_id = imi_id i, im_conversationKind = imi_conversationKind i, im_conversationId = imi_conversationId i,
      im_senderPtid = imi_senderPtid i, im_type = imi_type i, im_content = or_empty (imi_content i),
      im_attachments = (case imi_attachments i of None \<Rightarrow> [] | Some as \<Rightarrow> as),
      im_status = imi_status i, im_sentAtMs = finite_or_zero (imi_sentAtMs i),
      im_recalled = (imi_recalled i = Some True), im_editedAtMs = imi_editedAtMs i,
      im_replyToId = imi_replyToId i, im_threadRootId = imi_threadRootId i,
      im_encrypted = (imi_encrypted i = Some True), im_error = imi_error i\<rparr>"

definition projectIMMessages :: "(string \<Rightarrow> 'k::linorder) \<Rightarrow> im_message_input list \<Rightarrow> im_message list" where
  "projectIMMessages collate inputs =
     sort_key (\<lambda>m. (im_sentAtMs m, collate (im_id m))) (map projectIMMessage inputs)"

section \<open>Recalled messages\<close>








section \<open>Date separators\<close>

text \<open>A day is an interval of time in the calendar of the time zone.\<close>

definition calendar_days :: "(int \<Rightarrow> string) \<Rightarrow> bool" where
  "calendar_days calendar \<longleftrightarrow>
     (\<forall>a b c. a \<le> b \<longrightarrow> b \<le> c \<longrightarrow> calendar a = calendar c \<longrightarrow> calendar b = calendar a) \<and> (\<forall>a. calendar a \<noteq> [])"

text \<open>The number of changes in a list, the first element counted as one.\<close>

fun changes :: "'a option \<Rightarrow> 'a list \<Rightarrow> nat" where
  "changes p [] = 0"
| "changes p (x # xs) = (if p = Some x then 0 else 1) + changes (Some x) xs"

definition blocks :: "'a list \<Rightarrow> bool" where
  "blocks xs \<longleftrightarrow> (\<forall>i j k. i \<le> j \<longrightarrow> j \<le> k \<longrightarrow> k < length xs \<longrightarrow> xs ! i = xs ! k \<longrightarrow> xs ! j = xs ! i)"

lemma blocks_tail: "blocks (x # xs) \<Longrightarrow> blocks xs"
  unfolding blocks_def by (metis Suc_le_mono Suc_less_eq length_Cons nth_Cons_Suc)

lemma changes_blocks: "blocks (x # xs) \<Longrightarrow> changes (Some x) xs + 1 = card (set (x # xs))"
proof (induction xs arbitrary: x)
  case (Cons y xs)
  have IH: "changes (Some y) xs + 1 = card (set (y # xs))" using Cons.IH blocks_tail [OF Cons.prems] by blast
  show ?case
  proof (cases "x = y")
    case True
    then show ?thesis using IH by simp
  next
    case False
    have "x \<notin> set xs"
    proof
      assume "x \<in> set xs"
      then obtain k where "k < length xs" "xs ! k = x" by (auto simp: in_set_conv_nth)
      then have "(x # y # xs) ! 1 = (x # y # xs) ! 0"
        using Cons.prems [unfolded blocks_def, rule_format, of 0 1 "Suc (Suc k)"] by simp
      then show False using False by simp
    qed
    then show ?thesis using IH False by simp
  qed
qed simp

lemma separators_count:
  "length (filter (\<lambda>i. keys ! i \<noteq> (if i = 0 then d else keys ! (i - 1))) [0..<length keys]) = changes (Some d) keys"
proof (induction keys arbitrary: d)
  case (Cons x keys)
  have "filter (\<lambda>i. (x # keys) ! i \<noteq> (if i = 0 then d else (x # keys) ! (i - 1))) (map Suc [0..<length keys])
      = map Suc (filter (\<lambda>i. keys ! i \<noteq> (if i = 0 then x else keys ! (i - 1))) [0..<length keys])"
    unfolding filter_map o_def
    by (rule arg_cong [of _ _ "map Suc"], rule filter_cong) (auto simp: nth_Cons split: nat.splits)
  moreover have "[0..<length (x # keys)] = 0 # map Suc [0..<length keys]"
    by (simp add: map_Suc_upt upt_conv_Cons del: upt_Suc)
  ultimately show ?case using Cons.IH [of x] by (simp del: upt_Suc)
qed simp

lemma surface_separators:
  assumes "\<forall>m \<in> set ms. ts m \<noteq> 0" "\<forall>a. calendar a \<noteq> []"
  shows "length (filter si_showDateSeparator (buildChatMessageSurfaceItems calendar ts gap ms))
    = changes (Some []) (map (\<lambda>m. calendar (ts m)) ms)"
proof -
  let ?k = "map (\<lambda>m. calendar (ts m)) ms"
  have "si_showDateSeparator (message_surface_item_at calendar ts gap ms i)
      \<longleftrightarrow> ?k ! i \<noteq> (if i = 0 then [] else ?k ! (i - 1))" if "i < length ms" for i
    using assms that by (auto simp: message_surface_item_at_def Let_def chatMessageCalendarDayKey_def)
  then have "length (filter si_showDateSeparator (buildChatMessageSurfaceItems calendar ts gap ms))
      = length (filter (\<lambda>i. ?k ! i \<noteq> (if i = 0 then [] else ?k ! (i - 1))) [0..<length ?k])"
    by (auto simp: buildChatMessageSurfaceItems_def filter_map o_def intro!: arg_cong [of _ _ length] filter_cong)
  also have "\<dots> = changes (Some []) ?k" by (rule separators_count)
  finally show ?thesis .
qed

text \<open>
  A timeline has one date separator per day: for messages in the order of their times, none of
  them without one, the number of separators is the number of different days.
\<close>

theorem one_separator_per_day:
  assumes "calendar_days calendar" "sorted (map ts ms)" "\<forall>m \<in> set ms. ts m \<noteq> 0"
  shows "length (filter si_showDateSeparator (buildChatMessageSurfaceItems calendar ts gap ms))
    = card ((\<lambda>m. calendar (ts m)) ` set ms)"
proof -
  let ?k = "map (\<lambda>m. calendar (ts m)) ms"
  have "changes (Some []) ?k = card (set ?k)"
  proof (cases ms)
    case (Cons m ms')
    have "blocks ?k"
      unfolding blocks_def
    proof (intro allI impI)
      fix i j k assume ijk: "i \<le> j" "j \<le> k" "k < length ?k" "?k ! i = ?k ! k"
      have "ts (ms ! i) \<le> ts (ms ! j)" "ts (ms ! j) \<le> ts (ms ! k)"
        using sorted_nth_mono [OF assms(2), of i j] sorted_nth_mono [OF assms(2), of j k] ijk by simp_all
      then show "?k ! j = ?k ! i" using assms(1) ijk by (simp add: calendar_days_def)
    qed
    moreover have "calendar (ts m) \<noteq> []" using assms(1) by (simp add: calendar_days_def)
    ultimately show ?thesis using changes_blocks [of "calendar (ts m)" "map (\<lambda>m. calendar (ts m)) ms'"] Cons by simp
  qed simp
  then show ?thesis using surface_separators [OF assms(3)] assms(1) by (simp add: calendar_days_def)
qed

theorem one_separator_per_day_witness:
  "length (filter si_showDateSeparator (buildChatMessageSurfaceItems (\<lambda>t. if t < 10 then ''mon'' else ''tue'')
     (\<lambda>m. int (length (ulid_of m))) DEFAULT_MESSAGE_TIME_GROUP_GAP_MS
     [plain_message ''a'' ''x'', plain_message ''aa'' ''y'', plain_message ''aaaaaaaaaaa'' ''z'']))
   = card {''mon'', ''tue''}"
proof -
  have "calendar_days (\<lambda>t. if t < 10 then ''mon'' else ''tue'')" by (auto simp: calendar_days_def)
  from one_separator_per_day [OF this, of "\<lambda>m. int (length (ulid_of m))"
      "[plain_message ''a'' ''x'', plain_message ''aa'' ''y'', plain_message ''aaaaaaaaaaa'' ''z'']"]
  show ?thesis by (simp add: plain_message_def ulid_of_def or_empty_def insert_commute)
qed

section \<open>Thread previews\<close>

lemma preview_index:
  "fold (\<lambda>m acc. if thread_reply r m then map_set (ulid_of m) m acc else acc) ms []
     = index_by ulid_of (filter (thread_reply r) ms)"
  unfolding index_by_def fold_filter by (rule fold_cong) auto

lemma index_by_values:
  "set (map_values (index_by key ms)) \<subseteq> set ms" "key ` set (map_values (index_by key ms)) = key ` set ms"
proof -
  have v: "v \<in> set (map_values (index_by key ms)) \<longleftrightarrow> find (\<lambda>m. key m = key v) (rev ms) = Some v" for v
    using keyed_values(2) [OF keyed_index, of v key ms] by (simp add: index_by_get)
  show sub: "set (map_values (index_by key ms)) \<subseteq> set ms"
  proof
    fix v assume "v \<in> set (map_values (index_by key ms))"
    then show "v \<in> set ms" using v [of v] find_Some_in [of "\<lambda>m. key m = key v" "rev ms" v] by simp
  qed
  have "key m \<in> key ` set (map_values (index_by key ms))" if "m \<in> set ms" for m
  proof -
    have "find (\<lambda>x. key x = key m) (rev ms) \<noteq> None" using that by (auto simp: find_None_iff)
    then obtain w where w: "find (\<lambda>x. key x = key m) (rev ms) = Some w" by blast
    then have "key w = key m" using find_Some_in by fast
    moreover from this w have "w \<in> set (map_values (index_by key ms))" by (simp add: v)
    ultimately show ?thesis by (metis imageI)
  qed
  then have "key ` set ms \<subseteq> key ` set (map_values (index_by key ms))" by (rule image_subsetI)
  then show "key ` set (map_values (index_by key ms)) = key ` set ms"
    using image_mono [OF sub] by (rule subset_antisym [rotated])
qed

lemma latest_of_index:
  fixes collate :: "string \<Rightarrow> 'k::linorder"
  assumes "limit > 0"
    and shown: "shown = (let s = sort_key (message_order collate ts) (map_values (index_by ulid_of rs)) in
      drop (nat (max 0 (int (length s) - limit))) s)"
  shows "set shown \<subseteq> set rs" "distinct (map ulid_of shown)" "sorted (map (message_order collate ts) shown)"
    "length shown = min (nat limit) (card (ulid_of ` set rs))"
    "\<forall>u \<in> ulid_of ` set rs - ulid_of ` set shown. \<exists>m \<in> set rs. ulid_of m = u \<and>
       (\<forall>s \<in> set shown. message_order collate ts m \<le> message_order collate ts s)"
proof -
  let ?v = "map_values (index_by ulid_of rs)"
  let ?s = "sort_key (message_order collate ts) ?v"
  let ?n = "nat (max 0 (int (length ?s) - limit))"
  have shown: "shown = drop ?n ?s" using shown by (simp add: Let_def)
  have dist: "distinct (map ulid_of ?v)" using keyed_values(1) [OF keyed_index] .
  then show "distinct (map ulid_of shown)"
    unfolding shown drop_map [symmetric] by (simp add: distinct_map_sort_key distinct_drop del: drop_map)
  show "sorted (map (message_order collate ts) shown)"
    unfolding shown drop_map [symmetric] by (simp add: sorted_wrt_drop del: drop_map)
  have "card (ulid_of ` set ?v) = length ?v" using distinct_card [OF dist] by simp
  then have "length ?v = card (ulid_of ` set rs)" by (simp add: index_by_values(2))
  then show "length shown = min (nat limit) (card (ulid_of ` set rs))" using assms(1) by (auto simp: shown)
  show "set shown \<subseteq> set rs"
    using index_by_values(1) [of ulid_of rs] set_drop_subset [of ?n ?s] unfolding shown by auto
  show "\<forall>u \<in> ulid_of ` set rs - ulid_of ` set shown. \<exists>m \<in> set rs. ulid_of m = u \<and>
       (\<forall>s \<in> set shown. message_order collate ts m \<le> message_order collate ts s)"
  proof
    fix u assume u: "u \<in> ulid_of ` set rs - ulid_of ` set shown"
    then have "u \<in> ulid_of ` set ?v" by (simp add: index_by_values(2))
    then obtain m where m: "m \<in> set ?v" "ulid_of m = u" by blast
    then have "m \<in> set (take ?n ?s) \<union> set (drop ?n ?s)" by (metis append_take_drop_id set_append set_sort)
    then have "m \<in> set (take ?n ?s)" using u m(2) shown by auto
    then have "\<forall>s \<in> set shown. message_order collate ts m \<le> message_order collate ts s"
      using take_sorted_prefix_le [of "message_order collate ts" ?s m ?n] unfolding shown by simp
    then show "\<exists>m \<in> set rs. ulid_of m = u \<and> (\<forall>s \<in> set shown. message_order collate ts m \<le> message_order collate ts s)"
      using m index_by_values(1) [of ulid_of rs] by blast
  qed
qed

text \<open>
  The preview of a thread shows the latest replies: messages of the thread, each once, in the
  order of time and identifier, as many as there are up to the limit, and every reply it leaves out
  comes before all it shows.
\<close>

theorem thread_preview_latest:
  fixes collate :: "string \<Rightarrow> 'k::linorder"
  assumes "rootUlid \<noteq> []" "limit > 0"
  shows "let replies = filter (thread_reply rootUlid) (current @ loaded);
      shown = collectChatThreadPreviewMessages collate ts limit rootUlid current loaded in
    set shown \<subseteq> set replies \<and> distinct (map ulid_of shown) \<and> sorted (map (message_order collate ts) shown) \<and>
    length shown = min (nat limit) (card (ulid_of ` set replies)) \<and>
    (\<forall>u \<in> ulid_of ` set replies - ulid_of ` set shown. \<exists>m \<in> set replies. ulid_of m = u \<and>
       (\<forall>s \<in> set shown. message_order collate ts m \<le> message_order collate ts s))"
proof -
  have "collectChatThreadPreviewMessages collate ts limit rootUlid current loaded =
      (let s = sort_key (message_order collate ts)
                 (map_values (index_by ulid_of (filter (thread_reply rootUlid) (current @ loaded)))) in
       drop (nat (max 0 (int (length s) - limit))) s)"
    unfolding collectChatThreadPreviewMessages_def preview_index using assms by (simp add: Let_def)
  from latest_of_index [OF assms(2) this] show ?thesis unfolding Let_def by blast
qed

theorem thread_preview_latest_witness:
  "let reply = (\<lambda>u. (plain_message u ''x'')\<lparr>cm_threadRootUlid := Some ''r''\<rparr>) in
   length (collectChatThreadPreviewMessages id (\<lambda>_. 0) 2 ''r'' [reply ''a'', reply ''b''] [reply ''c'', reply ''a'']) = 2"
proof -
  have three: "card (ulid_of ` set (filter (thread_reply ''r'')
      ([(plain_message ''a'' ''x'')\<lparr>cm_threadRootUlid := Some ''r''\<rparr>, (plain_message ''b'' ''x'')\<lparr>cm_threadRootUlid := Some ''r''\<rparr>]
       @ [(plain_message ''c'' ''x'')\<lparr>cm_threadRootUlid := Some ''r''\<rparr>, (plain_message ''a'' ''x'')\<lparr>cm_threadRootUlid := Some ''r''\<rparr>]))) = 3"
    by code_simp
  show ?thesis
    using thread_preview_latest [of "''r''" 2
        "[(plain_message ''a'' ''x'')\<lparr>cm_threadRootUlid := Some ''r''\<rparr>, (plain_message ''b'' ''x'')\<lparr>cm_threadRootUlid := Some ''r''\<rparr>]"
        "[(plain_message ''c'' ''x'')\<lparr>cm_threadRootUlid := Some ''r''\<rparr>, (plain_message ''a'' ''x'')\<lparr>cm_threadRootUlid := Some ''r''\<rparr>]"
        id "\<lambda>_. 0", unfolded Let_def three] by (simp add: Let_def)
qed

section \<open>Lists of conversations\<close>

text \<open>Sticky conversations first, then the latest, and the order of the input among equals.\<close>

lemma conversation_items_order:
  "sorted_wrt (\<lambda>a b. (is_sticky (ci_preference b) \<longrightarrow> is_sticky (ci_preference a)) \<and>
       (is_sticky (ci_preference a) = is_sticky (ci_preference b) \<longrightarrow> ci_updatedAt b \<le> ci_updatedAt a))
     (buildChatConversationSurfaceItems query pref search unread updated conversations)"
proof -
  have "sorted (map conversation_rank (buildChatConversationSurfaceItems query pref search unread updated conversations))"
    by (simp add: buildChatConversationSurfaceItems_def Let_def)
  then show ?thesis
    unfolding sorted_wrt_map by (rule sorted_wrt_mono_rel [rotated]) (auto simp: conversation_rank_def split: if_splits)
qed

lemma projected_conversations:
  "sorted (map (im_conversation_rank collate) (projectIMConversations collate inputs))"
  "mset (projectIMConversations collate inputs) =
     mset (map projectIMConversation (filter (\<lambda>i. ici_hidden i \<noteq> Some True) inputs))"
  by (simp_all add: projectIMConversations_def filter_map o_def projectIMConversation_def Let_def)

lemma whole_count_cases: "whole_count n = PosInf \<or> (\<exists>k :: nat. whole_count n = Num (of_nat k))"
proof (cases n)
  case (Num q)
  have "max 0 (of_int \<lfloor>q\<rfloor>) = (of_nat (nat \<lfloor>q\<rfloor>) :: rat)" by (cases "\<lfloor>q\<rfloor> \<ge> 0") (simp_all add: max_def)
  then show ?thesis using Num by (auto simp: whole_count_def)
qed (auto simp: whole_count_def intro: exI [of _ 0])

lemma muted_conversations_silent:
  "ici_muted i = Some True \<or> ici_alertEnabled i = Some False \<Longrightarrow> ic_visibleUnread (projectIMConversation i) = Num 0"
  "ici_muted i \<noteq> Some True \<Longrightarrow> ici_alertEnabled i \<noteq> Some False \<Longrightarrow>
     ic_visibleUnread (projectIMConversation i) = ic_unread (projectIMConversation i)"
  by (auto simp: projectIMConversation_def visibleChatConversationUnread_def chatConversationSuppressesAlerts_def Let_def)

lemma thread_surface_display:
  "ts_displayMessages (buildChatThreadSurface r cur loaded) =
     (case ts_rootMessage (buildChatThreadSurface r cur loaded) of
        None \<Rightarrow> [] | Some m \<Rightarrow> m # ts_replies (buildChatThreadSurface r cur loaded))"
  "ts_rootMessage (buildChatThreadSurface r cur loaded) = Some m \<Longrightarrow>
     \<forall>x \<in> set (ts_replies (buildChatThreadSurface r cur loaded)). cm_ulid x \<noteq> cm_ulid m"
  by (auto simp: buildChatThreadSurface_def Let_def split: option.splits)

end
