(* ===== verification/Storage_Cache.thy ===== *)
theory Storage_Cache
  imports Prelude "HOL-Library.Char_ord"
begin

text \<open>
  The client storage kernel, \<^verbatim>\<open>packages/client-storage/src/index.ts\<close>: cache entries scoped by
  application, station, actor, device, session, process and domain over a platform key-value store.

  A stored text is represented by what \<^verbatim>\<open>JSON.parse\<close> makes of it: an object read as a partial
  envelope (a field that is absent, or of another type than the code tests for, is \<open>None\<close>), or some
  other text.  A platform store is a state with four operations; \<^verbatim>\<open>setItem\<close> may be refused, for
  instance by a quota, which is \<open>None\<close>.
\<close>

section \<open>Domains\<close>

datatype domain_id =
    AssetAvatar | ChatConversationSettings | ChatMessage | ChatMessageFlag | ConfigPreference
  | CryptoSenderKeyLedger | IdentityTrust | ProfilePeer | StationRegistry | RuntimeProjection
  | AgentConversation | AgentMessage | AgentTurnEvent | AgentCursor

fun domain_name :: "domain_id \<Rightarrow> string" where
  "domain_name AssetAvatar = ''asset.avatar''"
| "domain_name ChatConversationSettings = ''chat.conversation-settings''"
| "domain_name ChatMessage = ''chat.message''"
| "domain_name ChatMessageFlag = ''chat.message-flag''"
| "domain_name ConfigPreference = ''config.preference''"
| "domain_name CryptoSenderKeyLedger = ''crypto.sender-key-ledger''"
| "domain_name IdentityTrust = ''identity.trust''"
| "domain_name ProfilePeer = ''profile.peer''"
| "domain_name StationRegistry = ''station.registry''"
| "domain_name RuntimeProjection = ''runtime.projection''"
| "domain_name AgentConversation = ''agent.conversation''"
| "domain_name AgentMessage = ''agent.message''"
| "domain_name AgentTurnEvent = ''agent.turn-event''"
| "domain_name AgentCursor = ''agent.cursor''"

datatype scope_level = LevelApp | LevelStation | LevelActor | LevelDevice | LevelSession | LevelProcess

record storage_domain =
  sd_id :: domain_id
  sd_scope :: scope_level
  sd_ttlMs :: "int option"
  sd_persistent :: bool

definition actor_domain :: "domain_id \<Rightarrow> int option \<Rightarrow> storage_domain" where
  "actor_domain d ttl = \<lparr>sd_id = d, sd_scope = LevelActor, sd_ttlMs = ttl, sd_persistent = True\<rparr>"

definition CLIENT_STORAGE_DOMAINS :: "storage_domain list" where
  "CLIENT_STORAGE_DOMAINS =
     [actor_domain AssetAvatar (Some (7 * 24 * 60 * 60 * 1000)),
      actor_domain ChatConversationSettings (Some (24 * 60 * 60 * 1000)),
      actor_domain ChatMessage None,
      actor_domain ChatMessageFlag None,
      actor_domain ConfigPreference None,
      actor_domain CryptoSenderKeyLedger None,
      actor_domain IdentityTrust None,
      actor_domain ProfilePeer (Some (30 * 60 * 1000)),
      \<lparr>sd_id = StationRegistry, sd_scope = LevelApp, sd_ttlMs = None, sd_persistent = True\<rparr>,
      \<lparr>sd_id = RuntimeProjection, sd_scope = LevelSession, sd_ttlMs = Some (5 * 60 * 1000), sd_persistent = False\<rparr>,
      actor_domain AgentConversation None,
      actor_domain AgentMessage None,
      actor_domain AgentTurnEvent None,
      actor_domain AgentCursor None]"

definition domain_ttl :: "domain_id \<Rightarrow> int option" where
  "domain_ttl d = (case find (\<lambda>p. sd_id p = d) CLIENT_STORAGE_DOMAINS of None \<Rightarrow> None | Some p \<Rightarrow> sd_ttlMs p)"

section \<open>Keys\<close>

record storage_scope =
  sc_app :: string
  sc_station :: "string option"
  sc_actor :: "string option"
  sc_device :: "string option"
  sc_session :: "string option"
  sc_process :: "string option"

definition ROOT_PREFIX :: string where
  "ROOT_PREFIX = ''peers-touch.client-storage.v1''"

definition safe_char :: "char \<Rightarrow> bool" where
  "safe_char c \<longleftrightarrow> (CHR ''a'' \<le> c \<and> c \<le> CHR ''z'') \<or> (CHR ''A'' \<le> c \<and> c \<le> CHR ''Z'')
     \<or> (CHR ''0'' \<le> c \<and> c \<le> CHR ''9'') \<or> c \<in> {CHR ''.'', CHR ''_'', CHR ''-''}"

definition safeSegment :: "string \<Rightarrow> string" where
  "safeSegment value =
     (let trimmed = js_trim value in
      if trimmed = [] then ''_''
      else take 160 (map (\<lambda>c. if safe_char c then c else CHR ''_'') trimmed))"

definition or_default :: "string option \<Rightarrow> string \<Rightarrow> string" where
  "or_default x d = (case x of None \<Rightarrow> d | Some s \<Rightarrow> s)"

definition scope_segments :: "storage_scope \<Rightarrow> string list" where
  "scope_segments scope =
     [safeSegment (sc_app scope), safeSegment (or_default (sc_station scope) ''station''),
      safeSegment (or_default (sc_actor scope) ''actor''), safeSegment (or_default (sc_device scope) ''device''),
      safeSegment (or_default (sc_session scope) ''session''), safeSegment (or_default (sc_process scope) ''process'')]"

definition domainStoragePrefix :: "storage_scope \<Rightarrow> domain_id \<Rightarrow> string" where
  "domainStoragePrefix scope domain =
     join_with '':'' (ROOT_PREFIX # scope_segments scope @ [safeSegment (domain_name domain)])"

definition scopedStorageKey :: "storage_scope \<Rightarrow> domain_id \<Rightarrow> string \<Rightarrow> string" where
  "scopedStorageKey scope domain key = domainStoragePrefix scope domain @ '':'' @ safeSegment key"

definition safeStorageKey :: "string list \<Rightarrow> string" where
  "safeStorageKey parts = join_with ''.'' (filter (\<lambda>s. s \<noteq> []) (map safeSegment parts))"

section \<open>Envelopes\<close>

record 'v partial_envelope =
  pe_schemaVersion :: "int option"
  pe_domain :: "string option"
  pe_key :: "string option"
  pe_scope :: "storage_scope option"
  pe_value :: "'v option"
  pe_cachedAt :: "int option"
  pe_expiresAt :: "int option"
  pe_revision :: "string option"
  pe_cursor :: "string option"
  pe_stale :: "bool option"

datatype 'v raw = EnvelopeText "'v partial_envelope" | OtherText string

definition CLIENT_STORAGE_SCHEMA_VERSION :: int where
  "CLIENT_STORAGE_SCHEMA_VERSION = 1"

definition parseEnvelope :: "'v raw \<Rightarrow> domain_id \<Rightarrow> string \<Rightarrow> 'v partial_envelope option" where
  "parseEnvelope text domain key =
     (case text of
        OtherText _ \<Rightarrow> None
      | EnvelopeText parsed \<Rightarrow>
          if pe_schemaVersion parsed \<noteq> Some CLIENT_STORAGE_SCHEMA_VERSION then None
          else if pe_domain parsed \<noteq> Some (domain_name domain) \<or> pe_key parsed \<noteq> Some key then None
          else if pe_value parsed = None \<or> pe_cachedAt parsed = None then None
          else Some parsed)"

section \<open>The cache store\<close>

record ('s, 'v) adapter =
  ad_getItem :: "'s \<Rightarrow> string \<Rightarrow> 'v raw option"
  ad_setItem :: "'s \<Rightarrow> string \<Rightarrow> 'v raw \<Rightarrow> 's option"
  ad_removeItem :: "'s \<Rightarrow> string \<Rightarrow> 's"
  ad_keys :: "('s \<Rightarrow> string \<Rightarrow> string list) option"

record 'v read_result =
  rr_envelope :: "'v partial_envelope option"
  rr_hit :: bool
  rr_stale :: bool

definition cache_miss :: "'v read_result" where
  "cache_miss = \<lparr>rr_envelope = None, rr_hit = False, rr_stale = False\<rparr>"

definition expired :: "int \<Rightarrow> 'v partial_envelope \<Rightarrow> bool" where
  "expired now env \<longleftrightarrow> (case pe_expiresAt env of None \<Rightarrow> False | Some e \<Rightarrow> e \<noteq> 0 \<and> e \<le> now)"

definition cache_read ::
  "('s, 'v) adapter \<Rightarrow> storage_scope \<Rightarrow> int \<Rightarrow> 's \<Rightarrow> domain_id \<Rightarrow> string \<Rightarrow> 'v read_result" where
  "cache_read A scope now s domain key =
     (case ad_getItem A s (scopedStorageKey scope domain key) of
        None \<Rightarrow> cache_miss
      | Some text \<Rightarrow>
          (case parseEnvelope text domain key of
             None \<Rightarrow> cache_miss
           | Some env \<Rightarrow>
               \<lparr>rr_envelope = Some env, rr_hit = True, rr_stale = (pe_stale env = Some True \<or> expired now env)\<rparr>))"

text \<open>\<open>wo_ttlMs\<close> distinguishes an absent time to live from the value \<^verbatim>\<open>null\<close>.\<close>

record write_options =
  wo_cachedAt :: "int option"
  wo_ttlMs :: "int option option"
  wo_revision :: "string option"
  wo_cursor :: "string option"
  wo_stale :: "bool option"

definition NO_WRITE_OPTIONS :: write_options where
  "NO_WRITE_OPTIONS = \<lparr>wo_cachedAt = None, wo_ttlMs = None, wo_revision = None, wo_cursor = None, wo_stale = None\<rparr>"

definition set_or_none :: "string option \<Rightarrow> string option" where
  "set_or_none x = (case x of Some (c # s) \<Rightarrow> Some (c # s) | _ \<Rightarrow> None)"

definition make_envelope ::
  "storage_scope \<Rightarrow> int \<Rightarrow> domain_id \<Rightarrow> string \<Rightarrow> 'v \<Rightarrow> write_options \<Rightarrow> 'v partial_envelope" where
  "make_envelope scope now domain key value opts =
     (let cachedAt = (case wo_cachedAt opts of None \<Rightarrow> now | Some t \<Rightarrow> t);
          ttlMs = (case wo_ttlMs opts of None \<Rightarrow> domain_ttl domain | Some t \<Rightarrow> t) in
      \<lparr>pe_schemaVersion = Some CLIENT_STORAGE_SCHEMA_VERSION, pe_domain = Some (domain_name domain),
       pe_key = Some key, pe_scope = Some scope, pe_value = Some value, pe_cachedAt = Some cachedAt,
       pe_expiresAt = map_option (\<lambda>t. cachedAt + t) ttlMs,
       pe_revision = set_or_none (wo_revision opts), pe_cursor = set_or_none (wo_cursor opts),
       pe_stale = wo_stale opts\<rparr>)"

definition cache_write ::
  "('s, 'v) adapter \<Rightarrow> storage_scope \<Rightarrow> int \<Rightarrow> 's \<Rightarrow> domain_id \<Rightarrow> string \<Rightarrow> 'v \<Rightarrow> write_options
    \<Rightarrow> ('v partial_envelope \<times> 's) option" where
  "cache_write A scope now s domain key value opts =
     (let env = make_envelope scope now domain key value opts in
      map_option (\<lambda>s'. (env, s')) (ad_setItem A s (scopedStorageKey scope domain key) (EnvelopeText env)))"

definition cache_remove :: "('s, 'v) adapter \<Rightarrow> storage_scope \<Rightarrow> 's \<Rightarrow> domain_id \<Rightarrow> string \<Rightarrow> 's" where
  "cache_remove A scope s domain key = ad_removeItem A s (scopedStorageKey scope domain key)"

definition invalidateDomain :: "('s, 'v) adapter \<Rightarrow> storage_scope \<Rightarrow> 's \<Rightarrow> domain_id \<Rightarrow> 's" where
  "invalidateDomain A scope s domain =
     (let keys = (case ad_keys A of None \<Rightarrow> [] | Some f \<Rightarrow> f s (domainStoragePrefix scope domain)) in
      foldl (ad_removeItem A) s keys)"

definition invalidateDomains :: "('s, 'v) adapter \<Rightarrow> storage_scope \<Rightarrow> 's \<Rightarrow> domain_id list \<Rightarrow> 's" where
  "invalidateDomains A scope s domains = foldl (invalidateDomain A scope) s domains"

definition invalidateSession :: "('s, 'v) adapter \<Rightarrow> storage_scope \<Rightarrow> 's \<Rightarrow> 's" where
  "invalidateSession A scope s =
     invalidateDomains A scope s
       (map sd_id (filter (\<lambda>d. sd_scope d = LevelSession \<or> sd_scope d = LevelProcess) CLIENT_STORAGE_DOMAINS))"

section \<open>Repositories\<close>

record ('s, 't) repository =
  rp_readValue :: "'s \<Rightarrow> string \<Rightarrow> 't option"
  rp_write :: "'s \<Rightarrow> string \<Rightarrow> 't \<Rightarrow> 's option"
  rp_remove :: "'s \<Rightarrow> string \<Rightarrow> 's"
  rp_invalidate :: "'s \<Rightarrow> 's"

definition createDomainRepository ::
  "('s, 'v) adapter \<Rightarrow> storage_scope \<Rightarrow> int \<Rightarrow> domain_id \<Rightarrow> ('s, 'v) repository" where
  "createDomainRepository A scope now domain =
     \<lparr>rp_readValue = (\<lambda>s key. Option.bind (rr_envelope (cache_read A scope now s domain key)) pe_value),
      rp_write = (\<lambda>s key value. map_option snd (cache_write A scope now s domain key value NO_WRITE_OPTIONS)),
      rp_remove = (\<lambda>s key. cache_remove A scope s domain key),
      rp_invalidate = (\<lambda>s. invalidateDomain A scope s domain)\<rparr>"

section \<open>The adapter over a browser store\<close>

text \<open>
  \<open>fits\<close> says which contents the store accepts.  Without a store, reads find nothing and writes are
  dropped without an error.
\<close>

type_synonym 'v browser_store = "(string, 'v raw) jsmap option"

definition createLocalStorageAdapter :: "((string, 'v raw) jsmap \<Rightarrow> bool) \<Rightarrow> ('v browser_store, 'v) adapter" where
  "createLocalStorageAdapter fits =
     \<lparr>ad_getItem = (\<lambda>st key. Option.bind st (\<lambda>m. map_get m key)),
      ad_setItem = (\<lambda>st key v. case st of None \<Rightarrow> Some None
                     | Some m \<Rightarrow> if fits (map_set key v m) then Some (Some (map_set key v m)) else None),
      ad_removeItem = (\<lambda>st key. map_option (map_del key) st),
      ad_keys = Some (\<lambda>st prefix. case st of None \<Rightarrow> [] | Some m \<Rightarrow> filter (starts_with prefix) (map_keys m))\<rparr>"

section \<open>Texts joined by colons\<close>

definition colon_free :: "string \<Rightarrow> bool" where
  "colon_free s \<longleftrightarrow> CHR '':'' \<notin> set s"

lemma append_colon_eq:
  "colon_free x \<Longrightarrow> colon_free y \<Longrightarrow> x @ CHR '':'' # s = y @ CHR '':'' # t \<longleftrightarrow> x = y \<and> s = t"
  unfolding colon_free_def
proof (induction x arbitrary: y)
  case Nil
  then show ?case by (cases y) auto
next
  case (Cons c x)
  then show ?case by (cases y) auto
qed

lemma starts_with_append_same [simp]: "starts_with (p @ a) (p @ b) \<longleftrightarrow> starts_with a b"
  by (auto simp: starts_with_iff)

lemma starts_with_Nil [simp]: "starts_with [] s"
  by (simp add: starts_with_def)

lemma starts_with_Cons [simp]: "starts_with (c # p) (d # s) \<longleftrightarrow> c = d \<and> starts_with p s"
  by (auto simp: starts_with_def)

lemma starts_with_colon:
  "colon_free x \<Longrightarrow> colon_free y \<Longrightarrow>
     starts_with (x @ CHR '':'' # p) (y @ CHR '':'' # s) \<longleftrightarrow> x = y \<and> starts_with p s"
  unfolding starts_with_iff append_assoc append_Cons append_colon_eq by auto

lemma starts_with_last: "colon_free x \<Longrightarrow> starts_with x (y @ CHR '':'' # s) \<longleftrightarrow> starts_with x y"
  unfolding colon_free_def
proof (induction x arbitrary: y)
  case (Cons c x)
  then show ?case by (cases y) (auto simp: starts_with_def)
qed simp

lemma join_colon_Cons: "xs \<noteq> [] \<Longrightarrow> join_with '':'' (x # xs) = x @ CHR '':'' # join_with '':'' xs"
  by (cases xs) simp_all

lemma join_colon_snoc: "xs \<noteq> [] \<Longrightarrow> join_with '':'' (xs @ [x]) = join_with '':'' xs @ CHR '':'' # x"
proof (induction xs)
  case (Cons y ys)
  then show ?case by (cases ys) (simp_all add: join_colon_Cons)
qed simp

lemma join_prefix:
  assumes "length xs = length ys" "list_all colon_free xs" "list_all colon_free ys" "colon_free x"
  shows "starts_with (join_with '':'' (xs @ [x])) (join_with '':'' (ys @ [y, z])) \<longleftrightarrow> xs = ys \<and> starts_with x y"
  using assms
proof (induction xs ys rule: list_induct2)
  case Nil
  then show ?case by (simp add: starts_with_last)
next
  case (Cons a xs b ys)
  then show ?case by (auto simp: join_colon_Cons starts_with_colon)
qed

lemma join_inj:
  assumes "length xs = length ys" "list_all colon_free xs" "list_all colon_free ys" "join_with '':'' xs = join_with '':'' ys"
  shows "xs = ys"
  using assms
proof (induction xs ys rule: list_induct2)
  case (Cons a xs b ys)
  show ?case
  proof (cases "xs = []")
    case True
    then show ?thesis using Cons by simp
  next
    case False
    then have "ys \<noteq> []" using Cons.hyps by auto
    then show ?thesis using Cons False by (simp add: join_colon_Cons append_colon_eq)
  qed
qed simp

section \<open>Keys of plain scopes\<close>

text \<open>
  A plain segment is its own sanitised form; a plain scope has plain components, none of which is the
  name that stands for an absent one.
\<close>

definition plain :: "string \<Rightarrow> bool" where
  "plain s \<longleftrightarrow> safeSegment s = s"

definition plain_part :: "string option \<Rightarrow> string \<Rightarrow> bool" where
  "plain_part x d \<longleftrightarrow> (case x of None \<Rightarrow> True | Some s \<Rightarrow> plain s \<and> s \<noteq> d)"

definition plain_scope :: "storage_scope \<Rightarrow> bool" where
  "plain_scope sc \<longleftrightarrow> plain (sc_app sc) \<and> plain_part (sc_station sc) ''station'' \<and> plain_part (sc_actor sc) ''actor''
     \<and> plain_part (sc_device sc) ''device'' \<and> plain_part (sc_session sc) ''session'' \<and> plain_part (sc_process sc) ''process''"

lemma safe_colon_free: "colon_free (safeSegment s)"
proof -
  have "\<not> safe_char (CHR '':'')" by code_simp
  then show ?thesis by (auto simp: colon_free_def safeSegment_def Let_def dest!: in_set_takeD split: if_splits)
qed

lemma domain_plain [simp]: "safeSegment (domain_name d) = domain_name d"
  by (induction d; code_simp)

lemma domain_name_inj [simp]: "domain_name d = domain_name d' \<longleftrightarrow> d = d'"
  by (cases d; cases d'; simp)

lemma default_part_inj:
  assumes "plain_part x d" "plain_part y d" "safeSegment d = d" "safeSegment (or_default x d) = safeSegment (or_default y d)"
  shows "x = y"
  using assms by (auto simp: plain_part_def plain_def or_default_def split: option.splits)

lemma default_segments: "safeSegment ''station'' = ''station''" "safeSegment ''actor'' = ''actor''"
  "safeSegment ''device'' = ''device''" "safeSegment ''session'' = ''session''" "safeSegment ''process'' = ''process''"
  by code_simp+

lemma scope_segments_inj:
  assumes "plain_scope a" "plain_scope b" "scope_segments a = scope_segments b"
  shows "a = b"
proof (rule storage_scope.equality)
  show "sc_app a = sc_app b" using assms by (simp add: plain_scope_def plain_def scope_segments_def)
  show "sc_station a = sc_station b" "sc_actor a = sc_actor b" "sc_device a = sc_device b"
    "sc_session a = sc_session b" "sc_process a = sc_process b"
    using assms default_segments by (auto simp: plain_scope_def scope_segments_def intro: default_part_inj)
qed simp

lemma scope_segments_colon_free: "list_all colon_free (scope_segments sc)"
  by (simp add: scope_segments_def safe_colon_free)

lemma root_colon_free: "colon_free ROOT_PREFIX"
  by code_simp

lemma storage_key_join:
  "scopedStorageKey sc d k = join_with '':'' ((ROOT_PREFIX # scope_segments sc) @ [domain_name d, safeSegment k])"
proof -
  have "join_with '':'' ((ROOT_PREFIX # scope_segments sc @ [domain_name d]) @ [safeSegment k]) =
      join_with '':'' (ROOT_PREFIX # scope_segments sc @ [domain_name d]) @ CHR '':'' # safeSegment k"
    by (rule join_colon_snoc) simp
  then show ?thesis by (simp add: scopedStorageKey_def domainStoragePrefix_def)
qed

lemma domain_colon_free: "colon_free (domain_name d)"
  using safe_colon_free [of "domain_name d"] by simp

lemma storage_key_prefix:
  "starts_with (domainStoragePrefix sc d) (scopedStorageKey sc' d' k) \<longleftrightarrow>
     scope_segments sc = scope_segments sc' \<and> starts_with (domain_name d) (domain_name d')"
proof -
  have "domainStoragePrefix sc d = join_with '':'' ((ROOT_PREFIX # scope_segments sc) @ [domain_name d])"
    by (simp add: domainStoragePrefix_def)
  then show ?thesis
    unfolding storage_key_join
    using join_prefix [of "ROOT_PREFIX # scope_segments sc" "ROOT_PREFIX # scope_segments sc'" "domain_name d"
        "domain_name d'" "safeSegment k"]
    by (simp add: scope_segments_colon_free root_colon_free domain_colon_free) (simp add: scope_segments_def)
qed

lemma storage_key_inj:
  assumes "scopedStorageKey sc d k = scopedStorageKey sc' d' k'"
  shows "scope_segments sc = scope_segments sc'" "d = d'" "safeSegment k = safeSegment k'"
proof -
  have len: "length (scope_segments sc) = length (scope_segments sc')" by (simp add: scope_segments_def)
  have "(ROOT_PREFIX # scope_segments sc) @ [domain_name d, safeSegment k] =
      (ROOT_PREFIX # scope_segments sc') @ [domain_name d', safeSegment k']"
    using assms unfolding storage_key_join
    by (intro join_inj) (simp_all add: scope_segments_colon_free root_colon_free domain_colon_free safe_colon_free len)
  then show "scope_segments sc = scope_segments sc'" "d = d'" "safeSegment k = safeSegment k'"
    using len by simp_all
qed

section \<open>The contract of a platform store\<close>

locale storage_adapter =
  fixes A :: "('s, 'v) adapter" and ok :: "'s \<Rightarrow> bool"
  assumes get_set: "ok s \<Longrightarrow> ad_setItem A s k v = Some s' \<Longrightarrow> ok s' \<and> ad_getItem A s' = (ad_getItem A s)(k \<mapsto> v)"
    and get_remove: "ok s \<Longrightarrow> ok (ad_removeItem A s k) \<and> ad_getItem A (ad_removeItem A s k) = (ad_getItem A s)(k := None)"
    and get_keys: "ok s \<Longrightarrow> ad_keys A = Some f \<Longrightarrow> set (f s p) = {k. ad_getItem A s k \<noteq> None \<and> starts_with p k}"
    and has_keys: "ad_keys A \<noteq> None"
begin

lemma remove_many:
  "ok s \<Longrightarrow> ok (foldl (ad_removeItem A) s ks) \<and>
     ad_getItem A (foldl (ad_removeItem A) s ks) = (\<lambda>k. if k \<in> set ks then None else ad_getItem A s k)"
  by (induction ks arbitrary: s) (auto simp: get_remove fun_eq_iff)

lemma invalidate_get:
  assumes "ok s"
  shows "ok (invalidateDomain A sc s d)"
    and "ad_getItem A (invalidateDomain A sc s d) k =
      (if starts_with (domainStoragePrefix sc d) k then None else ad_getItem A s k)"
  using assms has_keys remove_many [OF assms] get_keys [OF assms]
  by (auto simp: invalidateDomain_def)

lemma read_written:
  assumes "ok s" "cache_write A sc now s d k v opts = Some (env, s')"
  shows "ok s'" and "ad_getItem A s' = (ad_getItem A s)(scopedStorageKey sc d k \<mapsto> EnvelopeText env)"
    and "env = make_envelope sc now d k v opts"
  using assms get_set [OF assms(1)] by (auto simp: cache_write_def Let_def)

end

lemma make_envelope_parses: "parseEnvelope (EnvelopeText (make_envelope sc now d k v opts)) d k = Some (make_envelope sc now d k v opts)"
  by (simp add: parseEnvelope_def make_envelope_def Let_def)

lemma parse_other_key:
  "(d', k') \<noteq> (d, k) \<Longrightarrow> parseEnvelope (EnvelopeText (make_envelope sc now d k v opts)) d' k' = None"
  by (auto simp: parseEnvelope_def make_envelope_def Let_def)

section \<open>Histories\<close>

datatype 'v storage_op =
    OpWrite storage_scope int domain_id string 'v write_options
  | OpRemove storage_scope domain_id string
  | OpInvalidate storage_scope domain_id

definition storage_apply :: "('s, 'v) adapter \<Rightarrow> 's \<Rightarrow> 'v storage_op \<Rightarrow> 's" where
  "storage_apply A s op =
     (case op of
        OpWrite sc now d k v opts \<Rightarrow> (case cache_write A sc now s d k v opts of None \<Rightarrow> s | Some (_, s') \<Rightarrow> s')
      | OpRemove sc d k \<Rightarrow> cache_remove A sc s d k
      | OpInvalidate sc d \<Rightarrow> invalidateDomain A sc s d)"

definition refused :: "('s, 'v) adapter \<Rightarrow> 's \<Rightarrow> 'v storage_op \<Rightarrow> bool" where
  "refused A s op =
     (case op of OpWrite sc now d k v opts \<Rightarrow> cache_write A sc now s d k v opts = None | _ \<Rightarrow> False)"

text \<open>The specification: a map from scope, domain and key to the last envelope written there.\<close>

type_synonym 'v cache_spec = "storage_scope \<times> domain_id \<times> string \<Rightarrow> 'v partial_envelope option"

definition spec_apply :: "'v cache_spec \<Rightarrow> 'v storage_op \<Rightarrow> 'v cache_spec" where
  "spec_apply f op =
     (case op of
        OpWrite sc now d k v opts \<Rightarrow> f((sc, d, k) \<mapsto> make_envelope sc now d k v opts)
      | OpRemove sc d k \<Rightarrow> f((sc, d, k) := None)
      | OpInvalidate sc d \<Rightarrow>
          (\<lambda>(sc', d', k'). if sc' = sc \<and> starts_with (domain_name d) (domain_name d') then None else f (sc', d', k')))"

fun run_both :: "('s, 'v) adapter \<Rightarrow> 's \<Rightarrow> 'v cache_spec \<Rightarrow> 'v storage_op list \<Rightarrow> 's \<times> 'v cache_spec" where
  "run_both A s f [] = (s, f)"
| "run_both A s f (op # ops) = run_both A (storage_apply A s op) (if refused A s op then f else spec_apply f op) ops"

fun plain_op :: "'v storage_op \<Rightarrow> bool" where
  "plain_op (OpWrite sc now d k v opts) \<longleftrightarrow> plain_scope sc \<and> plain k"
| "plain_op (OpRemove sc d k) \<longleftrightarrow> plain_scope sc \<and> plain k"
| "plain_op (OpInvalidate sc d) \<longleftrightarrow> plain_scope sc"

definition matches :: "('s, 'v) adapter \<Rightarrow> 's \<Rightarrow> 'v cache_spec \<Rightarrow> bool" where
  "matches A s f \<longleftrightarrow> (\<forall>sc d k now. plain_scope sc \<longrightarrow> plain k \<longrightarrow> rr_envelope (cache_read A sc now s d k) = f (sc, d, k))"

lemma plain_key_inj:
  assumes "plain_scope sc" "plain_scope sc'" "plain k" "plain k'"
  shows "scopedStorageKey sc d k = scopedStorageKey sc' d' k' \<longleftrightarrow> (sc, d, k) = (sc', d', k')"
  using assms storage_key_inj [of sc d k sc' d' k'] scope_segments_inj [of sc sc'] by (auto simp: plain_def)

lemma read_envelope:
  "rr_envelope (cache_read A sc now s d k) =
     Option.bind (ad_getItem A s (scopedStorageKey sc d k)) (\<lambda>t. parseEnvelope t d k)"
  by (auto simp: cache_read_def cache_miss_def split: option.splits)

context storage_adapter
begin

lemma step_matches:
  assumes "ok s" "matches A s f" "plain_op op"
  shows "ok (storage_apply A s op) \<and> matches A (storage_apply A s op) (if refused A s op then f else spec_apply f op)"
proof (cases op)
  case (OpWrite sc now d k v opts)
  show ?thesis
  proof (cases "cache_write A sc now s d k v opts")
    case None
    then show ?thesis using OpWrite assms by (simp add: storage_apply_def refused_def)
  next
    case (Some r)
    then obtain env s' where w: "cache_write A sc now s d k v opts = Some (env, s')" by (cases r) simp
    have "matches A s' (spec_apply f op)"
      unfolding matches_def
    proof (intro allI impI)
      fix sc' d' k' now' assume p: "plain_scope sc'" "plain k'"
      show "rr_envelope (cache_read A sc' now' s' d' k') = spec_apply f op (sc', d', k')"
        using assms(2,3) p OpWrite plain_key_inj [of sc' sc k' k d' d] read_written [OF assms(1) w]
        by (auto simp: read_envelope spec_apply_def matches_def make_envelope_parses)
    qed
    then show ?thesis using w OpWrite read_written(1) [OF assms(1) w] by (simp add: storage_apply_def refused_def)
  qed
next
  case (OpRemove sc d k)
  have "rr_envelope (cache_read A sc' now (storage_apply A s op) d' k') = spec_apply f op (sc', d', k')"
    if "plain_scope sc'" "plain k'" for sc' d' k' now
    using assms that OpRemove plain_key_inj [of sc' sc k' k d' d] get_remove [OF assms(1)]
    by (auto simp: read_envelope spec_apply_def matches_def storage_apply_def cache_remove_def)
  then show ?thesis
    using OpRemove get_remove [OF assms(1)] by (simp add: matches_def storage_apply_def refused_def cache_remove_def)
next
  case (OpInvalidate sc d)
  have "rr_envelope (cache_read A sc' now (storage_apply A s op) d' k') = spec_apply f op (sc', d', k')"
    if "plain_scope sc'" "plain k'" for sc' d' k' now
    using assms that OpInvalidate scope_segments_inj [of sc sc'] invalidate_get(2) [OF assms(1)]
    by (auto simp: read_envelope spec_apply_def matches_def storage_apply_def storage_key_prefix)
  then show ?thesis
    using OpInvalidate invalidate_get(1) [OF assms(1)] by (simp add: matches_def storage_apply_def refused_def)
qed

lemma history_matches:
  assumes "ok s" "matches A s f" "\<forall>op \<in> set ops. plain_op op"
  shows "ok (fst (run_both A s f ops)) \<and> matches A (fst (run_both A s f ops)) (snd (run_both A s f ops))"
  using assms
proof (induction ops arbitrary: s f)
  case (Cons op ops)
  then show ?case using step_matches [OF Cons.prems(1,2), of op] by simp
qed simp

end

interpretation browser: storage_adapter "createLocalStorageAdapter fits" "\<lambda>st. \<exists>m. st = Some m \<and> map_wf m"
  for fits :: "(string, 'v raw) jsmap \<Rightarrow> bool"
  by unfold_locales
    (auto simp: createLocalStorageAdapter_def in_map_keys_get split: if_splits intro!: ext)

text \<open>
  C8.  The storage kernel implements a map.  For kernels of plain scopes that share one browser store,
  after any sequence of writes, removals and invalidations, some of the writes refused, a read of any
  scope, domain and key finds exactly the last envelope written there and not removed since, and
  nothing of another scope, domain or key; where invalidating a domain removes, in its scope, the
  entries of every domain whose name begins with its name.
\<close>

theorem cache_refines_map:
  assumes "\<forall>op \<in> set ops. plain_op op" "plain_scope sc" "plain k"
    and "run_both (createLocalStorageAdapter fits) (Some []) (\<lambda>_. None) ops = (s, f)"
  shows "rr_envelope (cache_read (createLocalStorageAdapter fits) sc now s d k) = f (sc, d, k)"
proof -
  have "matches (createLocalStorageAdapter fits) (Some []) (\<lambda>_. None)"
    by (simp add: matches_def read_envelope createLocalStorageAdapter_def)
  from browser.history_matches [OF _ this assms(1)] show ?thesis
    using assms(2-4) by (simp add: matches_def)
qed

definition demo_scope :: "string \<Rightarrow> storage_scope" where
  "demo_scope actor =
     \<lparr>sc_app = ''mobile'', sc_station = Some ''s1'', sc_actor = Some actor, sc_device = None, sc_session = None,
      sc_process = None\<rparr>"

theorem cache_refines_map_witness:
  "rr_envelope (cache_read (createLocalStorageAdapter (\<lambda>_. True)) (demo_scope ''ann'') 5
     (fst (run_both (createLocalStorageAdapter (\<lambda>_. True)) (Some []) (\<lambda>_. None)
        [OpWrite (demo_scope ''ann'') 1 AgentCursor ''c'' (7::nat) NO_WRITE_OPTIONS,
         OpWrite (demo_scope ''bob'') 2 AgentCursor ''c'' 8 NO_WRITE_OPTIONS])) AgentCursor ''c'')
   = Some (make_envelope (demo_scope ''ann'') 1 AgentCursor ''c'' 7 NO_WRITE_OPTIONS)"
proof -
  let ?ops = "[OpWrite (demo_scope ''ann'') 1 AgentCursor ''c'' (7::nat) NO_WRITE_OPTIONS,
         OpWrite (demo_scope ''bob'') 2 AgentCursor ''c'' 8 NO_WRITE_OPTIONS]"
  let ?r = "run_both (createLocalStorageAdapter (\<lambda>_. True)) (Some []) (\<lambda>_. None) ?ops"
  have plain: "\<forall>op \<in> set ?ops. plain_op op" "plain_scope (demo_scope ''ann'')" "plain ''c''" by code_simp+
  have "snd ?r (demo_scope ''ann'', AgentCursor, ''c'') = Some (make_envelope (demo_scope ''ann'') 1 AgentCursor ''c'' 7 NO_WRITE_OPTIONS)"
    by (simp add: refused_def cache_write_def createLocalStorageAdapter_def spec_apply_def demo_scope_def Let_def
        storage_apply_def)
  then show ?thesis
    using cache_refines_map [OF plain, of "\<lambda>_. True" "fst ?r" "snd ?r" 5 AgentCursor] by simp
qed


text \<open>
  Invalidating the cached messages also removes the message flags: the prefix of the one domain
  is a prefix of the other's.
\<close>

theorem invalidate_overreaches:
  "rr_hit (cache_read (createLocalStorageAdapter (\<lambda>_. True)) (demo_scope ''ann'') 2
     (storage_apply (createLocalStorageAdapter (\<lambda>_. True)) (Some [])
        (OpWrite (demo_scope ''ann'') 1 ChatMessageFlag ''c'' True NO_WRITE_OPTIONS)) ChatMessageFlag ''c'') \<and>
   \<not> rr_hit (cache_read (createLocalStorageAdapter (\<lambda>_. True)) (demo_scope ''ann'') 2
     (storage_apply (createLocalStorageAdapter (\<lambda>_. True))
       (storage_apply (createLocalStorageAdapter (\<lambda>_. True)) (Some [])
          (OpWrite (demo_scope ''ann'') 1 ChatMessageFlag ''c'' True NO_WRITE_OPTIONS))
       (OpInvalidate (demo_scope ''ann'') ChatMessage)) ChatMessageFlag ''c'')"
  by code_simp

section \<open>Freshness\<close>

lemma fresh_until_expiry:
  "rr_stale (cache_read A sc now s d k) \<longleftrightarrow>
     (\<exists>env. rr_envelope (cache_read A sc now s d k) = Some env \<and> (pe_stale env = Some True \<or> expired now env))"
  by (auto simp: cache_read_def cache_miss_def split: option.splits)

lemma session_domains:
  "map sd_id (filter (\<lambda>d. sd_scope d = LevelSession \<or> sd_scope d = LevelProcess) CLIENT_STORAGE_DOMAINS) = [RuntimeProjection]"
  by code_simp

section \<open>The contract of the repositories\<close>

text \<open>
  What a client of the repositories of one kernel relies on: on the keys \<open>K\<close> a write is read back,
  a removal leaves nothing, and neither touches another domain or key.
\<close>

locale repositories =
  fixes repo :: "domain_id \<Rightarrow> ('s, 'v) repository" and ok :: "'s \<Rightarrow> bool" and K :: "string set"
  assumes read_write: "ok s \<Longrightarrow> k \<in> K \<Longrightarrow> rp_write (repo d) s k v = Some s' \<Longrightarrow>
      ok s' \<and> (\<forall>d'. \<forall>k' \<in> K. rp_readValue (repo d') s' k' =
        (if d' = d \<and> k' = k then Some v else rp_readValue (repo d') s k'))"
    and read_remove: "ok s \<Longrightarrow> k \<in> K \<Longrightarrow> ok (rp_remove (repo d) s k) \<and>
      (\<forall>d'. \<forall>k' \<in> K. rp_readValue (repo d') (rp_remove (repo d) s k) k' =
        (if d' = d \<and> k' = k then None else rp_readValue (repo d') s k'))"

lemma same_scope_key_inj:
  "plain k \<Longrightarrow> plain k' \<Longrightarrow> scopedStorageKey sc d k = scopedStorageKey sc d' k' \<longleftrightarrow> d = d' \<and> k = k'"
  using storage_key_inj [of sc d k sc d' k'] by (auto simp: plain_def)

lemma readValue_get:
  "rp_readValue (createDomainRepository A sc now d) s k =
     Option.bind (ad_getItem A s (scopedStorageKey sc d k)) (\<lambda>t. Option.bind (parseEnvelope t d k) pe_value)"
  by (simp add: createDomainRepository_def read_envelope)

interpretation kernel: repositories "createDomainRepository (createLocalStorageAdapter fits) sc now"
    "\<lambda>st. \<exists>m. st = Some m \<and> map_wf m" "{k. plain k}"
  for fits :: "(string, 'v raw) jsmap \<Rightarrow> bool" and sc now
proof (unfold_locales, goal_cases)
  case (1 s k d v s')
  let ?A = "createLocalStorageAdapter fits"
  from 1(3) obtain env where w: "cache_write ?A sc now s d k v NO_WRITE_OPTIONS = Some (env, s')"
    by (auto simp: createDomainRepository_def)
  have "rp_readValue (createDomainRepository ?A sc now d') s' k' =
      (if d' = d \<and> k' = k then Some v else rp_readValue (createDomainRepository ?A sc now d') s k')" if "plain k'" for d' k'
    using same_scope_key_inj [of k' k sc d' d] that 1(2) browser.read_written [OF 1(1) w]
    by (auto simp: readValue_get make_envelope_parses) (simp add: make_envelope_def Let_def)
  then show ?case using browser.read_written(1) [OF 1(1) w] by simp
next
  case (2 s k d)
  then show ?case
    using same_scope_key_inj [of _ k sc _ d] browser.get_remove [OF 2(1)]
    by (auto simp: readValue_get) (auto simp: createDomainRepository_def cache_remove_def)
qed

end
