(* ===== verification/Agent_Cache.thy ===== *)
theory Agent_Cache
  imports Storage_Cache Chat_Media Chat_Replica "HOL-Library.List_Lexorder"
begin

text \<open>
  The local replica of agent conversations, \<^verbatim>\<open>packages/client-chat-core/src/agentChatCache.ts\<close>: merging
  messages and turn events, incremental synchronisation by a cursor, full refresh, live upserts.

  The repositories of the storage kernel are an argument; their state is threaded through.  The
  station's answers are an argument too, \<open>None\<close> a rejected request.  \<open>parse_date\<close> is \<^verbatim>\<open>Date.parse\<close>,
  \<open>None\<close> where it gives no finite number.  An optional field that is not set is absent from the object,
  so that a spread does not overwrite it.
\<close>

section \<open>Messages and events\<close>

datatype agent_role = RoleSystem | RoleUser | RoleAssistant | RoleTool

datatype reconciliation_source = StationList | StationSnapshot

record agent_attachment =
  aa_attachmentId :: string
  aa_objectRef :: string
  aa_mimeType :: string
  aa_sizeBytes :: int
  aa_checksum :: string
  aa_filename :: string
  aa_authorizationScope :: string
  aa_expiresAt :: string
  aa_extractedContentRef :: string

record agent_conversation =
  ac_conversationId :: string
  ac_agentId :: string
  ac_ptid :: string
  ac_title :: string
  ac_description :: "string option"
  ac_providerId :: "string option"
  ac_modelName :: "string option"
  ac_status :: string
  ac_parentId :: "string option"
  ac_activeBranchMessageId :: string
  ac_queuedTurnCount :: int
  ac_version :: int
  ac_createdAt :: string
  ac_updatedAt :: string

record agent_message =
  am_messageId :: string
  am_conversationId :: string
  am_turnId :: "string option"
  am_modelName :: "string option"
  am_role :: agent_role
  am_status :: "string option"
  am_content :: string
  am_seq :: int
  am_branchId :: "string option"
  am_replacesMessageId :: "string option"
  am_reasoningJson :: "string option"
  am_toolCallsJson :: "string option"
  am_metadataJson :: "string option"
  am_errorJson :: "string option"
  am_attachments :: "agent_attachment list option"
  am_reconciliationSource :: "reconciliation_source option"
  am_createdAt :: string
  am_updatedAt :: string

record agent_turn_event =
  te_eventSeq :: int
  te_conversationId :: string
  te_turnId :: string
  te_eventType :: string
  te_payload :: string
  te_createdAt :: string

section \<open>Merging\<close>

definition authority :: "agent_message \<Rightarrow> int" where
  "authority m = (if am_reconciliationSource m = Some StationSnapshot then 1 else 0)"

definition incoming_is_newer :: "(string \<Rightarrow> int option) \<Rightarrow> agent_message \<Rightarrow> agent_message \<Rightarrow> bool" where
  "incoming_is_newer parse_date current incoming \<longleftrightarrow>
     am_seq incoming > am_seq current
     \<or> (am_seq incoming = am_seq current
        \<and> (authority incoming > authority current
           \<or> (authority incoming = authority current
              \<and> (case (parse_date (am_updatedAt current), parse_date (am_updatedAt incoming)) of
                   (Some c, Some i) \<Rightarrow> i \<ge> c
                 | _ \<Rightarrow> True))))"

definition overlay :: "agent_message \<Rightarrow> agent_message \<Rightarrow> agent_message" where
  "overlay fallback authoritative =
     authoritative\<lparr>
       am_turnId := or_else (am_turnId authoritative) (am_turnId fallback),
       am_modelName := or_else (am_modelName authoritative) (am_modelName fallback),
       am_status := or_else (am_status authoritative) (am_status fallback),
       am_branchId := or_else (am_branchId authoritative) (am_branchId fallback),
       am_replacesMessageId := or_else (am_replacesMessageId authoritative) (am_replacesMessageId fallback),
       am_reasoningJson := or_else (am_reasoningJson authoritative) (am_reasoningJson fallback),
       am_toolCallsJson := or_else (am_toolCallsJson authoritative) (am_toolCallsJson fallback),
       am_metadataJson := or_else (am_metadataJson authoritative) (am_metadataJson fallback),
       am_errorJson := or_else (am_errorJson authoritative) (am_errorJson fallback),
       am_attachments := or_else (am_attachments authoritative) (am_attachments fallback),
       am_reconciliationSource :=
         or_else (am_reconciliationSource authoritative) (am_reconciliationSource fallback)\<rparr>"

definition reconcileMessage :: "(string \<Rightarrow> int option) \<Rightarrow> agent_message \<Rightarrow> agent_message \<Rightarrow> agent_message" where
  "reconcileMessage parse_date current incoming =
     (if incoming_is_newer parse_date current incoming then overlay current incoming else overlay incoming current)"

definition merge_incoming ::
  "(string \<Rightarrow> int option) \<Rightarrow> agent_message \<Rightarrow> (string, agent_message) jsmap \<Rightarrow> (string, agent_message) jsmap" where
  "merge_incoming parse_date m byId =
     map_set (am_messageId m)
       (case map_get byId (am_messageId m) of None \<Rightarrow> m | Some current \<Rightarrow> reconcileMessage parse_date current m) byId"

definition message_rank :: "(string \<Rightarrow> 'k::linorder) \<Rightarrow> agent_message \<Rightarrow> int \<times> 'k" where
  "message_rank collate m = (am_seq m, collate (am_messageId m))"

definition mergeAgentMessages ::
  "(string \<Rightarrow> int option) \<Rightarrow> (string \<Rightarrow> 'k::linorder) \<Rightarrow> agent_message list \<Rightarrow> agent_message list \<Rightarrow> agent_message list" where
  "mergeAgentMessages parse_date collate incoming existing =
     sort_key (message_rank collate)
       (map_values (fold (merge_incoming parse_date) incoming (index_by am_messageId existing)))"

definition mergeTurnEvents :: "agent_turn_event list \<Rightarrow> agent_turn_event list \<Rightarrow> agent_turn_event list" where
  "mergeTurnEvents incoming existing = sort_key te_eventSeq (map_values (index_by te_eventSeq (existing @ incoming)))"

text \<open>
  A comparator that is no total preorder leaves the result of \<^verbatim>\<open>sort\<close> to the engine; for one that is,
  inserting from the right is the stable sort.
\<close>

fun insert_by :: "('a \<Rightarrow> 'a \<Rightarrow> bool) \<Rightarrow> 'a \<Rightarrow> 'a list \<Rightarrow> 'a list" where
  "insert_by before x [] = [x]"
| "insert_by before x (y # ys) = (if before y x then y # insert_by before x ys else x # y # ys)"

definition sort_by :: "('a \<Rightarrow> 'a \<Rightarrow> bool) \<Rightarrow> 'a list \<Rightarrow> 'a list" where
  "sort_by before xs = foldr (insert_by before) xs []"

definition conversation_before ::
  "(string \<Rightarrow> int option) \<Rightarrow> (string \<Rightarrow> 'k::linorder) \<Rightarrow> agent_conversation \<Rightarrow> agent_conversation \<Rightarrow> bool" where
  "conversation_before parse_date collate a b \<longleftrightarrow>
     (case (parse_date (ac_updatedAt a), parse_date (ac_updatedAt b)) of
        (Some x, Some y) \<Rightarrow> y < x \<or> (x = y \<and> collate (ac_conversationId a) < collate (ac_conversationId b))
      | _ \<Rightarrow> collate (ac_conversationId a) < collate (ac_conversationId b))"

section \<open>The cache\<close>

datatype agent_value =
    VConversations "(string, agent_conversation) jsmap"
  | VMessages "(string, agent_message list) jsmap"
  | VEvents "(string, agent_turn_event list) jsmap"
  | VCursor int

type_synonym 's agent_repos = "domain_id \<Rightarrow> ('s, agent_value) repository"

datatype agent_error = FetchRejected | StorageRefused | InvalidPaginationCursor

definition conversations_value :: "agent_value option \<Rightarrow> (string, agent_conversation) jsmap" where
  "conversations_value v = (case v of Some (VConversations m) \<Rightarrow> m | _ \<Rightarrow> [])"

definition messages_value :: "agent_value option \<Rightarrow> (string, agent_message list) jsmap" where
  "messages_value v = (case v of Some (VMessages m) \<Rightarrow> m | _ \<Rightarrow> [])"

definition events_value :: "agent_value option \<Rightarrow> (string, agent_turn_event list) jsmap" where
  "events_value v = (case v of Some (VEvents m) \<Rightarrow> m | _ \<Rightarrow> [])"

definition cursor_value :: "agent_value option \<Rightarrow> int" where
  "cursor_value v = (case v of Some (VCursor n) \<Rightarrow> n | _ \<Rightarrow> 0)"

definition list_at :: "(string, 'a list) jsmap \<Rightarrow> string \<Rightarrow> 'a list" where
  "list_at m k = (case map_get m k of None \<Rightarrow> [] | Some xs \<Rightarrow> xs)"

definition readMessages :: "'s agent_repos \<Rightarrow> 's \<Rightarrow> string \<Rightarrow> agent_message list" where
  "readMessages R s c = list_at (messages_value (rp_readValue (R AgentMessage) s c)) c"

definition readTurnEvents :: "'s agent_repos \<Rightarrow> 's \<Rightarrow> string \<Rightarrow> agent_turn_event list" where
  "readTurnEvents R s c = list_at (events_value (rp_readValue (R AgentTurnEvent) s c)) c"

definition readCursor :: "'s agent_repos \<Rightarrow> 's \<Rightarrow> string \<Rightarrow> int" where
  "readCursor R s c = cursor_value (rp_readValue (R AgentCursor) s c)"

definition writeMessages ::
  "'s agent_repos \<Rightarrow> (string \<Rightarrow> int option) \<Rightarrow> (string \<Rightarrow> 'k::linorder) \<Rightarrow> 's \<Rightarrow> string \<Rightarrow> agent_message list \<Rightarrow> 's option" where
  "writeMessages R parse_date collate s c messages =
     (let m = messages_value (rp_readValue (R AgentMessage) s c) in
      rp_write (R AgentMessage) s c
        (VMessages (map_set c (mergeAgentMessages parse_date collate messages (list_at m c)) m)))"

definition replaceMessages ::
  "'s agent_repos \<Rightarrow> (string \<Rightarrow> int option) \<Rightarrow> (string \<Rightarrow> 'k::linorder) \<Rightarrow> 's \<Rightarrow> string \<Rightarrow> agent_message list \<Rightarrow> 's option" where
  "replaceMessages R parse_date collate s c messages =
     (let m = messages_value (rp_readValue (R AgentMessage) s c);
          authoritativeIds = set (map am_messageId messages);
          retained = filter (\<lambda>x. am_messageId x \<in> authoritativeIds) (list_at m c) in
      rp_write (R AgentMessage) s c
        (VMessages (map_set c (mergeAgentMessages parse_date collate messages retained) m)))"

definition writeTurnEvents :: "'s agent_repos \<Rightarrow> 's \<Rightarrow> string \<Rightarrow> agent_turn_event list \<Rightarrow> 's option" where
  "writeTurnEvents R s c events =
     (let m = events_value (rp_readValue (R AgentTurnEvent) s c) in
      rp_write (R AgentTurnEvent) s c (VEvents (map_set c (mergeTurnEvents events (list_at m c)) m)))"

definition writeCursor :: "'s agent_repos \<Rightarrow> 's \<Rightarrow> string \<Rightarrow> int \<Rightarrow> 's option" where
  "writeCursor R s c cursor = rp_write (R AgentCursor) s c (VCursor cursor)"

text \<open>A write, and what is done after it; a refused write rejects with the state it found.\<close>

definition after_write :: "'s option \<Rightarrow> 's \<Rightarrow> ('s \<Rightarrow> (agent_error + 'a) \<times> 's) \<Rightarrow> (agent_error + 'a) \<times> 's" where
  "after_write w s k = (case w of None \<Rightarrow> (Inl StorageRefused, s) | Some s' \<Rightarrow> k s')"

definition highest_seq :: "int \<Rightarrow> agent_message list \<Rightarrow> int" where
  "highest_seq n messages = foldl (\<lambda>h m. max h (am_seq m)) n messages"

record messages_result =
  mr_messages :: "agent_message list"
  mr_turnEvents :: "agent_turn_event list option"
  mr_nextCursor :: "jsnum option"
  mr_hasMore :: bool

definition save_events ::
  "'s agent_repos \<Rightarrow> string \<Rightarrow> agent_turn_event list \<Rightarrow> 's \<Rightarrow> (agent_error + agent_message list) \<times> 's" where
  "save_events R c events s =
     (if events \<noteq> [] then after_write (writeTurnEvents R s c events) s (\<lambda>s'. (Inr (readMessages R s' c), s'))
      else (Inr (readMessages R s c), s))"

definition events_of :: "messages_result \<Rightarrow> agent_turn_event list" where
  "events_of r = (case mr_turnEvents r of None \<Rightarrow> [] | Some es \<Rightarrow> es)"

definition syncConversation ::
  "'s agent_repos \<Rightarrow> (string \<Rightarrow> int option) \<Rightarrow> (string \<Rightarrow> 'k::linorder)
    \<Rightarrow> (int \<Rightarrow> messages_result option) \<Rightarrow> string \<Rightarrow> 's \<Rightarrow> (agent_error + agent_message list) \<times> 's" where
  "syncConversation R parse_date collate fetch c s =
     (let since = readCursor R s c in
      case fetch since of
        None \<Rightarrow> (Inl FetchRejected, s)
      | Some result \<Rightarrow>
          if mr_messages result \<noteq> [] then
            after_write (writeMessages R parse_date collate s c (mr_messages result)) s (\<lambda>s1.
              after_write (writeCursor R s1 c (highest_seq since (mr_messages result))) s1 (\<lambda>s2.
                save_events R c (events_of result) s2))
          else save_events R c (events_of result) s)"

text \<open>
  The pages of a refresh.  The station may answer every request differently: \<open>fetch i\<close> is its answer to
  the \<open>i\<close>-th.  The loop ends because an accepted cursor is a safe integer beyond the last one.
\<close>

definition next_cursor :: "int \<Rightarrow> messages_result \<Rightarrow> int option" where
  "next_cursor afterSeq result =
     (case safe_integer (case mr_nextCursor result of
                           Some n \<Rightarrow> n
                         | None \<Rightarrow> Num (of_int (highest_seq afterSeq (mr_messages result)))) of
        None \<Rightarrow> None
      | Some n \<Rightarrow> if n \<le> afterSeq then None else Some n)"

lemma next_cursor_bounds: "next_cursor a r = Some n \<Longrightarrow> a < n \<and> n \<le> 9007199254740991"
  by (auto simp: next_cursor_def safe_integer_def split: option.splits if_splits jsnum.splits prod.splits)

function refresh_pages ::
  "(nat \<Rightarrow> int \<Rightarrow> messages_result option) \<Rightarrow> nat \<Rightarrow> int \<Rightarrow> agent_message list \<Rightarrow> agent_turn_event list
    \<Rightarrow> agent_error + agent_message list \<times> agent_turn_event list" where
  "refresh_pages fetch i afterSeq messages events =
     (case fetch i afterSeq of
        None \<Rightarrow> Inl FetchRejected
      | Some result \<Rightarrow>
          let messages' = messages @ mr_messages result; events' = events @ events_of result in
          if \<not> mr_hasMore result then Inr (messages', events')
          else (case next_cursor afterSeq result of
                  None \<Rightarrow> Inl InvalidPaginationCursor
                | Some n \<Rightarrow> refresh_pages fetch (i + 1) n messages' events'))"
  by pat_completeness auto

termination refresh_pages
  by (relation "measure (\<lambda>(fetch, i, afterSeq, ms, es). nat (9007199254740991 - afterSeq))")
    (auto dest: next_cursor_bounds)

definition refreshConversation ::
  "'s agent_repos \<Rightarrow> (string \<Rightarrow> int option) \<Rightarrow> (string \<Rightarrow> 'k::linorder)
    \<Rightarrow> (nat \<Rightarrow> int \<Rightarrow> messages_result option) \<Rightarrow> string \<Rightarrow> 's \<Rightarrow> (agent_error + agent_message list) \<times> 's" where
  "refreshConversation R parse_date collate fetch c s =
     (case refresh_pages fetch 0 0 [] [] of
        Inl e \<Rightarrow> (Inl e, s)
      | Inr (messages, events) \<Rightarrow>
          after_write (replaceMessages R parse_date collate s c messages) s (\<lambda>s1.
            after_write (writeCursor R s1 c (highest_seq 0 messages)) s1 (\<lambda>s2. save_events R c events s2)))"


definition clearConversation :: "'s agent_repos \<Rightarrow> string \<Rightarrow> 's \<Rightarrow> 's" where
  "clearConversation R c s =
     rp_remove (R AgentCursor) (rp_remove (R AgentTurnEvent) (rp_remove (R AgentMessage) s c) c) c"

definition listConversations ::
  "'s agent_repos \<Rightarrow> (string \<Rightarrow> int option) \<Rightarrow> (string \<Rightarrow> 'k::linorder)
    \<Rightarrow> agent_conversation list option \<Rightarrow> string \<Rightarrow> 's \<Rightarrow> agent_conversation list \<times> 's" where
  "listConversations R parse_date collate answer agentId s =
     (let cached = conversations_value (rp_readValue (R AgentConversation) s agentId);
          sorted = (\<lambda>m. sort_by (conversation_before parse_date collate) (map_values m)) in
      case answer of
        None \<Rightarrow> (sorted cached, s)
      | Some conversations \<Rightarrow>
          let next = index_by ac_conversationId conversations in
          (case rp_write (R AgentConversation) s agentId (VConversations next) of
             None \<Rightarrow> (sorted cached, s)
           | Some s' \<Rightarrow> (sorted next, s')))"

section \<open>What merging keeps\<close>

lemma overlay_id [simp]: "am_messageId (overlay f a) = am_messageId a" "am_seq (overlay f a) = am_seq a"
  "am_conversationId (overlay f a) = am_conversationId a" "am_content (overlay f a) = am_content a"
  "am_updatedAt (overlay f a) = am_updatedAt a"
  by (simp_all add: overlay_def)

lemma reconcile_id: "am_messageId a = am_messageId b \<Longrightarrow> am_messageId (reconcileMessage pd a b) = am_messageId b"
  by (simp add: reconcileMessage_def)

lemma merge_incoming_keyed: "keyed am_messageId m \<Longrightarrow> keyed am_messageId (merge_incoming pd x m)"
  by (auto simp: merge_incoming_def keyed_def reconcile_id intro!: keyed_set split: option.splits)

lemma merge_fold_keyed: "keyed am_messageId m \<Longrightarrow> keyed am_messageId (fold (merge_incoming pd) xs m)"
  by (induction xs arbitrary: m) (auto simp: merge_incoming_keyed)

lemma merge_fold_keys:
  "map_get (fold (merge_incoming pd) xs m) k \<noteq> None \<longleftrightarrow> k \<in> am_messageId ` set xs \<or> map_get m k \<noteq> None"
  by (induction xs arbitrary: m) (auto simp: merge_incoming_def)

lemma keyed_ids: "keyed key m \<Longrightarrow> key ` set (map_values m) = {k. map_get m k \<noteq> None}"
  using keyed_values(2) [of key m] keyed_get [of key m] by (auto simp: image_iff) metis

lemma merge_ids:
  "am_messageId ` set (mergeAgentMessages pd collate inc ex) = am_messageId ` set inc \<union> am_messageId ` set ex"
proof -
  have "map_get (index_by am_messageId ex) k \<noteq> None \<longleftrightarrow> k \<in> am_messageId ` set ex" for k
    by (auto simp: index_by_get find_None_iff image_iff)
  then show ?thesis
    unfolding mergeAgentMessages_def set_sort keyed_ids [OF merge_fold_keyed [OF keyed_index]] merge_fold_keys by auto
qed

section \<open>Reading back what was written\<close>

locale agent_repositories = repositories R ok K
  for R :: "'s agent_repos" and ok :: "'s \<Rightarrow> bool" and K :: "string set"
begin

lemma write_messages_list:
  assumes "ok s" "c \<in> K" "rp_write (R AgentMessage) s c (VMessages (map_set c xs m)) = Some s'"
  shows "ok s'" "readMessages R s' c = xs" "c' \<in> K \<Longrightarrow> c' \<noteq> c \<Longrightarrow> readMessages R s' c' = readMessages R s c'"
    "c' \<in> K \<Longrightarrow> readCursor R s' c' = readCursor R s c'" "c' \<in> K \<Longrightarrow> readTurnEvents R s' c' = readTurnEvents R s c'"
  using read_write [OF assms] assms(2)
  by (auto simp: readMessages_def readCursor_def readTurnEvents_def messages_value_def list_at_def)

lemma write_cursor:
  assumes "ok s" "c \<in> K" "writeCursor R s c n = Some s'"
  shows "ok s'" "readCursor R s' c = n" "c' \<in> K \<Longrightarrow> c' \<noteq> c \<Longrightarrow> readCursor R s' c' = readCursor R s c'"
    "c' \<in> K \<Longrightarrow> readMessages R s' c' = readMessages R s c'" "c' \<in> K \<Longrightarrow> readTurnEvents R s' c' = readTurnEvents R s c'"
  using read_write [OF assms(1,2) assms(3) [unfolded writeCursor_def]] assms(2)
  by (auto simp: readMessages_def readCursor_def readTurnEvents_def cursor_value_def)

lemma write_events:
  assumes "ok s" "c \<in> K" "writeTurnEvents R s c es = Some s'"
  shows "ok s'" "readTurnEvents R s' c = mergeTurnEvents es (readTurnEvents R s c)"
    "c' \<in> K \<Longrightarrow> readCursor R s' c' = readCursor R s c'"
    "c' \<in> K \<Longrightarrow> readMessages R s' c' = readMessages R s c'"
    "c' \<in> K \<Longrightarrow> c' \<noteq> c \<Longrightarrow> readTurnEvents R s' c' = readTurnEvents R s c'"
  using read_write [OF assms(1,2) assms(3) [unfolded writeTurnEvents_def Let_def]] assms(2)
  by (auto simp: readMessages_def readCursor_def readTurnEvents_def events_value_def list_at_def)

lemma writeMessages_effect:
  assumes "ok s" "c \<in> K" "writeMessages R pd collate s c ms = Some s'"
  shows "ok s'" "readMessages R s' c = mergeAgentMessages pd collate ms (readMessages R s c)"
    "c' \<in> K \<Longrightarrow> c' \<noteq> c \<Longrightarrow> readMessages R s' c' = readMessages R s c'"
    "c' \<in> K \<Longrightarrow> readCursor R s' c' = readCursor R s c'"
  using write_messages_list [OF assms(1,2) assms(3) [unfolded writeMessages_def Let_def]]
  by (auto simp: readMessages_def)

lemma replaceMessages_effect:
  assumes "ok s" "c \<in> K" "replaceMessages R pd collate s c ms = Some s'"
  shows "ok s'" "am_messageId ` set (readMessages R s' c) = am_messageId ` set ms"
    "c' \<in> K \<Longrightarrow> c' \<noteq> c \<Longrightarrow> readMessages R s' c' = readMessages R s c'"
    "c' \<in> K \<Longrightarrow> readCursor R s' c' = readCursor R s c'"
  using write_messages_list [OF assms(1,2) assms(3) [unfolded replaceMessages_def Let_def]]
  by (auto simp: merge_ids)

lemma save_events_effect:
  assumes "ok s" "c \<in> K" "save_events R c es s = (r, s')"
  shows "ok s'" "c' \<in> K \<Longrightarrow> readMessages R s' c' = readMessages R s c'" "c' \<in> K \<Longrightarrow> readCursor R s' c' = readCursor R s c'"
    "r = Inr ms \<Longrightarrow> ms = readMessages R s' c"
  using assms write_events [OF assms(1,2)]
  by (auto simp: save_events_def after_write_def split: if_splits option.splits)

end

interpretation agents: agent_repositories "createDomainRepository (createLocalStorageAdapter fits) sc now"
    "\<lambda>st. \<exists>m. st = Some m \<and> map_wf m" "{k. plain k}"
  for fits :: "(string, agent_value raw) jsmap \<Rightarrow> bool" and sc now
  by unfold_locales
section \<open>Synchronisation leaves no gap\<close>

text \<open>
  A page that continues from a cursor holds every message of the station after the cursor up to
  the last one it holds.  The cache has no gap when it holds every message of the station up to its cursor.
\<close>

definition page_complete :: "agent_message list \<Rightarrow> int \<Rightarrow> agent_message list \<Rightarrow> bool" where
  "page_complete station since page \<longleftrightarrow>
     (\<forall>m \<in> set station. since < am_seq m \<and> am_seq m \<le> highest_seq since page \<longrightarrow> am_messageId m \<in> am_messageId ` set page)"

definition cached_ids :: "'s agent_repos \<Rightarrow> 's \<Rightarrow> string \<Rightarrow> string set" where
  "cached_ids R s c = am_messageId ` set (readMessages R s c)"

definition no_gap :: "'s agent_repos \<Rightarrow> agent_message list \<Rightarrow> string \<Rightarrow> 's \<Rightarrow> bool" where
  "no_gap R station c s \<longleftrightarrow> (\<forall>m \<in> set station. am_seq m \<le> readCursor R s c \<longrightarrow> am_messageId m \<in> cached_ids R s c)"

text \<open>What every operation leaves of the other conversations and of the messages it found.\<close>

definition grows :: "'s agent_repos \<Rightarrow> string set \<Rightarrow> string \<Rightarrow> 's \<Rightarrow> 's \<Rightarrow> bool" where
  "grows R K c s s' \<longleftrightarrow> cached_ids R s c \<subseteq> cached_ids R s' c \<and>
     (\<forall>c' \<in> K. c' \<noteq> c \<longrightarrow> readMessages R s' c' = readMessages R s c' \<and> readCursor R s' c' = readCursor R s c')"

lemma highest_seq_snoc: "highest_seq n (ms @ [m]) = max (highest_seq n ms) (am_seq m)"
  by (simp add: highest_seq_def)

lemma highest_seq_ge: "n \<le> highest_seq n ms"
  by (induction ms rule: rev_induct) (auto simp: highest_seq_snoc, simp add: highest_seq_def)

declare refresh_pages.simps [simp del]

context agent_repositories
begin

lemma save_events_grows:
  assumes "ok s" "c \<in> K"
  shows "ok (snd (save_events R c es s)) \<and> grows R K c s (snd (save_events R c es s)) \<and>
    cached_ids R (snd (save_events R c es s)) c = cached_ids R s c \<and>
    readCursor R (snd (save_events R c es s)) c = readCursor R s c"
  using save_events_effect [OF assms, of es "fst (save_events R c es s)" "snd (save_events R c es s)"] assms(2)
  by (simp add: grows_def cached_ids_def)

lemma sync_keeps:
  assumes "ok s" "c \<in> K" "\<And>since r. fetch since = Some r \<Longrightarrow> page_complete station since (mr_messages r)" "no_gap R station c s"
    and "syncConversation R pd collate fetch c s = (res, s')"
  shows "ok s' \<and> no_gap R station c s' \<and> grows R K c s s'"
proof (cases "fetch (readCursor R s c)")
  case None
  then show ?thesis using assms by (simp add: syncConversation_def grows_def)
next
  case (Some r)
  let ?since = "readCursor R s c" and ?ms = "mr_messages r"
  show ?thesis
  proof (cases "?ms = []")
    case True
    then have "s' = snd (save_events R c (events_of r) s)" using assms(5) Some by (simp add: syncConversation_def)
    then show ?thesis using save_events_grows [OF assms(1,2)] assms(4) by (simp add: no_gap_def)
  next
    case False
    show ?thesis
    proof (cases "writeMessages R pd collate s c ?ms")
      case None
      then show ?thesis
        using assms(1,4,5) Some False by (simp add: syncConversation_def after_write_def grows_def)
    next
      case w1: (Some s1)
      note e1 = writeMessages_effect [OF assms(1,2) w1]
      have ids1: "cached_ids R s1 c = am_messageId ` set ?ms \<union> cached_ids R s c"
        by (simp add: cached_ids_def e1(2) merge_ids)
      have g1: "grows R K c s s1" using e1 ids1 by (auto simp: grows_def)
      have gap1: "no_gap R station c s1" using assms(2,4) e1(4) ids1 by (auto simp: no_gap_def)
      show ?thesis
      proof (cases "writeCursor R s1 c (highest_seq ?since ?ms)")
        case None
        then show ?thesis
          using assms(5) Some False w1 e1(1) g1 gap1 by (simp add: syncConversation_def after_write_def)
      next
        case w2: (Some s2)
        note e2 = write_cursor [OF e1(1) assms(2) w2]
        have ids2: "cached_ids R s2 c = cached_ids R s1 c" using e2(4) assms(2) by (simp add: cached_ids_def)
        have "am_messageId m \<in> cached_ids R s2 c" if "m \<in> set station" "am_seq m \<le> highest_seq ?since ?ms" for m
          using that assms(3) [OF Some] assms(4) ids1 ids2 by (cases "am_seq m \<le> ?since") (auto simp: no_gap_def page_complete_def)
        then have gap2: "no_gap R station c s2" by (simp add: no_gap_def e2(2))
        have g2: "grows R K c s s2" using g1 e2 ids2 by (auto simp: grows_def)
        have "s' = snd (save_events R c (events_of r) s2)"
          using assms(5) Some False w1 w2 by (simp add: syncConversation_def after_write_def)
        then show ?thesis
          using save_events_grows [OF e2(1) assms(2), of "events_of r"] gap2 g2 by (auto simp: no_gap_def grows_def)
      qed
    qed
  qed
qed

lemma refresh_replaces:
  assumes "ok s" "c \<in> K" "refreshConversation R pd collate fetch c s = (res, s')"
  shows "ok s'" "res = Inl FetchRejected \<or> res = Inl InvalidPaginationCursor \<Longrightarrow> s' = s"
    "res = Inr shown \<Longrightarrow> \<exists>ms es. refresh_pages fetch 0 0 [] [] = Inr (ms, es) \<and> shown = readMessages R s' c \<and>
       cached_ids R s' c = am_messageId ` set ms \<and> readCursor R s' c = highest_seq 0 ms"
proof -
  have "ok s' \<and> (res = Inl FetchRejected \<or> res = Inl InvalidPaginationCursor \<longrightarrow> s' = s) \<and>
    (res = Inr shown \<longrightarrow> (\<exists>ms es. refresh_pages fetch 0 0 [] [] = Inr (ms, es) \<and> shown = readMessages R s' c \<and>
       cached_ids R s' c = am_messageId ` set ms \<and> readCursor R s' c = highest_seq 0 ms))"
  proof (cases "refresh_pages fetch 0 0 [] []")
    case (Inl e)
    then show ?thesis using assms by (auto simp: refreshConversation_def)
  next
    case (Inr p)
    obtain ms es where p: "p = (ms, es)" by (cases p)
    show ?thesis
    proof (cases "replaceMessages R pd collate s c ms")
      case None
      then show ?thesis using assms Inr p by (auto simp: refreshConversation_def after_write_def)
    next
      case w1: (Some s1)
      note e1 = replaceMessages_effect [OF assms(1,2) w1]
      show ?thesis
      proof (cases "writeCursor R s1 c (highest_seq 0 ms)")
        case None
        then show ?thesis using assms Inr p w1 e1 by (auto simp: refreshConversation_def after_write_def)
      next
        case w2: (Some s2)
        note e2 = write_cursor [OF e1(1) assms(2) w2]
        have "save_events R c es s2 = (res, s')"
          using assms(3) Inr p w1 w2 by (simp add: refreshConversation_def after_write_def)
        moreover have "res \<noteq> Inl FetchRejected \<and> res \<noteq> Inl InvalidPaginationCursor"
          using calculation by (auto simp: save_events_def after_write_def split: if_splits option.splits)
        ultimately show ?thesis
          using save_events_effect [OF e2(1) assms(2), of es res s'] e1 e2 assms(2) Inr p
          by (auto simp: cached_ids_def)
      qed
    qed
  qed
  then show "ok s'" "res = Inl FetchRejected \<or> res = Inl InvalidPaginationCursor \<Longrightarrow> s' = s"
    "res = Inr shown \<Longrightarrow> \<exists>ms es. refresh_pages fetch 0 0 [] [] = Inr (ms, es) \<and> shown = readMessages R s' c \<and>
       cached_ids R s' c = am_messageId ` set ms \<and> readCursor R s' c = highest_seq 0 ms"
    by blast+
qed

end

section \<open>Properties of the cache\<close>

definition browser_repos ::
  "((string, agent_value raw) jsmap \<Rightarrow> bool) \<Rightarrow> storage_scope \<Rightarrow> int \<Rightarrow> agent_value browser_store agent_repos" where
  "browser_repos fits sc now = createDomainRepository (createLocalStorageAdapter fits) sc now"


text \<open>
  A refresh replaces the cached conversation by the pages the station sent, exactly: it forgets
  messages the station no longer has, sets the cursor to the last one, and returns what is cached.
  When a page is rejected or carries no later cursor, the cache is as before.
\<close>

theorem refresh_replaces_cache:
  assumes "map_wf store" "plain c"
    and "refreshConversation (browser_repos fits sc now) pd collate fetch c (Some store) = (res, s')"
  shows "(res = Inl FetchRejected \<or> res = Inl InvalidPaginationCursor \<longrightarrow> s' = Some store) \<and>
    (\<forall>shown. res = Inr shown \<longrightarrow> (\<exists>ms es. refresh_pages fetch 0 0 [] [] = Inr (ms, es) \<and>
       shown = readMessages (browser_repos fits sc now) s' c \<and>
       cached_ids (browser_repos fits sc now) s' c = am_messageId ` set ms \<and>
       readCursor (browser_repos fits sc now) s' c = highest_seq 0 ms))"
  using agents.refresh_replaces [of "Some store" c fits sc now pd collate fetch res s'] assms
  by (auto simp: browser_repos_def)

definition demo_message :: "string \<Rightarrow> int \<Rightarrow> agent_message" where
  "demo_message i n =
     \<lparr>am_messageId = i, am_conversationId = ''c'', am_turnId = None, am_modelName = None, am_role = RoleUser,
      am_status = None, am_content = i, am_seq = n, am_branchId = None, am_replacesMessageId = None,
      am_reasoningJson = None, am_toolCallsJson = None, am_metadataJson = None, am_errorJson = None,
      am_attachments = None, am_reconciliationSource = Some StationList, am_createdAt = ''0'', am_updatedAt = ''0''\<rparr>"

definition demo_station :: "agent_message list" where
  "demo_station = [demo_message ''m1'' 1, demo_message ''m2'' 2, demo_message ''m3'' 3]"

text \<open>A station that sends the messages after the cursor, at most \<open>n\<close> of them.\<close>

definition station_page :: "nat \<Rightarrow> int \<Rightarrow> messages_result" where
  "station_page n since =
     \<lparr>mr_messages = take n (filter (\<lambda>m. am_seq m > since) demo_station), mr_turnEvents = None, mr_nextCursor = None,
      mr_hasMore = (length (filter (\<lambda>m. am_seq m > since) demo_station) > n)\<rparr>"

definition demo_repos :: "agent_value browser_store agent_repos" where
  "demo_repos = browser_repos (\<lambda>_. True) (demo_scope ''ann'') 0"



theorem refresh_replaces_cache_witness:
  "cached_ids demo_repos (snd (refreshConversation demo_repos (\<lambda>_. Some 0) length (\<lambda>i since. Some (station_page 2 since)) ''c'' (Some [])))
     ''c'' = {''m1'', ''m2'', ''m3''}"
proof -
  have plain: "plain ''c''" by code_simp
  let ?r = "refreshConversation demo_repos (\<lambda>_. Some 0) length (\<lambda>i since. Some (station_page 2 since)) ''c'' (Some [])"
  have ok: "\<not> isl (fst ?r)" by code_simp
  have pages: "refresh_pages (\<lambda>i since. Some (station_page 2 since)) 0 0 [] [] = Inr (demo_station, [])" by code_simp
  from ok obtain shown where "?r = (Inr shown, snd ?r)" by (metis prod.collapse sum.collapse(2))
  with refresh_replaces_cache [OF map_wf_Nil plain, of "\<lambda>_. True" "demo_scope ''ann''" 0 "\<lambda>_. Some 0" length
      "\<lambda>i since. Some (station_page 2 since)" "Inr shown" "snd ?r"] pages
  show ?thesis by (auto simp: demo_repos_def demo_station_def demo_message_def)
qed


section \<open>Convergence\<close>















definition merge_batches ::
  "(string \<Rightarrow> int option) \<Rightarrow> (string \<Rightarrow> 'k::linorder) \<Rightarrow> agent_message list list \<Rightarrow> agent_message list" where
  "merge_batches pd collate batches = foldl (\<lambda>ex inc. mergeAgentMessages pd collate inc ex) [] batches"






definition demo_version :: "int \<Rightarrow> string option \<Rightarrow> agent_message" where
  "demo_version n reasoning = (demo_message ''m'' n)\<lparr>am_content := [], am_reasoningJson := reasoning\<rparr>"


text \<open>
  The optional fields do not converge: when the newest version of a message has no reasoning, which
  of the older reasonings is shown depends on the order in which the versions arrive.
\<close>

theorem fallback_fields_diverge:
  "map am_reasoningJson (merge_batches (\<lambda>_. Some 0) length
     [[demo_version 1 (Some ''old'')], [demo_version 2 (Some ''new'')], [demo_version 3 None]]) = [Some ''new''] \<and>
   map am_reasoningJson (merge_batches (\<lambda>_. Some 0) length
     [[demo_version 1 (Some ''old'')], [demo_version 3 None], [demo_version 2 (Some ''new'')]]) = [Some ''old'']"
  by code_simp

end
