(* ===== verification/Chat_Storage.thy ===== *)
theory Chat_Storage
  imports Prelude Prelude_Numbers "HOL-Library.Multiset"
begin

text \<open>
  The storage projection of the chat clients, \<^verbatim>\<open>packages/client-chat-core/src/chatStorageProjection.ts\<close>,
  and the batch that clears conversations, \<^verbatim>\<open>packages/client-chat-core/src/storageBatch.ts\<close>.

  The runtime shows how much the chats of the signed-in account occupy.  It asks a host for snapshots
  and clean-ups while the account, its station or its device may change, so what it does is cut at its
  awaits: a call starts a request, and a later step settles it.  The host of the runtime is an argument,
  its ports; the part of the world that knows the current scope is the type variable \<open>'e\<close>.
\<close>

section \<open>Scopes, snapshots and results\<close>

record scope_identity =
  sc_stationPeerId :: string
  sc_actorPtid :: string
  sc_deviceId :: string
  sc_activationGeneration :: nat

record snapshot_scope =
  sp_stationPeerId :: "string option"
  sp_actorPtid :: "string option"
  sp_deviceId :: "string option"

text \<open>What else a snapshot or an operation carries is left to the host: the fields \<open>sn_body\<close> and \<open>op_body\<close>.\<close>

record 'x snapshot =
  sn_revision :: "string option"
  sn_scope :: "snapshot_scope option"
  sn_body :: 'x

record 'o operation =
  op_scopeRevision :: "string option"
  op_scope :: "snapshot_scope option"
  op_physicalBytesBefore :: "int option"
  op_physicalBytesAfter :: "int option"
  op_body :: 'o

text \<open>The error of a result is of unknown type: absent, an object with a message, or another truthy value.\<close>

datatype result_error = NoError | MessageError string | OtherError

record ('x, 'o) storage_result =
  sr_snapshot :: "'x snapshot option"
  sr_operation :: "'o operation option"
  sr_error :: result_error

definition chatStorageScopeRevision :: "scope_identity \<Rightarrow> string" where
  "chatStorageScopeRevision scope =
     join_with [CHR 0x1F]
       [sc_stationPeerId scope, sc_actorPtid scope, sc_deviceId scope, decimal (sc_activationGeneration scope)]"

definition scope_matches :: "scope_identity \<Rightarrow> snapshot_scope option \<Rightarrow> bool" where
  "scope_matches scope s \<longleftrightarrow>
     (case s of
        None \<Rightarrow> False
      | Some s \<Rightarrow> sp_stationPeerId s = Some (sc_stationPeerId scope)
          \<and> sp_actorPtid s = Some (sc_actorPtid scope)
          \<and> sp_deviceId s = Some (sc_deviceId scope))"

definition chatStorageSnapshotMatches :: "scope_identity \<Rightarrow> 'x snapshot \<Rightarrow> bool" where
  "chatStorageSnapshotMatches scope snapshot \<longleftrightarrow>
     sn_revision snapshot = Some (chatStorageScopeRevision scope) \<and> scope_matches scope (sn_scope snapshot)"

definition chatStorageResultMatches :: "scope_identity \<Rightarrow> ('x, 'o) storage_result \<Rightarrow> bool" where
  "chatStorageResultMatches scope result \<longleftrightarrow>
     (let operationMatches =
            (case sr_operation result of
               None \<Rightarrow> sr_error result \<noteq> NoError
             | Some operation \<Rightarrow> op_scopeRevision operation = Some (chatStorageScopeRevision scope)
                 \<and> scope_matches scope (op_scope operation)) in
      (case sr_snapshot result of None \<Rightarrow> False | Some s \<Rightarrow> chatStorageSnapshotMatches scope s)
      \<and> operationMatches)"

definition chatStorageReleasedBytes :: "('x, 'o) storage_result option \<Rightarrow> int option" where
  "chatStorageReleasedBytes result =
     (case Option.bind result sr_operation of
        None \<Rightarrow> None
      | Some operation \<Rightarrow>
          (case (op_physicalBytesBefore operation, op_physicalBytesAfter operation) of
             (Some before, Some after) \<Rightarrow> Some (if before > after then before - after else 0)
           | _ \<Rightarrow> None))"

datatype thrown_value = AnError string | NotAnError string

definition errorMessage :: "thrown_value \<Rightarrow> string" where
  "errorMessage err = (case err of AnError message \<Rightarrow> message | NotAnError text \<Rightarrow> text)"

definition resultErrorMessage :: "('x, 'o) storage_result \<Rightarrow> string \<Rightarrow> string" where
  "resultErrorMessage result fallback =
     (case sr_error result of
        MessageError message \<Rightarrow> if message \<noteq> [] then message else fallback
      | _ \<Rightarrow> fallback)"

section \<open>The projection\<close>

datatype activity_status = ActivityIdle | ActivityRunning | ActivitySucceeded | ActivityFailed

record ('x, 'o) activity =
  ac_status :: activity_status
  ac_result :: "('x, 'o) storage_result option"
  ac_error :: "string option"

datatype projection_status = StorageIdle | StorageMeasuring | StorageReady | StorageStale | StorageUnavailable

record ('x, 'o) projection =
  pr_status :: projection_status
  pr_snapshot :: "'x snapshot option"
  pr_stale :: bool
  pr_error :: "string option"
  pr_cleanup :: "('x, 'o) activity"
  pr_retention :: "('x, 'o) activity"

definition idle_activity :: "('x, 'o) activity" where
  "idle_activity = \<lparr>ac_status = ActivityIdle, ac_result = None, ac_error = None\<rparr>"

definition running_activity :: "('x, 'o) activity" where
  "running_activity = \<lparr>ac_status = ActivityRunning, ac_result = None, ac_error = None\<rparr>"

definition failed_activity :: "string \<Rightarrow> ('x, 'o) activity" where
  "failed_activity message = \<lparr>ac_status = ActivityFailed, ac_result = None, ac_error = Some message\<rparr>"

definition idleChatStorageProjection :: "('x, 'o) projection" where
  "idleChatStorageProjection =
     \<lparr>pr_status = StorageIdle, pr_snapshot = None, pr_stale = False, pr_error = None,
      pr_cleanup = idle_activity, pr_retention = idle_activity\<rparr>"

record storage_messages =
  ms_staleCleanup :: string
  ms_cleanupIncomplete :: string
  ms_staleRetention :: string
  ms_retentionIncomplete :: string
  ms_staleConversationCleanup :: string
  ms_acceptanceUnavailable :: string
  ms_acceptanceAmbiguous :: string

text \<open>
  The ports.  The requests themselves are not functions here: their answers are arguments of the steps
  that settle them.
\<close>

record ('e, 'scope, 'x, 'o, 'r) ports =
  po_captureScope :: "'e \<Rightarrow> 'scope option"
  po_isCurrentScope :: "'e \<Rightarrow> 'scope \<Rightarrow> bool"
  po_scopeIdentity :: "'scope \<Rightarrow> scope_identity"
  po_retentionPreset :: "'x snapshot \<Rightarrow> 'r option"
  po_retentionIsForever :: "'r \<Rightarrow> bool"
  po_operationSucceeded :: "('x, 'o) storage_result \<Rightarrow> bool"
  po_acceptanceEnabled :: bool
  po_messages :: storage_messages
  po_retentionSweepIntervalMs :: "int option"

definition DEFAULT_RETENTION_SWEEP_INTERVAL_MS :: int where
  "DEFAULT_RETENTION_SWEEP_INTERVAL_MS = 24 * 60 * 60000"

record batch_scenario =
  bs_delayMs :: "int option"
  bs_failureConversationId :: "string option"
  bs_scopeChangeConversationId :: "string option"

section \<open>The runtime\<close>

text \<open>
  The fields of the object.  A promise is its number; \<open>rt_interval\<close> and \<open>rt_subscribed\<close> say whether the
  timer runs and the runtime listens to scope changes.
\<close>

record ('x, 'o) storage =
  rt_projection :: "('x, 'o) projection"
  rt_interval :: bool
  rt_subscribed :: bool
  rt_inFlight :: "(string \<times> nat) option"
  rt_cleanupInFlight :: "(string \<times> nat) option"
  rt_retentionInFlight :: "(string \<times> nat) option"
  rt_conversationClearInFlight :: "(string \<times> string \<times> nat) option"
  rt_batchAcceptanceScenario :: "batch_scenario option"
  rt_lastRetentionSweepAtUnixMs :: int
  rt_nextPromise :: nat

definition new_storage :: "('x, 'o) storage" where
  "new_storage =
     \<lparr>rt_projection = idleChatStorageProjection, rt_interval = False, rt_subscribed = False,
      rt_inFlight = None, rt_cleanupInFlight = None, rt_retentionInFlight = None,
      rt_conversationClearInFlight = None, rt_batchAcceptanceScenario = None,
      rt_lastRetentionSweepAtUnixMs = 0, rt_nextPromise = 0\<rparr>"

text \<open>A request under way: its promise, the scope it was made for, and what it is.\<close>

datatype ('x, 'r) request =
    LoadSnapshot "'x snapshot option"
  | ClearCache
  | SetRetention 'r
  | ClearConversation string

record ('scope, 'x, 'r) flight =
  fl_promise :: nat
  fl_scope :: 'scope
  fl_request :: "('x, 'r) request"

text \<open>What a call returns at once: a promise resolved with nothing, one it found, or a new one.\<close>

datatype ('scope, 'x, 'r) started = AlreadyResolved | Joined nat | Started "('scope, 'x, 'r) flight"

definition publish :: "('x, 'o) projection \<Rightarrow> ('x, 'o) storage \<Rightarrow> ('x, 'o) storage" where
  "publish p rt = rt\<lparr>rt_projection := p\<rparr>"

definition revision_of :: "('e, 'scope, 'x, 'o, 'r) ports \<Rightarrow> 'scope \<Rightarrow> string" where
  "revision_of P scope = chatStorageScopeRevision (po_scopeIdentity P scope)"

definition accepts :: "('e, 'scope, 'x, 'o, 'r) ports \<Rightarrow> 'e \<Rightarrow> 'scope \<Rightarrow> 'x snapshot \<Rightarrow> bool" where
  "accepts P e scope snapshot \<longleftrightarrow>
     po_isCurrentScope P e scope \<and> chatStorageSnapshotMatches (po_scopeIdentity P scope) snapshot"

definition resultMatches :: "('e, 'scope, 'x, 'o, 'r) ports \<Rightarrow> 'scope \<Rightarrow> ('x, 'o) storage_result \<Rightarrow> bool" where
  "resultMatches P scope result = chatStorageResultMatches (po_scopeIdentity P scope) result"

text \<open>The promise of a slot for the given revision.\<close>

definition in_flight :: "(string \<times> nat) option \<Rightarrow> string \<Rightarrow> nat option" where
  "in_flight slot revision = (case slot of Some (r, q) \<Rightarrow> if r = revision then Some q else None | None \<Rightarrow> None)"

subsection \<open>Refresh\<close>

definition previous_snapshot :: "string \<Rightarrow> ('x, 'o) storage \<Rightarrow> 'x snapshot option" where
  "previous_snapshot revision rt =
     (case pr_snapshot (rt_projection rt) of
        Some s \<Rightarrow> if sn_revision s = Some revision then Some s else None
      | None \<Rightarrow> None)"

definition refresh ::
  "('e, 'scope, 'x, 'o, 'r) ports \<Rightarrow> 'e \<Rightarrow> ('x, 'o) storage \<Rightarrow> ('scope, 'x, 'r) started \<times> ('x, 'o) storage" where
  "refresh P e rt =
     (case po_captureScope P e of
        None \<Rightarrow> (AlreadyResolved, publish idleChatStorageProjection rt)
      | Some scope \<Rightarrow>
          let revision = revision_of P scope in
          (case in_flight (rt_inFlight rt) revision of
             Some q \<Rightarrow> (Joined q, rt)
           | None \<Rightarrow>
               let previous = previous_snapshot revision rt; p = rt_nextPromise rt in
               (Started \<lparr>fl_promise = p, fl_scope = scope, fl_request = LoadSnapshot previous\<rparr>,
                (publish \<lparr>pr_status = StorageMeasuring, pr_snapshot = previous, pr_stale = previous \<noteq> None,
                          pr_error = None, pr_cleanup = pr_cleanup (rt_projection rt),
                          pr_retention = pr_retention (rt_projection rt)\<rparr> rt)
                 \<lparr>rt_inFlight := Some (revision, p), rt_nextPromise := p + 1\<rparr>)))"

definition refresh_settle ::
  "('e, 'scope, 'x, 'o, 'r) ports \<Rightarrow> 'e \<Rightarrow> 'scope \<Rightarrow> 'x snapshot option \<Rightarrow> thrown_value + 'x snapshot
    \<Rightarrow> ('x, 'o) storage \<Rightarrow> ('x, 'o) storage" where
  "refresh_settle P e scope previous outcome rt =
     (let cleanup = pr_cleanup (rt_projection rt); retention = pr_retention (rt_projection rt) in
      case outcome of
        Inr snapshot \<Rightarrow>
          if \<not> accepts P e scope snapshot then rt
          else publish \<lparr>pr_status = StorageReady, pr_snapshot = Some snapshot, pr_stale = False, pr_error = None,
                        pr_cleanup = cleanup, pr_retention = retention\<rparr> rt
      | Inl err \<Rightarrow>
          if \<not> po_isCurrentScope P e scope then rt
          else publish
            (case previous of
               Some s \<Rightarrow> \<lparr>pr_status = StorageStale, pr_snapshot = Some s, pr_stale = True,
                          pr_error = Some (errorMessage err), pr_cleanup = cleanup, pr_retention = retention\<rparr>
             | None \<Rightarrow> \<lparr>pr_status = StorageUnavailable, pr_snapshot = None, pr_stale = False,
                        pr_error = Some (errorMessage err), pr_cleanup = cleanup, pr_retention = retention\<rparr>) rt)"

definition clear_slot :: "nat \<Rightarrow> (string \<times> nat) option \<Rightarrow> (string \<times> nat) option" where
  "clear_slot p slot = (case slot of Some (r, q) \<Rightarrow> if q = p then None else slot | None \<Rightarrow> None)"

subsection \<open>Clearing the cache and setting the retention\<close>

definition clearCache ::
  "('e, 'scope, 'x, 'o, 'r) ports \<Rightarrow> 'e \<Rightarrow> ('x, 'o) storage \<Rightarrow> ('scope, 'x, 'r) started \<times> ('x, 'o) storage" where
  "clearCache P e rt =
     (case po_captureScope P e of
        None \<Rightarrow> (AlreadyResolved, rt)
      | Some scope \<Rightarrow>
          let revision = revision_of P scope in
          (case in_flight (rt_cleanupInFlight rt) revision of
             Some q \<Rightarrow> (Joined q, rt)
           | None \<Rightarrow>
               let p = rt_nextPromise rt in
               (Started \<lparr>fl_promise = p, fl_scope = scope, fl_request = ClearCache\<rparr>,
                (publish ((rt_projection rt)\<lparr>pr_cleanup := running_activity\<rparr>) rt)
                 \<lparr>rt_cleanupInFlight := Some (revision, p), rt_nextPromise := p + 1\<rparr>)))"

definition settled_activity ::
  "('e, 'scope, 'x, 'o, 'r) ports \<Rightarrow> string \<Rightarrow> ('x, 'o) storage_result \<Rightarrow> ('x, 'o) activity" where
  "settled_activity P fallback result =
     (let succeeded = po_operationSucceeded P result in
      \<lparr>ac_status = (if succeeded then ActivitySucceeded else ActivityFailed), ac_result = Some result,
       ac_error = (if succeeded then None else Some (resultErrorMessage result fallback))\<rparr>)"

definition clearCache_settle ::
  "('e, 'scope, 'x, 'o, 'r) ports \<Rightarrow> 'e \<Rightarrow> 'scope \<Rightarrow> thrown_value + ('x, 'o) storage_result
    \<Rightarrow> ('x, 'o) storage \<Rightarrow> ('x, 'o) storage_result option \<times> ('x, 'o) storage" where
  "clearCache_settle P e scope outcome rt =
     (let projection = rt_projection rt in
      if \<not> po_isCurrentScope P e scope then (None, rt)
      else
        (case outcome of
           Inl err \<Rightarrow> (None, publish (projection\<lparr>pr_cleanup := failed_activity (errorMessage err)\<rparr>) rt)
         | Inr result \<Rightarrow>
             if \<not> resultMatches P scope result then
               (None, publish (projection\<lparr>pr_cleanup := failed_activity (ms_staleCleanup (po_messages P))\<rparr>) rt)
             else
               (Some result,
                publish \<lparr>pr_status = StorageReady, pr_snapshot = sr_snapshot result, pr_stale = False,
                         pr_error = None,
                         pr_cleanup = settled_activity P (ms_cleanupIncomplete (po_messages P)) result,
                         pr_retention = pr_retention projection\<rparr> rt)))"

definition setRetention ::
  "('e, 'scope, 'x, 'o, 'r) ports \<Rightarrow> 'e \<Rightarrow> 'r \<Rightarrow> ('x, 'o) storage
    \<Rightarrow> ('scope, 'x, 'r) started \<times> ('x, 'o) storage" where
  "setRetention P e r rt =
     (case po_captureScope P e of
        None \<Rightarrow> (AlreadyResolved, rt)
      | Some scope \<Rightarrow>
          let revision = revision_of P scope in
          (case in_flight (rt_retentionInFlight rt) revision of
             Some q \<Rightarrow> (Joined q, rt)
           | None \<Rightarrow>
               let p = rt_nextPromise rt in
               (Started \<lparr>fl_promise = p, fl_scope = scope, fl_request = SetRetention r\<rparr>,
                (publish ((rt_projection rt)\<lparr>pr_retention := running_activity\<rparr>) rt)
                 \<lparr>rt_retentionInFlight := Some (revision, p), rt_nextPromise := p + 1\<rparr>)))"

definition setRetention_settle ::
  "('e, 'scope, 'x, 'o, 'r) ports \<Rightarrow> 'e \<Rightarrow> int \<Rightarrow> 'scope \<Rightarrow> thrown_value + ('x, 'o) storage_result
    \<Rightarrow> ('x, 'o) storage \<Rightarrow> ('x, 'o) storage_result option \<times> ('x, 'o) storage" where
  "setRetention_settle P e now scope outcome rt =
     (let projection = rt_projection rt in
      if \<not> po_isCurrentScope P e scope then (None, rt)
      else
        (case outcome of
           Inl err \<Rightarrow> (None, publish (projection\<lparr>pr_retention := failed_activity (errorMessage err)\<rparr>) rt)
         | Inr result \<Rightarrow>
             if \<not> resultMatches P scope result then
               (None, publish (projection\<lparr>pr_retention := failed_activity (ms_staleRetention (po_messages P))\<rparr>) rt)
             else
               (Some result,
                publish \<lparr>pr_status = StorageReady, pr_snapshot = sr_snapshot result, pr_stale = False,
                         pr_error = None, pr_cleanup = pr_cleanup projection,
                         pr_retention = settled_activity P (ms_retentionIncomplete (po_messages P)) result\<rparr>
                  (if po_operationSucceeded P result then rt\<lparr>rt_lastRetentionSweepAtUnixMs := now\<rparr> else rt))))"

text \<open>What \<^verbatim>\<open>reconcile\<close> does after the refresh it waits for.\<close>

definition retention_due :: "('e, 'scope, 'x, 'o, 'r) ports \<Rightarrow> int \<Rightarrow> ('x, 'o) storage \<Rightarrow> 'r option" where
  "retention_due P now rt =
     (case Option.bind (pr_snapshot (rt_projection rt)) (po_retentionPreset P) of
        None \<Rightarrow> None
      | Some preset \<Rightarrow>
          if \<not> po_retentionIsForever P preset
             \<and> pr_status (rt_projection rt) = StorageReady
             \<and> ac_status (pr_retention (rt_projection rt)) \<noteq> ActivityRunning
             \<and> now - rt_lastRetentionSweepAtUnixMs rt
                 \<ge> (case po_retentionSweepIntervalMs P of
                      Some i \<Rightarrow> i | None \<Rightarrow> DEFAULT_RETENTION_SWEEP_INTERVAL_MS)
          then Some preset else None)"

definition reconcile_rest ::
  "('e, 'scope, 'x, 'o, 'r) ports \<Rightarrow> 'e \<Rightarrow> int \<Rightarrow> ('x, 'o) storage \<Rightarrow> ('scope, 'x, 'r) started \<times> ('x, 'o) storage" where
  "reconcile_rest P e now rt =
     (case retention_due P now rt of None \<Rightarrow> (AlreadyResolved, rt) | Some preset \<Rightarrow> setRetention P e preset rt)"

subsection \<open>Clearing a conversation\<close>

definition clear_in_flight :: "(string \<times> string \<times> nat) option \<Rightarrow> string \<Rightarrow> string \<Rightarrow> nat option" where
  "clear_in_flight slot revision c =
     (case slot of Some (r, d, q) \<Rightarrow> if r = revision \<and> d = c then Some q else None | None \<Rightarrow> None)"

definition storage_clearConversation ::
  "('e, 'scope, 'x, 'o, 'r) ports \<Rightarrow> 'e \<Rightarrow> string \<Rightarrow> ('x, 'o) storage
    \<Rightarrow> ('scope, 'x, 'r) started \<times> ('x, 'o) storage" where
  "storage_clearConversation P e conversationId rt =
     (case po_captureScope P e of
        None \<Rightarrow> (AlreadyResolved, rt)
      | Some scope \<Rightarrow>
          if js_trim conversationId = [] then (AlreadyResolved, rt)
          else
            let revision = revision_of P scope in
            (case clear_in_flight (rt_conversationClearInFlight rt) revision conversationId of
               Some q \<Rightarrow> (Joined q, rt)
             | None \<Rightarrow>
                 let p = rt_nextPromise rt in
                 (Started \<lparr>fl_promise = p, fl_scope = scope, fl_request = ClearConversation conversationId\<rparr>,
                  rt\<lparr>rt_conversationClearInFlight := Some (revision, conversationId, p), rt_nextPromise := p + 1\<rparr>)))"

definition storage_clearConversation_settle ::
  "('e, 'scope, 'x, 'o, 'r) ports \<Rightarrow> 'e \<Rightarrow> 'scope \<Rightarrow> thrown_value + ('x, 'o) storage_result
    \<Rightarrow> ('x, 'o) storage \<Rightarrow> (thrown_value + ('x, 'o) storage_result option) \<times> ('x, 'o) storage" where
  "storage_clearConversation_settle P e scope outcome rt =
     (case outcome of
        Inl err \<Rightarrow> (Inl err, rt)
      | Inr result \<Rightarrow>
          if \<not> po_isCurrentScope P e scope then (Inr None, rt)
          else if \<not> resultMatches P scope result then
            (Inl (AnError (ms_staleConversationCleanup (po_messages P))), rt)
          else
            (Inr (Some result),
             (case sr_snapshot result of
                None \<Rightarrow> rt
              | Some s \<Rightarrow> publish \<lparr>pr_status = StorageReady, pr_snapshot = Some s, pr_stale = False,
                                    pr_error = None, pr_cleanup = pr_cleanup (rt_projection rt),
                                    pr_retention = pr_retention (rt_projection rt)\<rparr> rt)))"

subsection \<open>Installing and tearing down\<close>

definition install :: "('x, 'o) storage \<Rightarrow> ('x, 'o) storage" where
  "install rt = (if rt_interval rt then rt else rt\<lparr>rt_subscribed := True, rt_interval := True\<rparr>)"

text \<open>The listener that \<^verbatim>\<open>install\<close> subscribes.\<close>

definition scope_listener ::
  "('e, 'scope, 'x, 'o, 'r) ports \<Rightarrow> 'e \<Rightarrow> 'scope option \<Rightarrow> ('x, 'o) storage
    \<Rightarrow> ('scope, 'x, 'r) started \<times> ('x, 'o) storage" where
  "scope_listener P e scope rt =
     (let rt1 = publish idleChatStorageProjection (rt\<lparr>rt_lastRetentionSweepAtUnixMs := 0\<rparr>) in
      if scope \<noteq> None then refresh P e rt1 else (AlreadyResolved, rt1))"

definition teardown :: "('x, 'o) storage \<Rightarrow> ('x, 'o) storage" where
  "teardown rt =
     publish idleChatStorageProjection
       (rt\<lparr>rt_interval := False, rt_subscribed := False, rt_inFlight := None, rt_cleanupInFlight := None,
           rt_retentionInFlight := None, rt_conversationClearInFlight := None,
           rt_batchAcceptanceScenario := None, rt_lastRetentionSweepAtUnixMs := 0\<rparr>)"

definition bootstrap ::
  "('e, 'scope, 'x, 'o, 'r) ports \<Rightarrow> 'e \<Rightarrow> bool \<Rightarrow> ('x, 'o) storage
    \<Rightarrow> ('scope, 'x, 'r) started \<times> ('x, 'o) storage" where
  "bootstrap P e active rt =
     (let rt1 = publish idleChatStorageProjection rt in
      if active then refresh P e rt1 else (AlreadyResolved, rt1))"

definition non_blank :: "string option \<Rightarrow> string option" where
  "non_blank t = (case t of Some s \<Rightarrow> if js_trim s = [] then None else Some (js_trim s) | None \<Rightarrow> None)"

definition configureAcceptanceBatchScenario ::
  "('e, 'scope, 'x, 'o, 'r) ports \<Rightarrow> batch_scenario option \<Rightarrow> ('x, 'o) storage
    \<Rightarrow> (string + unit) \<times> ('x, 'o) storage" where
  "configureAcceptanceBatchScenario P scenario rt =
     (if \<not> po_acceptanceEnabled P then (Inl (ms_acceptanceUnavailable (po_messages P)), rt)
      else
        (case scenario of
           None \<Rightarrow> (Inr (), rt\<lparr>rt_batchAcceptanceScenario := None\<rparr>)
         | Some s \<Rightarrow>
             let delayMs = max 0 (min 2000 (case bs_delayMs s of Some d \<Rightarrow> d | None \<Rightarrow> 0));
                 failure = non_blank (bs_failureConversationId s);
                 scopeChange = non_blank (bs_scopeChangeConversationId s) in
             if failure \<noteq> None \<and> scopeChange \<noteq> None then (Inl (ms_acceptanceAmbiguous (po_messages P)), rt)
             else (Inr (), rt\<lparr>rt_batchAcceptanceScenario :=
                     Some \<lparr>bs_delayMs = Some delayMs, bs_failureConversationId = failure,
                           bs_scopeChangeConversationId = scopeChange\<rparr>\<rparr>)))"

section \<open>Batches of conversations\<close>

datatype item_state = ItemSucceeded | ItemFailed | ItemScopeChanged

record item_result =
  it_state :: item_state
  it_releasedBytes :: "int option"

record batch_progress =
  bp_completedCount :: nat
  bp_totalCount :: nat
  bp_conversationId :: string

datatype batch_status = BatchSucceeded | BatchPartialFailure | BatchScopeChanged

record batch_result =
  br_status :: batch_status
  br_requestedIds :: "string list"
  br_succeededIds :: "string list"
  br_failedIds :: "string list"
  br_remainingIds :: "string list"
  br_completedCount :: nat
  br_releasedBytes :: int

definition requested_ids :: "string list \<Rightarrow> string list" where
  "requested_ids conversationIds = set_of_list (filter (\<lambda>c. c \<noteq> []) (map js_trim conversationIds))"

text \<open>
  Clearing a conversation is an outside call: it gives an item or throws, and changes the state \<open>'s\<close> it
  runs in.  The accumulated result is threaded through the loop, with the progress reports made so far.
\<close>

type_synonym 's clear_call = "string \<Rightarrow> 's \<Rightarrow> (thrown_value + item_result) \<times> 's"

definition item_of :: "thrown_value + item_result \<Rightarrow> item_result" where
  "item_of answer =
     (case answer of Inl _ \<Rightarrow> \<lparr>it_state = ItemFailed, it_releasedBytes = None\<rparr> | Inr item \<Rightarrow> item)"

definition released_by :: "item_result \<Rightarrow> int" where
  "released_by item =
     (let bytes = (case it_releasedBytes item of Some b \<Rightarrow> b | None \<Rightarrow> 0) in if bytes > 0 then bytes else 0)"

definition count_item :: "string \<Rightarrow> item_result \<Rightarrow> batch_result \<Rightarrow> batch_result" where
  "count_item c item acc =
     (let acc1 = acc\<lparr>br_completedCount := br_completedCount acc + 1\<rparr> in
      if it_state item = ItemSucceeded
      then acc1\<lparr>br_succeededIds := br_succeededIds acc @ [c], br_releasedBytes := br_releasedBytes acc + released_by item\<rparr>
      else acc1\<lparr>br_failedIds := br_failedIds acc @ [c]\<rparr>)"

definition progress_after :: "string \<Rightarrow> batch_result \<Rightarrow> batch_progress" where
  "progress_after c acc =
     \<lparr>bp_completedCount = br_completedCount acc, bp_totalCount = length (br_requestedIds acc), bp_conversationId = c\<rparr>"

fun batch_loop ::
  "'s clear_call \<Rightarrow> string list \<Rightarrow> batch_result \<Rightarrow> batch_progress list \<Rightarrow> 's
    \<Rightarrow> batch_result \<times> batch_progress list \<times> 's" where
  "batch_loop clear [] acc reports s =
     (acc\<lparr>br_status := if br_failedIds acc = [] then BatchSucceeded else BatchPartialFailure\<rparr>, reports, s)"
| "batch_loop clear (c # cs) acc reports s =
     (case clear c s of
        (answer, s1) \<Rightarrow>
          if it_state (item_of answer) = ItemScopeChanged
          then (acc\<lparr>br_status := BatchScopeChanged, br_remainingIds := c # cs\<rparr>, reports, s1)
          else let acc1 = count_item c (item_of answer) acc in
               batch_loop clear cs acc1 (reports @ [progress_after c acc1]) s1)"

definition runConversationClearBatch ::
  "'s clear_call \<Rightarrow> string list \<Rightarrow> 's \<Rightarrow> batch_result \<times> batch_progress list \<times> 's" where
  "runConversationClearBatch clear conversationIds s =
     batch_loop clear (requested_ids conversationIds)
       \<lparr>br_status = BatchSucceeded, br_requestedIds = requested_ids conversationIds, br_succeededIds = [],
        br_failedIds = [], br_remainingIds = [], br_completedCount = 0, br_releasedBytes = 0\<rparr> [] s"

text \<open>
  The call the runtime makes for each conversation.  While it waits, other code runs: \<open>sd_delay\<close> and
  \<open>sd_await\<close> are what happens until a timer fires or the promise a call returned is settled, and
  \<open>sd_invalidate\<close> is the host's port for acceptance runs.
\<close>

record ('e, 'scope, 'x, 'o, 'r) scheduler =
  sd_delay :: "int \<Rightarrow> 'e \<times> ('x, 'o) storage \<Rightarrow> 'e \<times> ('x, 'o) storage"
  sd_invalidate :: "'e \<times> ('x, 'o) storage \<Rightarrow> (thrown_value + unit) \<times> 'e \<times> ('x, 'o) storage"
  sd_await :: "('scope, 'x, 'r) started \<Rightarrow> 'e \<times> ('x, 'o) storage
    \<Rightarrow> (thrown_value + ('x, 'o) storage_result option) \<times> 'e \<times> ('x, 'o) storage"

definition state_item :: "item_state \<Rightarrow> item_result" where
  "state_item st = \<lparr>it_state = st, it_releasedBytes = None\<rparr>"

definition await_clear ::
  "('e, 'scope, 'x, 'o, 'r) scheduler \<Rightarrow> ('scope, 'x, 'r) started \<Rightarrow> 'e \<times> ('x, 'o) storage
    \<Rightarrow> (thrown_value + ('x, 'o) storage_result option) \<times> 'e \<times> ('x, 'o) storage" where
  "await_clear S started w = (case started of AlreadyResolved \<Rightarrow> (Inr None, w) | _ \<Rightarrow> sd_await S started w)"

definition after_delay ::
  "('e, 'scope, 'x, 'o, 'r) scheduler \<Rightarrow> batch_scenario option \<Rightarrow> 'e \<times> ('x, 'o) storage \<Rightarrow> 'e \<times> ('x, 'o) storage" where
  "after_delay S scenario w =
     (case Option.bind scenario bs_delayMs of Some d \<Rightarrow> if d \<noteq> 0 then sd_delay S d w else w | None \<Rightarrow> w)"

definition clear_item ::
  "('e, 'scope, 'x, 'o, 'r) ports \<Rightarrow> 'scope \<Rightarrow> 'e \<Rightarrow> ('x, 'o) storage_result option \<Rightarrow> item_result" where
  "clear_item P sc e result =
     (if \<not> po_isCurrentScope P e sc then state_item ItemScopeChanged
      else case result of
             None \<Rightarrow> state_item ItemFailed
           | Some r \<Rightarrow>
               if \<not> po_operationSucceeded P r then state_item ItemFailed
               else \<lparr>it_state = ItemSucceeded,
                     it_releasedBytes =
                       Some (case chatStorageReleasedBytes result of Some b \<Rightarrow> b | None \<Rightarrow> 0)\<rparr>)"

definition batch_clear ::
  "('e, 'scope, 'x, 'o, 'r) ports \<Rightarrow> ('e, 'scope, 'x, 'o, 'r) scheduler \<Rightarrow> 'scope option
    \<Rightarrow> ('e \<times> ('x, 'o) storage) clear_call" where
  "batch_clear P S scope c w =
     (case scope of
        None \<Rightarrow> (Inr (state_item ItemScopeChanged), w)
      | Some sc \<Rightarrow>
          if \<not> po_isCurrentScope P (fst w) sc then (Inr (state_item ItemScopeChanged), w)
          else
            let scenario = rt_batchAcceptanceScenario (snd w);
                (e1, rt1) = after_delay S scenario w;
                spent = rt1\<lparr>rt_batchAcceptanceScenario := None\<rparr> in
            if Option.bind scenario bs_failureConversationId = Some c
            then (Inr (state_item ItemFailed), (e1, spent))
            else if Option.bind scenario bs_scopeChangeConversationId = Some c
            then (case sd_invalidate S (e1, spent) of
                    (Inl err, w2) \<Rightarrow> (Inl err, w2)
                  | (Inr _, w2) \<Rightarrow> (Inr (state_item ItemScopeChanged), w2))
            else
              (case storage_clearConversation P e1 c rt1 of
                 (started, rt2) \<Rightarrow>
                   (case await_clear S started (e1, rt2) of
                      (Inl err, w3) \<Rightarrow> (Inl err, w3)
                    | (Inr result, w3) \<Rightarrow> (Inr (clear_item P sc (fst w3) result), w3))))"

definition clearConversations ::
  "('e, 'scope, 'x, 'o, 'r) ports \<Rightarrow> ('e, 'scope, 'x, 'o, 'r) scheduler \<Rightarrow> string list
    \<Rightarrow> 'e \<times> ('x, 'o) storage \<Rightarrow> batch_result \<times> batch_progress list \<times> 'e \<times> ('x, 'o) storage" where
  "clearConversations P S conversationIds w =
     runConversationClearBatch (batch_clear P S (po_captureScope P (fst w))) conversationIds w"

subsection \<open>What a batch reports\<close>

text \<open>The calls a batch makes, up to the first that finds the scope changed.\<close>

fun attempts :: "'s clear_call \<Rightarrow> string list \<Rightarrow> 's \<Rightarrow> (string \<times> item_result) list \<times> 's" where
  "attempts clear [] s = ([], s)"
| "attempts clear (c # cs) s =
     (case clear c s of
        (answer, s1) \<Rightarrow>
          if it_state (item_of answer) = ItemScopeChanged then ([(c, item_of answer)], s1)
          else (case attempts clear cs s1 of (as, s2) \<Rightarrow> ((c, item_of answer) # as, s2)))"

definition completed :: "(string \<times> item_result) list \<Rightarrow> (string \<times> item_result) list" where
  "completed as = filter (\<lambda>(c, item). it_state item \<noteq> ItemScopeChanged) as"

definition succeeded_of :: "(string \<times> item_result) list \<Rightarrow> (string \<times> item_result) list" where
  "succeeded_of as = filter (\<lambda>(c, item). it_state item = ItemSucceeded) as"

definition failed_of :: "(string \<times> item_result) list \<Rightarrow> (string \<times> item_result) list" where
  "failed_of as = filter (\<lambda>(c, item). it_state item = ItemFailed) as"

lemma attempts_prefix: "\<exists>n \<le> length cs. map fst (fst (attempts clear cs s)) = take n cs"
proof (induction cs arbitrary: s)
  case (Cons c cs)
  obtain answer s1 where eq: "clear c s = (answer, s1)" by fastforce
  obtain as s2 where as: "attempts clear cs s1 = (as, s2)" by fastforce
  from Cons [of s1] obtain n where "n \<le> length cs" "map fst as = take n cs" by (auto simp: as)
  then show ?case using eq as
    by (cases "it_state (item_of answer) = ItemScopeChanged")
      (auto intro: exI [of _ "Suc 0"] exI [of _ "Suc n"])
qed simp

lemma attempts_completed:
  "map fst (completed (fst (attempts clear cs s))) = take (length (completed (fst (attempts clear cs s)))) cs"
proof (induction cs arbitrary: s)
  case (Cons c cs)
  obtain answer s1 where eq: "clear c s = (answer, s1)" by fastforce
  show ?case using Cons [of s1] eq
    by (auto simp: completed_def split: prod.splits)
qed (simp add: completed_def)

definition batch_progress_of :: "nat \<Rightarrow> nat \<Rightarrow> string list \<Rightarrow> batch_progress list" where
  "batch_progress_of k0 whole cs =
     map (\<lambda>(i, c). \<lparr>bp_completedCount = k0 + i, bp_totalCount = whole, bp_conversationId = c\<rparr>) (zip [1..<Suc (length cs)] cs)"

lemma batch_progress_of_Nil [simp]: "batch_progress_of k0 whole [] = []"
  by (simp add: batch_progress_of_def)

lemma batch_progress_of_Cons:
  "batch_progress_of k0 whole (c # cs) =
     \<lparr>bp_completedCount = Suc k0, bp_totalCount = whole, bp_conversationId = c\<rparr> # batch_progress_of (Suc k0) whole cs"
proof -
  have "zip [1..<Suc (length (c # cs))] (c # cs) = (1, c) # map (\<lambda>(i, d). (Suc i, d)) (zip [1..<Suc (length cs)] cs)"
    by (auto simp: zip_map1 [symmetric] map_Suc_upt upt_conv_Cons simp del: upt_Suc)
  then show ?thesis by (auto simp: batch_progress_of_def simp del: upt_Suc)
qed

definition interrupted :: "(string \<times> item_result) list \<Rightarrow> bool" where
  "interrupted as \<longleftrightarrow> completed as \<noteq> as"

definition batch_spec ::
  "string list \<Rightarrow> (string \<times> item_result) list \<Rightarrow> batch_result \<Rightarrow> batch_result" where
  "batch_spec cs as acc =
     acc\<lparr>br_status := if interrupted as then BatchScopeChanged
                      else if br_failedIds acc = [] \<and> failed_of as = [] then BatchSucceeded else BatchPartialFailure,
         br_succeededIds := br_succeededIds acc @ map fst (succeeded_of as),
         br_failedIds := br_failedIds acc @ map fst (failed_of as),
         br_remainingIds := if interrupted as then drop (length (completed as)) cs else br_remainingIds acc,
         br_completedCount := br_completedCount acc + length (completed as),
         br_releasedBytes := br_releasedBytes acc + sum_list (map (released_by \<circ> snd) (succeeded_of as))\<rparr>"

lemmas attempt_defs = batch_spec_def interrupted_def completed_def succeeded_of_def failed_of_def

lemma completed_Cons_interrupted:
  "it_state item \<noteq> ItemScopeChanged \<Longrightarrow> interrupted ((c, item) # as) = interrupted as"
  by (simp add: interrupted_def completed_def)

lemma batch_spec_step:
  assumes "it_state item \<noteq> ItemScopeChanged"
  shows "batch_spec cs as (count_item c item acc) = batch_spec (c # cs) ((c, item) # as) acc"
proof -
  have "completed ((c, item) # as) = (c, item) # completed as"
    using assms by (simp add: completed_def)
  then show ?thesis using assms completed_Cons_interrupted [OF assms, of c as]
    by (cases "it_state item"; cases "interrupted as")
      (simp_all add: batch_spec_def count_item_def succeeded_of_def failed_of_def)
qed

lemma batch_loop_spec:
  "batch_loop clear cs acc reports s =
     (case attempts clear cs s of
        (as, s') \<Rightarrow> (batch_spec cs as acc,
                    reports @ batch_progress_of (br_completedCount acc) (length (br_requestedIds acc)) (map fst (completed as)), s'))"
proof (induction cs arbitrary: acc reports s)
  case Nil
  show ?case by (cases acc) (simp add: attempt_defs)
next
  case (Cons c cs)
  obtain answer s1 where eq: "clear c s = (answer, s1)" by fastforce
  obtain as s2 where as: "attempts clear cs s1 = (as, s2)" by fastforce
  let ?item = "item_of answer"
  show ?case
  proof (cases "it_state ?item = ItemScopeChanged")
    case True
    then show ?thesis by (cases acc) (simp add: eq attempt_defs)
  next
    case False
    then have "completed ((c, ?item) # as) = (c, ?item) # completed as" by (simp add: completed_def)
    moreover have "br_completedCount (count_item c ?item acc) = Suc (br_completedCount acc)"
      "br_requestedIds (count_item c ?item acc) = br_requestedIds acc"
      by (simp_all add: count_item_def Let_def)
    ultimately show ?thesis using False
      by (simp add: eq as Cons batch_spec_step batch_progress_of_Cons progress_after_def)
  qed
qed

lemma requested_ids_spec:
  "distinct (requested_ids ids)" "set (requested_ids ids) = js_trim ` set ids - {[]}"
  by (auto simp: requested_ids_def)

lemma completed_split: "mset (map fst (succeeded_of as)) + mset (map fst (failed_of as)) = mset (map fst (completed as))"
proof (induction as)
  case (Cons a as)
  then show ?case by (cases a; cases "it_state (snd a)") (simp_all add: succeeded_of_def failed_of_def completed_def)
qed (simp add: succeeded_of_def failed_of_def completed_def)

lemma attempts_interrupted:
  "attempts clear cs s = (as, s') \<Longrightarrow>
     (if interrupted as then length (completed as) < length cs \<and> map fst as = take (Suc (length (completed as))) cs
      else map fst as = cs \<and> completed as = as)"
proof (induction cs arbitrary: s as)
  case (Cons c cs)
  obtain answer s1 where eq: "clear c s = (answer, s1)" by fastforce
  show ?case
  proof (cases "it_state (item_of answer) = ItemScopeChanged")
    case True
    with Cons.prems eq show ?thesis by (auto simp: interrupted_def completed_def)
  next
    case False
    with Cons.prems eq obtain bs where "attempts clear cs s1 = (bs, s')" "as = (c, item_of answer) # bs"
      by (auto split: prod.splits)
    with Cons.IH [OF this(1)] False show ?thesis
      by (auto simp: completed_Cons_interrupted) (auto simp: completed_def)
  qed
qed (simp add: interrupted_def completed_def)

text \<open>
  C37.  A batch accounts for every conversation it was asked to clear.  The requested conversations are
  the trimmed, non-blank ones without duplicates; they are tried in order, until one finds the scope
  changed; every one of them is in exactly one of the succeeded, failed and remaining lists; the
  progress reports count the completed ones; the released bytes are the sum over the succeeded ones.
\<close>

theorem batch_accounts_for_requests:
  "case runConversationClearBatch clear ids s of (result, reports, s') \<Rightarrow>
   case attempts clear (requested_ids ids) s of (tried, s'') \<Rightarrow>
     let requested = br_requestedIds result; n = br_completedCount result in
     s' = s''
     \<and> distinct requested \<and> set requested = js_trim ` set ids - {[]}
     \<and> (\<exists>k. map fst tried = take k requested)
     \<and> br_succeededIds result = map fst (filter (\<lambda>t. it_state (snd t) = ItemSucceeded) tried)
     \<and> br_failedIds result = map fst (filter (\<lambda>t. it_state (snd t) = ItemFailed) tried)
     \<and> mset requested = mset (br_succeededIds result) + mset (br_failedIds result) + mset (br_remainingIds result)
     \<and> br_remainingIds result = drop n requested
     \<and> br_releasedBytes result = (\<Sum>t \<leftarrow> filter (\<lambda>t. it_state (snd t) = ItemSucceeded) tried. released_by (snd t))
     \<and> br_status result =
         (if \<exists>t \<in> set tried. it_state (snd t) = ItemScopeChanged then BatchScopeChanged
          else if br_failedIds result = [] then BatchSucceeded else BatchPartialFailure)
     \<and> reports = batch_progress_of 0 (length requested) (take n requested)"
proof -
  obtain tried s'' where tried: "attempts clear (requested_ids ids) s = (tried, s'')" by fastforce
  have comp: "map fst (completed tried) = take (length (completed tried)) (requested_ids ids)"
    using attempts_completed [of clear "requested_ids ids" s] by (simp add: tried)
  have rest: "mset (requested_ids ids) = mset (map fst (completed tried)) + mset (drop (length (completed tried)) (requested_ids ids))"
    unfolding comp by (metis append_take_drop_id mset_append)
  have inter: "interrupted tried \<longleftrightarrow> (\<exists>t \<in> set tried. it_state (snd t) = ItemScopeChanged)"
    by (fastforce simp: interrupted_def completed_def filter_id_conv)
  have all: "\<not> interrupted tried \<Longrightarrow> drop (length (completed tried)) (requested_ids ids) = []"
    using attempts_interrupted [OF tried] by (metis (full_types) drop_all length_map order_refl)
  have fl: "succeeded_of tried = filter (\<lambda>t. it_state (snd t) = ItemSucceeded) tried"
    "failed_of tried = filter (\<lambda>t. it_state (snd t) = ItemFailed) tried"
    by (simp_all add: succeeded_of_def failed_of_def case_prod_unfold)
  have pre: "\<exists>k. map fst tried = take k (requested_ids ids)"
    using attempts_prefix [of "requested_ids ids" clear s] by (auto simp: tried)
  have "mset (map fst (succeeded_of tried)) + mset (map fst (failed_of tried)) = mset (map fst (completed tried))"
    by (rule completed_split)
  then show ?thesis
    using comp rest all pre inter
    by (auto simp: runConversationClearBatch_def batch_loop_spec tried batch_spec_def requested_ids_spec fl o_def)
qed

section \<open>Runs of the runtime\<close>

text \<open>
  A run interleaves calls, answers to requests, and moves of the owner of the scope.  A settled request
  leaves its slot in a step of its own, as the \<^verbatim>\<open>finally\<close> handler runs after the others.
\<close>

datatype ('ev, 'x, 'o, 'r) storage_event =
    OwnerMoves 'ev
  | CallInstall
  | CallTeardown
  | CallBootstrap bool
  | CallRefresh
  | ReconcileGoesOn int
  | CallClearCache
  | CallSetRetention 'r
  | CallClearConversation string
  | CallConfigure "batch_scenario option"
  | SnapshotArrives nat "thrown_value + 'x snapshot"
  | ResultArrives nat int "thrown_value + ('x, 'o) storage_result"
  | RequestFinishes nat

record ('e, 'scope, 'x, 'o, 'r) storage_world =
  w_owner :: 'e
  w_storage :: "('x, 'o) storage"
  w_flights :: "('scope, 'x, 'r) flight list"
  w_finishing :: "('scope, 'x, 'r) flight list"

definition flight_of :: "nat \<Rightarrow> ('scope, 'x, 'r) flight list \<Rightarrow> ('scope, 'x, 'r) flight option" where
  "flight_of p fls = find (\<lambda>fl. fl_promise fl = p) fls"

definition without_flight :: "nat \<Rightarrow> ('scope, 'x, 'r) flight list \<Rightarrow> ('scope, 'x, 'r) flight list" where
  "without_flight p fls = filter (\<lambda>fl. fl_promise fl \<noteq> p) fls"

definition with_started ::
  "('scope, 'x, 'r) started \<times> ('x, 'o) storage \<Rightarrow> ('e, 'scope, 'x, 'o, 'r) storage_world
    \<Rightarrow> ('e, 'scope, 'x, 'o, 'r) storage_world" where
  "with_started r w =
     w\<lparr>w_storage := snd r,
       w_flights := (case fst r of Started fl \<Rightarrow> fl # w_flights w | _ \<Rightarrow> w_flights w)\<rparr>"

definition settle_snapshot ::
  "('e, 'scope, 'x, 'o, 'r) ports \<Rightarrow> 'e \<Rightarrow> ('scope, 'x, 'r) flight \<Rightarrow> thrown_value + 'x snapshot
    \<Rightarrow> ('x, 'o) storage \<Rightarrow> ('x, 'o) storage" where
  "settle_snapshot P e fl outcome rt =
     (case fl_request fl of LoadSnapshot previous \<Rightarrow> refresh_settle P e (fl_scope fl) previous outcome rt | _ \<Rightarrow> rt)"

definition settle_result ::
  "('e, 'scope, 'x, 'o, 'r) ports \<Rightarrow> 'e \<Rightarrow> int \<Rightarrow> ('scope, 'x, 'r) flight \<Rightarrow> thrown_value + ('x, 'o) storage_result
    \<Rightarrow> ('x, 'o) storage \<Rightarrow> ('x, 'o) storage" where
  "settle_result P e now fl outcome rt =
     (case fl_request fl of
        ClearCache \<Rightarrow> snd (clearCache_settle P e (fl_scope fl) outcome rt)
      | SetRetention _ \<Rightarrow> snd (setRetention_settle P e now (fl_scope fl) outcome rt)
      | ClearConversation _ \<Rightarrow> snd (storage_clearConversation_settle P e (fl_scope fl) outcome rt)
      | LoadSnapshot _ \<Rightarrow> rt)"

definition clear_conversation_slot :: "nat \<Rightarrow> (string \<times> string \<times> nat) option \<Rightarrow> (string \<times> string \<times> nat) option" where
  "clear_conversation_slot p slot = (case slot of Some (r, c, q) \<Rightarrow> if q = p then None else slot | None \<Rightarrow> None)"

definition finish_request :: "('scope, 'x, 'r) flight \<Rightarrow> ('x, 'o) storage \<Rightarrow> ('x, 'o) storage" where
  "finish_request fl rt =
     (let p = fl_promise fl in
      case fl_request fl of
        LoadSnapshot _ \<Rightarrow> rt\<lparr>rt_inFlight := clear_slot p (rt_inFlight rt)\<rparr>
      | ClearCache \<Rightarrow> rt\<lparr>rt_cleanupInFlight := clear_slot p (rt_cleanupInFlight rt)\<rparr>
      | SetRetention _ \<Rightarrow> rt\<lparr>rt_retentionInFlight := clear_slot p (rt_retentionInFlight rt)\<rparr>
      | ClearConversation _ \<Rightarrow>
          rt\<lparr>rt_conversationClearInFlight := clear_conversation_slot p (rt_conversationClearInFlight rt)\<rparr>)"

definition request_settles ::
  "nat \<Rightarrow> (('scope, 'x, 'r) flight \<Rightarrow> ('x, 'o) storage \<Rightarrow> ('x, 'o) storage)
    \<Rightarrow> ('e, 'scope, 'x, 'o, 'r) storage_world \<Rightarrow> ('e, 'scope, 'x, 'o, 'r) storage_world" where
  "request_settles p f w =
     (case flight_of p (w_flights w) of
        None \<Rightarrow> w
      | Some fl \<Rightarrow> w\<lparr>w_storage := f fl (w_storage w), w_flights := without_flight p (w_flights w),
                    w_finishing := fl # w_finishing w\<rparr>)"

fun storage_step ::
  "('e, 'scope, 'x, 'o, 'r) ports \<Rightarrow> ('ev \<Rightarrow> 'e \<Rightarrow> 'e \<times> 'scope option option)
    \<Rightarrow> ('ev, 'x, 'o, 'r) storage_event \<Rightarrow> ('e, 'scope, 'x, 'o, 'r) storage_world
    \<Rightarrow> ('e, 'scope, 'x, 'o, 'r) storage_world" where
  "storage_step P move (OwnerMoves ev) w =
     (case move ev (w_owner w) of
        (e', notified) \<Rightarrow>
          (case notified of
             Some scope \<Rightarrow>
               if rt_subscribed (w_storage w)
               then with_started (scope_listener P e' scope (w_storage w)) (w\<lparr>w_owner := e'\<rparr>)
               else w\<lparr>w_owner := e'\<rparr>
           | None \<Rightarrow> w\<lparr>w_owner := e'\<rparr>))"
| "storage_step P move CallInstall w = w\<lparr>w_storage := install (w_storage w)\<rparr>"
| "storage_step P move CallTeardown w = w\<lparr>w_storage := teardown (w_storage w)\<rparr>"
| "storage_step P move (CallBootstrap active) w = with_started (bootstrap P (w_owner w) active (w_storage w)) w"
| "storage_step P move CallRefresh w = with_started (refresh P (w_owner w) (w_storage w)) w"
| "storage_step P move (ReconcileGoesOn now) w = with_started (reconcile_rest P (w_owner w) now (w_storage w)) w"
| "storage_step P move CallClearCache w = with_started (clearCache P (w_owner w) (w_storage w)) w"
| "storage_step P move (CallSetRetention r) w = with_started (setRetention P (w_owner w) r (w_storage w)) w"
| "storage_step P move (CallClearConversation c) w = with_started (storage_clearConversation P (w_owner w) c (w_storage w)) w"
| "storage_step P move (CallConfigure sc) w = w\<lparr>w_storage := snd (configureAcceptanceBatchScenario P sc (w_storage w))\<rparr>"
| "storage_step P move (SnapshotArrives p outcome) w =
     request_settles p (\<lambda>fl. settle_snapshot P (w_owner w) fl outcome) w"
| "storage_step P move (ResultArrives p now outcome) w =
     request_settles p (\<lambda>fl. settle_result P (w_owner w) now fl outcome) w"
| "storage_step P move (RequestFinishes p) w =
     (case flight_of p (w_finishing w) of
        None \<Rightarrow> w
      | Some fl \<Rightarrow> w\<lparr>w_storage := finish_request fl (w_storage w), w_finishing := without_flight p (w_finishing w)\<rparr>)"

definition storage_run ::
  "('e, 'scope, 'x, 'o, 'r) ports \<Rightarrow> ('ev \<Rightarrow> 'e \<Rightarrow> 'e \<times> 'scope option option)
    \<Rightarrow> ('ev, 'x, 'o, 'r) storage_event list \<Rightarrow> ('e, 'scope, 'x, 'o, 'r) storage_world
    \<Rightarrow> ('e, 'scope, 'x, 'o, 'r) storage_world" where
  "storage_run P move evs w = fold (storage_step P move) evs w"

definition installed_world :: "'e \<Rightarrow> ('e, 'scope, 'x, 'o, 'r) storage_world" where
  "installed_world e = \<lparr>w_owner = e, w_storage = install new_storage, w_flights = [], w_finishing = []\<rparr>"

section \<open>What is shown belongs to the current scope\<close>

definition of_scope :: "scope_identity option \<Rightarrow> ('x, 'o) projection \<Rightarrow> bool" where
  "of_scope scope p \<longleftrightarrow>
     (case scope of
        None \<Rightarrow> pr_snapshot p = None \<and> ac_result (pr_cleanup p) = None \<and> ac_result (pr_retention p) = None
      | Some sc \<Rightarrow>
          (\<forall>s. pr_snapshot p = Some s \<longrightarrow> chatStorageSnapshotMatches sc s)
          \<and> (\<forall>r. ac_result (pr_cleanup p) = Some r \<longrightarrow> chatStorageResultMatches sc r)
          \<and> (\<forall>r. ac_result (pr_retention p) = Some r \<longrightarrow> chatStorageResultMatches sc r))"

definition activity_ok :: "('x, 'o) activity \<Rightarrow> bool" where
  "activity_ok a \<longleftrightarrow>
     (case ac_status a of
        ActivityIdle \<Rightarrow> ac_result a = None \<and> ac_error a = None
      | ActivityRunning \<Rightarrow> ac_result a = None \<and> ac_error a = None
      | ActivitySucceeded \<Rightarrow> ac_result a \<noteq> None \<and> ac_error a = None
      | ActivityFailed \<Rightarrow> ac_error a \<noteq> None)"

definition projection_ok :: "('x, 'o) projection \<Rightarrow> bool" where
  "projection_ok p \<longleftrightarrow>
     (case pr_status p of
        StorageIdle \<Rightarrow> pr_snapshot p = None \<and> \<not> pr_stale p \<and> pr_error p = None
      | StorageMeasuring \<Rightarrow> pr_stale p = (pr_snapshot p \<noteq> None) \<and> pr_error p = None
      | StorageReady \<Rightarrow> pr_snapshot p \<noteq> None \<and> \<not> pr_stale p \<and> pr_error p = None
      | StorageStale \<Rightarrow> pr_snapshot p \<noteq> None \<and> pr_stale p \<and> pr_error p \<noteq> None
      | StorageUnavailable \<Rightarrow> pr_snapshot p = None \<and> \<not> pr_stale p \<and> pr_error p \<noteq> None)
     \<and> activity_ok (pr_cleanup p) \<and> activity_ok (pr_retention p)"

definition captured_identity :: "('e, 'scope, 'x, 'o, 'r) ports \<Rightarrow> 'e \<Rightarrow> scope_identity option" where
  "captured_identity P e = map_option (po_scopeIdentity P) (po_captureScope P e)"

definition shown_ok :: "scope_identity option \<Rightarrow> ('x, 'o) storage \<Rightarrow> bool" where
  "shown_ok scope rt \<longleftrightarrow> projection_ok (rt_projection rt) \<and> of_scope scope (rt_projection rt)"

definition flight_ok :: "('e, 'scope, 'x, 'o, 'r) ports \<Rightarrow> ('scope, 'x, 'r) flight \<Rightarrow> bool" where
  "flight_ok P fl \<longleftrightarrow>
     (case fl_request fl of
        LoadSnapshot (Some s) \<Rightarrow> chatStorageSnapshotMatches (po_scopeIdentity P (fl_scope fl)) s
      | _ \<Rightarrow> True)"

definition started_ok :: "('e, 'scope, 'x, 'o, 'r) ports \<Rightarrow> ('scope, 'x, 'r) started \<Rightarrow> bool" where
  "started_ok P st \<longleftrightarrow> (case st of Started fl \<Rightarrow> flight_ok P fl | _ \<Rightarrow> True)"

definition world_ok ::
  "('e, 'scope, 'x, 'o, 'r) ports \<Rightarrow> ('e, 'scope, 'x, 'o, 'r) storage_world \<Rightarrow> bool" where
  "world_ok P w \<longleftrightarrow> rt_subscribed (w_storage w) \<and> shown_ok (captured_identity P (w_owner w)) (w_storage w)
     \<and> (\<forall>fl \<in> set (w_flights w). flight_ok P fl)"

lemma plain_activities [simp]:
  "activity_ok idle_activity" "activity_ok running_activity" "activity_ok (failed_activity m)"
  "ac_result idle_activity = None" "ac_result running_activity = None" "ac_result (failed_activity m) = None"
  by (simp_all add: activity_ok_def idle_activity_def running_activity_def failed_activity_def)

lemma settled_activity_ok [simp]:
  "activity_ok (settled_activity P m r)" "ac_result (settled_activity P m r) = Some r"
  by (simp_all add: activity_ok_def settled_activity_def Let_def)

lemma shown_ok_Some:
  "shown_ok (Some sc) rt \<longleftrightarrow> projection_ok (rt_projection rt)
     \<and> (\<forall>s. pr_snapshot (rt_projection rt) = Some s \<longrightarrow> chatStorageSnapshotMatches sc s)
     \<and> (\<forall>r. ac_result (pr_cleanup (rt_projection rt)) = Some r \<longrightarrow> chatStorageResultMatches sc r)
     \<and> (\<forall>r. ac_result (pr_retention (rt_projection rt)) = Some r \<longrightarrow> chatStorageResultMatches sc r)"
  by (simp add: shown_ok_def of_scope_def)

lemma projection_ok_activities:
  "projection_ok p \<Longrightarrow> activity_ok (pr_cleanup p) \<and> activity_ok (pr_retention p)"
  "projection_ok p \<Longrightarrow> activity_ok a \<Longrightarrow> projection_ok (p\<lparr>pr_cleanup := a\<rparr>)"
  "projection_ok p \<Longrightarrow> activity_ok a \<Longrightarrow> projection_ok (p\<lparr>pr_retention := a\<rparr>)"
  by (auto simp: projection_ok_def split: projection_status.splits)

lemma projection_ok_fresh:
  "projection_ok \<lparr>pr_status = StorageMeasuring, pr_snapshot = s, pr_stale = st, pr_error = None,
                  pr_cleanup = a, pr_retention = b\<rparr> \<longleftrightarrow> st = (s \<noteq> None) \<and> activity_ok a \<and> activity_ok b"
  "projection_ok \<lparr>pr_status = StorageReady, pr_snapshot = s, pr_stale = False, pr_error = None,
                  pr_cleanup = a, pr_retention = b\<rparr> \<longleftrightarrow> s \<noteq> None \<and> activity_ok a \<and> activity_ok b"
  "projection_ok \<lparr>pr_status = StorageStale, pr_snapshot = Some s', pr_stale = True, pr_error = Some m,
                  pr_cleanup = a, pr_retention = b\<rparr> \<longleftrightarrow> activity_ok a \<and> activity_ok b"
  "projection_ok \<lparr>pr_status = StorageUnavailable, pr_snapshot = None, pr_stale = False, pr_error = Some m,
                  pr_cleanup = a, pr_retention = b\<rparr> \<longleftrightarrow> activity_ok a \<and> activity_ok b"
  by (auto simp: projection_ok_def)

lemma idle_ok [simp]: "shown_ok scope (publish idleChatStorageProjection rt)"
  by (simp add: shown_ok_def of_scope_def projection_ok_def publish_def idleChatStorageProjection_def split: option.split)

lemmas shown_simps = shown_ok_Some publish_def projection_ok_activities projection_ok_fresh

lemma refresh_ok:
  assumes "shown_ok (captured_identity P e) rt"
  shows "shown_ok (captured_identity P e) (snd (refresh P e rt)) \<and> started_ok P (fst (refresh P e rt))
    \<and> rt_subscribed (snd (refresh P e rt)) = rt_subscribed rt"
proof (cases "po_captureScope P e")
  case None
  then show ?thesis by (simp add: refresh_def started_ok_def) (simp add: publish_def)
next
  case (Some sc)
  show ?thesis
  proof (cases "in_flight (rt_inFlight rt) (revision_of P sc)")
    case None
    with Some assms show ?thesis
      by (auto simp: refresh_def captured_identity_def shown_simps started_ok_def flight_ok_def
          previous_snapshot_def Let_def split: option.splits)
  next
    case (Some q)
    with \<open>po_captureScope P e = Some sc\<close> assms show ?thesis by (simp add: refresh_def started_ok_def)
  qed
qed

lemma refresh_settle_ok:
  assumes "shown_ok (Some (po_scopeIdentity P sc)) rt" "flight_ok P \<lparr>fl_promise = p, fl_scope = sc, fl_request = LoadSnapshot previous\<rparr>"
  shows "shown_ok (Some (po_scopeIdentity P sc)) (refresh_settle P e sc previous outcome rt)"
  using assms
  by (auto simp: refresh_settle_def shown_simps flight_ok_def accepts_def Let_def split: sum.splits option.splits)

lemma result_matches_snapshot:
  "chatStorageResultMatches sc r \<Longrightarrow>
     sr_snapshot r \<noteq> None \<and> (\<forall>s. sr_snapshot r = Some s \<longrightarrow> chatStorageSnapshotMatches sc s)"
  by (auto simp: chatStorageResultMatches_def Let_def split: option.splits)

lemma result_settle_ok:
  assumes "shown_ok (Some (po_scopeIdentity P sc)) rt"
  shows "shown_ok (Some (po_scopeIdentity P sc)) (snd (clearCache_settle P e sc outcome rt))"
    "shown_ok (Some (po_scopeIdentity P sc)) (snd (setRetention_settle P e now sc outcome rt))"
    "shown_ok (Some (po_scopeIdentity P sc)) (snd (storage_clearConversation_settle P e sc outcome rt))"
proof -
  note match = result_matches_snapshot [of "po_scopeIdentity P sc"]
  show "shown_ok (Some (po_scopeIdentity P sc)) (snd (clearCache_settle P e sc outcome rt))"
    using assms match by (auto simp: clearCache_settle_def shown_simps resultMatches_def Let_def split: sum.splits)
  show "shown_ok (Some (po_scopeIdentity P sc)) (snd (setRetention_settle P e now sc outcome rt))"
    using assms match by (auto simp: setRetention_settle_def shown_simps resultMatches_def Let_def split: sum.splits)
  show "shown_ok (Some (po_scopeIdentity P sc)) (snd (storage_clearConversation_settle P e sc outcome rt))"
    using assms match by (auto simp: storage_clearConversation_settle_def shown_simps resultMatches_def split: sum.splits option.splits)
qed

lemma activity_start_ok:
  assumes "shown_ok (captured_identity P e) rt"
  shows "shown_ok (captured_identity P e) (snd (clearCache P e rt)) \<and> started_ok P (fst (clearCache P e rt))
      \<and> rt_subscribed (snd (clearCache P e rt)) = rt_subscribed rt"
    "shown_ok (captured_identity P e) (snd (setRetention P e r rt)) \<and> started_ok P (fst (setRetention P e r rt))
      \<and> rt_subscribed (snd (setRetention P e r rt)) = rt_subscribed rt"
    "shown_ok (captured_identity P e) (snd (storage_clearConversation P e c rt)) \<and> started_ok P (fst (storage_clearConversation P e c rt))
      \<and> rt_subscribed (snd (storage_clearConversation P e c rt)) = rt_subscribed rt"
  using assms
  by (auto simp: clearCache_def setRetention_def storage_clearConversation_def captured_identity_def shown_simps started_ok_def
      flight_ok_def Let_def split: option.splits)

lemma with_started_ok:
  assumes "shown_ok (captured_identity P (w_owner w)) (snd r) \<and> started_ok P (fst r) \<and> rt_subscribed (snd r)"
    "\<forall>fl \<in> set (w_flights w). flight_ok P fl"
  shows "world_ok P (with_started r w)" "w_owner (with_started r w) = w_owner w"
  using assms by (auto simp: world_ok_def with_started_def started_ok_def split: started.splits)

lemma flight_of_in: "flight_of p fls = Some fl \<Longrightarrow> fl \<in> set fls"
  by (auto simp: flight_of_def dest: find_Some_in)

lemma without_flight_in: "fl \<in> set (without_flight p fls) \<Longrightarrow> fl \<in> set fls"
  by (simp add: without_flight_def)

lemma request_settles_ok:
  assumes "world_ok P w"
    and "\<And>fl. fl \<in> set (w_flights w) \<Longrightarrow> shown_ok (captured_identity P (w_owner w)) (f fl (w_storage w))
           \<and> rt_subscribed (f fl (w_storage w)) = rt_subscribed (w_storage w)"
  shows "world_ok P (request_settles p f w)" "w_owner (request_settles p f w) = w_owner w"
  using assms
  by (auto simp: request_settles_def world_ok_def dest: flight_of_in without_flight_in split: option.splits)

lemma settle_other_scope:
  assumes "\<not> po_isCurrentScope P e (fl_scope fl)"
  shows "settle_snapshot P e fl s rt = rt" "settle_result P e now fl r rt = rt"
  using assms
  by (auto simp: settle_snapshot_def settle_result_def refresh_settle_def accepts_def clearCache_settle_def Let_def
      setRetention_settle_def storage_clearConversation_settle_def split: request.splits sum.splits)

lemma settle_subscribed [simp]:
  "rt_subscribed (settle_snapshot P e fl s rt) = rt_subscribed rt"
  "rt_subscribed (settle_result P e now fl r rt) = rt_subscribed rt"
  by (auto simp: settle_snapshot_def settle_result_def refresh_settle_def clearCache_settle_def publish_def Let_def
      setRetention_settle_def storage_clearConversation_settle_def split: request.splits sum.splits option.splits)

lemma settle_same_scope:
  assumes "shown_ok (Some (po_scopeIdentity P (fl_scope fl))) rt" "flight_ok P fl"
  shows "shown_ok (Some (po_scopeIdentity P (fl_scope fl))) (settle_snapshot P e fl s rt)"
    "shown_ok (Some (po_scopeIdentity P (fl_scope fl))) (settle_result P e now fl r rt)"
proof -
  show "shown_ok (Some (po_scopeIdentity P (fl_scope fl))) (settle_snapshot P e fl s rt)"
    using assms refresh_settle_ok [OF assms(1)]
    by (cases fl; cases "fl_request fl") (auto simp: settle_snapshot_def flight_ok_def)
  show "shown_ok (Some (po_scopeIdentity P (fl_scope fl))) (settle_result P e now fl r rt)"
    using assms(1) result_settle_ok [OF assms(1)] by (auto simp: settle_result_def split: request.split)
qed

text \<open>
  The owner of the scope, as the runtime relies on it: a scope it calls current is the one it captures,
  and it does not leave a captured scope without notifying its listeners.
\<close>

locale scope_owner =
  fixes P :: "('e, 'scope, 'x, 'o, 'r) ports"
    and move :: "'ev \<Rightarrow> 'e \<Rightarrow> 'e \<times> 'scope option option"
    and owner_ok :: "'e \<Rightarrow> bool"
  assumes current_captured:
      "owner_ok e \<Longrightarrow> po_isCurrentScope P e sc \<Longrightarrow> captured_identity P e = Some (po_scopeIdentity P sc)"
    and move_ok: "owner_ok e \<Longrightarrow> owner_ok (fst (move ev e))"
    and leaving_notifies:
      "owner_ok e \<Longrightarrow> snd (move ev e) = None \<Longrightarrow>
         captured_identity P e = None \<or> captured_identity P (fst (move ev e)) = captured_identity P e"
begin

lemma settle_shown:
  assumes "owner_ok e" "shown_ok (captured_identity P e) rt" "flight_ok P fl"
  shows "shown_ok (captured_identity P e) (settle_snapshot P e fl s rt)"
    "shown_ok (captured_identity P e) (settle_result P e now fl r rt)"
proof (atomize (full), cases "po_isCurrentScope P e (fl_scope fl)")
  case True
  from current_captured [OF assms(1) True] assms
  show "shown_ok (captured_identity P e) (settle_snapshot P e fl s rt)
        \<and> shown_ok (captured_identity P e) (settle_result P e now fl r rt)"
    by (simp add: settle_same_scope)
next
  case False
  with assms show "shown_ok (captured_identity P e) (settle_snapshot P e fl s rt)
        \<and> shown_ok (captured_identity P e) (settle_result P e now fl r rt)"
    by (simp add: settle_other_scope)
qed

lemma owner_moves_ok:
  assumes "owner_ok (w_owner w)" "world_ok P w"
  shows "owner_ok (w_owner (storage_step P move (OwnerMoves ev) w)) \<and> world_ok P (storage_step P move (OwnerMoves ev) w)"
proof -
  obtain e' n where mv: "move ev (w_owner w) = (e', n)" by fastforce
  have ok: "owner_ok e'" using move_ok [OF assms(1), of ev] by (simp add: mv)
  show ?thesis
  proof (cases n)
    case None
    with leaving_notifies [OF assms(1), of ev] mv assms(2) have "shown_ok (captured_identity P e') (w_storage w)"
      by (auto simp: world_ok_def shown_ok_def of_scope_def split: option.splits)
    with None mv ok assms(2) show ?thesis by (simp add: world_ok_def)
  next
    case (Some sc)
    let ?idle = "publish idleChatStorageProjection ((w_storage w)\<lparr>rt_lastRetentionSweepAtUnixMs := 0\<rparr>)"
    have sub: "rt_subscribed ?idle" using assms(2) by (simp add: world_ok_def publish_def)
    have "shown_ok (captured_identity P e') (snd (scope_listener P e' sc (w_storage w)))
        \<and> started_ok P (fst (scope_listener P e' sc (w_storage w)))
        \<and> rt_subscribed (snd (scope_listener P e' sc (w_storage w)))"
      using refresh_ok [of P e' ?idle] sub by (auto simp: scope_listener_def Let_def started_ok_def)
    then show ?thesis
      using with_started_ok [of P "w\<lparr>w_owner := e'\<rparr>" "scope_listener P e' sc (w_storage w)"] Some mv ok assms(2)
      by (auto simp: world_ok_def)
  qed
qed

lemma call_ok:
  assumes "world_ok P w" "ev \<noteq> CallTeardown" "\<And>m. ev \<noteq> OwnerMoves m"
    "\<And>p s. ev \<noteq> SnapshotArrives p s" "\<And>p n r. ev \<noteq> ResultArrives p n r"
  shows "world_ok P (storage_step P move ev w) \<and> w_owner (storage_step P move ev w) = w_owner w"
proof -
  let ?id = "captured_identity P (w_owner w)" and ?rt = "w_storage w"
  have w: "rt_subscribed ?rt" "shown_ok ?id ?rt" "\<forall>fl \<in> set (w_flights w). flight_ok P fl"
    using assms(1) by (auto simp: world_ok_def)
  note started = with_started_ok [OF _ w(3)]
  show ?thesis
  proof (cases ev)
    case CallInstall
    with w show ?thesis by (auto simp: world_ok_def install_def shown_ok_def)
  next
    case (CallBootstrap active)
    have "rt_subscribed (publish idleChatStorageProjection ?rt)" using w by (simp add: publish_def)
    with refresh_ok [of P "w_owner w" "publish idleChatStorageProjection ?rt"] CallBootstrap show ?thesis
      by (simp add: bootstrap_def Let_def started started_ok_def)
  next
    case (ReconcileGoesOn now)
    then show ?thesis using w activity_start_ok(2) [OF w(2)]
      by (auto simp: reconcile_rest_def started started_ok_def split: option.splits)
  next
    case (CallConfigure sc)
    with w show ?thesis
      by (auto simp: world_ok_def configureAcceptanceBatchScenario_def Let_def shown_ok_def split: option.splits)
  next
    case (RequestFinishes p)
    with w show ?thesis
      by (auto simp: world_ok_def finish_request_def Let_def shown_ok_def split: option.splits request.splits)
  qed (use assms w refresh_ok [OF w(2)] activity_start_ok [OF w(2)] in \<open>simp_all add: started\<close>)
qed

lemma step_ok:
  assumes "owner_ok (w_owner w)" "world_ok P w" "ev \<noteq> CallTeardown"
  shows "owner_ok (w_owner (storage_step P move ev w)) \<and> world_ok P (storage_step P move ev w)"
proof -
  let ?e = "w_owner w" and ?rt = "w_storage w"
  have w: "shown_ok (captured_identity P ?e) ?rt" "\<And>fl. fl \<in> set (w_flights w) \<Longrightarrow> flight_ok P fl"
    using assms(2) by (auto simp: world_ok_def)
  consider m where "ev = OwnerMoves m" | p s where "ev = SnapshotArrives p s" | p n r where "ev = ResultArrives p n r"
    | "\<And>m. ev \<noteq> OwnerMoves m" "\<And>p s. ev \<noteq> SnapshotArrives p s" "\<And>p n r. ev \<noteq> ResultArrives p n r"
    by (cases ev) auto
  then show ?thesis
  proof cases
    case 1
    then show ?thesis using owner_moves_ok [OF assms(1,2)] by simp
  next
    case (2 p s)
    with request_settles_ok [OF assms(2), of "\<lambda>fl. settle_snapshot P ?e fl s"] show ?thesis
      by (simp add: settle_shown [OF assms(1) w(1)] w(2) assms(1))
  next
    case (3 p n r)
    with request_settles_ok [OF assms(2), of "\<lambda>fl. settle_result P ?e n fl r"] show ?thesis
      by (simp add: settle_shown [OF assms(1) w(1)] w(2) assms(1))
  next
    case 4
    with call_ok [OF assms(2,3)] assms(1) show ?thesis by simp
  qed
qed

lemma run_ok:
  "owner_ok (w_owner w) \<Longrightarrow> world_ok P w \<Longrightarrow> CallTeardown \<notin> set evs \<Longrightarrow> world_ok P (storage_run P move evs w)"
  unfolding storage_run_def by (induction evs arbitrary: w) (simp_all add: step_ok [OF _ _ not_sym])

lemma installed_ok: "world_ok P (installed_world e)"
  by (auto simp: world_ok_def installed_world_def install_def new_storage_def shown_ok_def of_scope_def
      projection_ok_def idleChatStorageProjection_def split: option.splits)

end

end
