(* ===== verification/Messaging_Runtime.thy ===== *)
theory Messaging_Runtime
  imports Chat_Storage
begin

text \<open>
  The owner of the messaging scope of the desktop client, \<^verbatim>\<open>apps/desktop/src/messaging/runtime.ts\<close>, and the
  storage projection over it, \<^verbatim>\<open>apps/desktop/src/runtimes/chatStorageRuntime.ts\<close>.

  A scope is the account, station, profile and device that messages are read for.  It is resolved by
  asynchronous requests, and dropped whenever the session, the station or the profile changes.  The
  model cuts every activation at its awaits; the activations queued on the promise \<^verbatim>\<open>scopeTransition\<close> run one
  after the other.  The session store is part of the state; the requests, the lifecycle port and the
  attachment controller are outside calls.
\<close>

section \<open>State\<close>

record messaging_scope =
  mc_actorPtid :: string
  mc_stationPeerId :: string
  mc_profileId :: string
  mc_endpointId :: string
  mc_activationGeneration :: nat

record session_state =
  se_sessionEpoch :: int
  se_authenticated :: bool
  se_currentUserPtid :: "string option"

definition currentAuthenticatedActorPtid :: "session_state \<Rightarrow> string option" where
  "currentAuthenticatedActorPtid session =
     (if \<not> se_authenticated session then None else se_currentUserPtid session)"

record profile_payload =
  pp_actorPtid :: string
  pp_sessionEpoch :: int
  pp_profileId :: string
  pp_stationPeerId :: string
  pp_endpointId :: string

text \<open>
  An activation: a call of \<^verbatim>\<open>activateScope\<close>, by \<^verbatim>\<open>bootstrap\<close> at once or queued behind the others of its
  promise chain.
\<close>

datatype activation_phase = Queued | Resolving | Reconciling messaging_scope

record activation =
  at_actorPtid :: "string option"
  at_generation :: nat
  at_sessionEpoch :: int
  at_expected :: "profile_payload option"
  at_chain :: "nat option"
  at_phase :: activation_phase

record messaging =
  mg_configured :: bool
  mg_installed :: bool
  mg_activeScope :: "messaging_scope option"
  mg_scopeSessionEpoch :: "int option"
  mg_activationGeneration :: nat
  mg_pendingScopeGeneration :: "nat option"
  mg_reconcileTimer :: bool
  mg_scopeTransition :: nat
  mg_session :: session_state
  mg_activations :: "activation list"

definition new_messaging :: "session_state \<Rightarrow> messaging" where
  "new_messaging session =
     \<lparr>mg_configured = False, mg_installed = False, mg_activeScope = None, mg_scopeSessionEpoch = None,
      mg_activationGeneration = 0, mg_pendingScopeGeneration = None, mg_reconcileTimer = False,
      mg_scopeTransition = 0, mg_session = session, mg_activations = []\<rparr>"

section \<open>Reading the scope\<close>

definition captureScope :: "messaging \<Rightarrow> messaging_scope option" where
  "captureScope m = mg_activeScope m"

definition isCurrentScope :: "messaging \<Rightarrow> messaging_scope \<Rightarrow> bool" where
  "isCurrentScope m scope \<longleftrightarrow>
     (case mg_activeScope m of
        None \<Rightarrow> False
      | Some current \<Rightarrow>
          mc_actorPtid current = mc_actorPtid scope
          \<and> mc_stationPeerId current = mc_stationPeerId scope
          \<and> mc_profileId current = mc_profileId scope
          \<and> mc_endpointId current = mc_endpointId scope
          \<and> mc_activationGeneration current = mc_activationGeneration scope
          \<and> mg_installed m
          \<and> mg_scopeSessionEpoch m = Some (se_sessionEpoch (mg_session m))
          \<and> currentAuthenticatedActorPtid (mg_session m) = Some (mc_actorPtid scope))"

record invalidation =
  iv_actorPtid :: string
  iv_homeStationPeerId :: string
  iv_deviceId :: string
  iv_schemaVersion :: int
  iv_resync :: bool
  iv_conversationId :: string
  iv_eventId :: string
  iv_laneSequence :: int

definition matchesInvalidation :: "messaging \<Rightarrow> invalidation \<Rightarrow> bool" where
  "matchesInvalidation m payload \<longleftrightarrow>
     (case mg_activeScope m of
        None \<Rightarrow> False
      | Some current \<Rightarrow>
          isCurrentScope m current
          \<and> iv_actorPtid payload = mc_actorPtid current
          \<and> iv_homeStationPeerId payload = mc_stationPeerId current
          \<and> iv_deviceId payload = mc_endpointId current
          \<and> iv_schemaVersion payload = 1
          \<and> (iv_resync payload \<or> iv_conversationId payload \<noteq> [])
          \<and> iv_eventId payload \<noteq> []
          \<and> iv_laneSequence payload > 0)"

text \<open>The errors are those of the class \<^verbatim>\<open>MessagingRuntimeScopeChangedError\<close> and of the operation itself.\<close>

datatype scoped_error = ScopeChangedError | OperationRejected thrown_value

definition requireActiveScope :: "messaging \<Rightarrow> scoped_error + messaging_scope" where
  "requireActiveScope m =
     (case captureScope m of
        None \<Rightarrow> Inl ScopeChangedError
      | Some scope \<Rightarrow> if isCurrentScope m scope then Inr scope else Inl ScopeChangedError)"

definition assertCurrent :: "messaging \<Rightarrow> messaging_scope \<Rightarrow> scoped_error + unit" where
  "assertCurrent m scope = (if isCurrentScope m scope then Inr () else Inl ScopeChangedError)"

text \<open>
  An operation under a scope: the scope is taken when it starts, and its answer is passed on when the
  scope is still current.  Other events run in between.
\<close>

definition runScoped_start :: "messaging \<Rightarrow> scoped_error + messaging_scope" where
  "runScoped_start m = requireActiveScope m"

definition runScoped_settle ::
  "messaging \<Rightarrow> messaging_scope \<Rightarrow> thrown_value + 'a \<Rightarrow> scoped_error + 'a" where
  "runScoped_settle m scope outcome =
     (case outcome of
        Inl err \<Rightarrow> Inl (OperationRejected err)
      | Inr result \<Rightarrow> (case assertCurrent m scope of Inl err \<Rightarrow> Inl err | Inr _ \<Rightarrow> Inr result))"

section \<open>Moving the scope\<close>

text \<open>
  An operation gives the state after it and what it published to the scope listeners, if anything.
\<close>

type_synonym moved = "messaging \<times> messaging_scope option option"

definition clearScope :: "messaging \<Rightarrow> messaging" where
  "clearScope m =
     m\<lparr>mg_activationGeneration := mg_activationGeneration m + 1, mg_pendingScopeGeneration := None,
       mg_activeScope := None, mg_scopeSessionEpoch := None\<rparr>"

definition publishScope :: "messaging \<Rightarrow> moved" where
  "publishScope m = (m, Some (captureScope m))"

definition find_activation :: "messaging \<Rightarrow> nat \<Rightarrow> activation option" where
  "find_activation m g = find (\<lambda>a. at_generation a = g) (mg_activations m)"

definition set_phase :: "nat \<Rightarrow> activation_phase \<Rightarrow> messaging \<Rightarrow> messaging" where
  "set_phase g ph m =
     m\<lparr>mg_activations := map (\<lambda>a. if at_generation a = g then a\<lparr>at_phase := ph\<rparr> else a) (mg_activations m)\<rparr>"

definition end_activation :: "nat \<Rightarrow> messaging \<Rightarrow> messaging" where
  "end_activation g m =
     m\<lparr>mg_activations := filter (\<lambda>a. at_generation a \<noteq> g) (mg_activations m),
       mg_pendingScopeGeneration :=
         (if mg_pendingScopeGeneration m = Some g then None else mg_pendingScopeGeneration m)\<rparr>"

definition activateScope :: "activation \<Rightarrow> messaging \<Rightarrow> messaging" where
  "activateScope a m =
     (if at_actorPtid a = None \<or> at_actorPtid a = Some [] then end_activation (at_generation a) m
      else set_phase (at_generation a) Resolving (m\<lparr>mg_pendingScopeGeneration := Some (at_generation a)\<rparr>))"

definition bootstrap_scope :: "string option \<Rightarrow> messaging \<Rightarrow> (scoped_error + unit) \<times> moved" where
  "bootstrap_scope actorPtid m =
     (if \<not> mg_installed m then (Inl ScopeChangedError, m, None)
      else
        let m1 = clearScope m;
            a = \<lparr>at_actorPtid = actorPtid, at_generation = mg_activationGeneration m1,
                 at_sessionEpoch = se_sessionEpoch (mg_session m1), at_expected = None, at_chain = None,
                 at_phase = Resolving\<rparr> in
        (Inr (), activateScope a (m1\<lparr>mg_activations := mg_activations m1 @ [a]\<rparr>), Some None))"

definition enqueueScopeRefresh :: "profile_payload option \<Rightarrow> messaging \<Rightarrow> moved" where
  "enqueueScopeRefresh expected m =
     (if \<not> mg_installed m then (m, None)
      else
        let m1 = clearScope m; generation = mg_activationGeneration m1;
            a = \<lparr>at_actorPtid = currentAuthenticatedActorPtid (mg_session m), at_generation = generation,
                 at_sessionEpoch = se_sessionEpoch (mg_session m), at_expected = expected,
                 at_chain = Some (mg_scopeTransition m), at_phase = Queued\<rparr> in
        (m1\<lparr>mg_pendingScopeGeneration := Some generation, mg_activations := mg_activations m1 @ [a]\<rparr>, Some None))"

text \<open>The activations queued before one on its chain have to end before it starts.\<close>

definition may_start :: "messaging \<Rightarrow> activation \<Rightarrow> bool" where
  "may_start m a \<longleftrightarrow>
     at_phase a = Queued
     \<and> (case find (\<lambda>b. at_chain b = at_chain a) (mg_activations m) of
          Some b \<Rightarrow> at_generation b = at_generation a | None \<Rightarrow> False)"

definition queued_starts :: "nat \<Rightarrow> messaging \<Rightarrow> messaging" where
  "queued_starts g m =
     (case find_activation m g of
        None \<Rightarrow> m
      | Some a \<Rightarrow>
          if \<not> may_start m a then m
          else if \<not> mg_installed m \<or> g \<noteq> mg_activationGeneration m
              \<or> at_actorPtid a \<noteq> currentAuthenticatedActorPtid (mg_session m)
              \<or> at_sessionEpoch a \<noteq> se_sessionEpoch (mg_session m)
          then end_activation g m
          else activateScope a m)"

record scope_answers =
  an_profileId :: "string option"
  an_stationPeerId :: string
  an_endpointId :: string

definition expected_differs :: "profile_payload option \<Rightarrow> messaging_scope \<Rightarrow> bool" where
  "expected_differs expected scope \<longleftrightarrow>
     (case expected of
        None \<Rightarrow> False
      | Some e \<Rightarrow> pp_profileId e \<noteq> mc_profileId scope \<or> pp_stationPeerId e \<noteq> mc_stationPeerId scope
          \<or> pp_endpointId e \<noteq> mc_endpointId scope)"

definition resolved_scope :: "activation \<Rightarrow> scope_answers \<Rightarrow> messaging_scope" where
  "resolved_scope a answers =
     \<lparr>mc_actorPtid = (case at_actorPtid a of Some p \<Rightarrow> p | None \<Rightarrow> []),
      mc_stationPeerId = js_trim (an_stationPeerId answers),
      mc_profileId = (case an_profileId answers of Some p \<Rightarrow> js_trim p | None \<Rightarrow> []),
      mc_endpointId = js_trim (an_endpointId answers),
      mc_activationGeneration = at_generation a\<rparr>"

definition scope_complete :: "messaging_scope \<Rightarrow> bool" where
  "scope_complete scope \<longleftrightarrow> mc_profileId scope \<noteq> [] \<and> mc_stationPeerId scope \<noteq> [] \<and> mc_endpointId scope \<noteq> []"

definition resolve_refused :: "messaging \<Rightarrow> activation \<Rightarrow> messaging_scope \<Rightarrow> bool" where
  "resolve_refused m a scope \<longleftrightarrow>
     \<not> mg_installed m
     \<or> currentAuthenticatedActorPtid (mg_session m) \<noteq> at_actorPtid a
     \<or> at_sessionEpoch a \<noteq> se_sessionEpoch (mg_session m)
     \<or> at_generation a \<noteq> mg_activationGeneration m
     \<or> expected_differs (at_expected a) scope"

text \<open>
  The continuation of \<^verbatim>\<open>resolveScope\<close> once the three requests are answered; \<open>None\<close> is a rejected request.
  Every exit that throws ends the activation.
\<close>

definition answers_arrive :: "nat \<Rightarrow> scope_answers option \<Rightarrow> messaging \<Rightarrow> messaging" where
  "answers_arrive g answers m =
     (case find_activation m g of
        None \<Rightarrow> m
      | Some a \<Rightarrow>
          if at_phase a \<noteq> Resolving then m
          else (case answers of
                  None \<Rightarrow> end_activation g m
                | Some ans \<Rightarrow>
                    let scope = resolved_scope a ans in
                    if \<not> scope_complete scope \<or> resolve_refused m a scope then end_activation g m
                    else set_phase g (Reconciling scope)
                           (m\<lparr>mg_activeScope := Some scope, mg_scopeSessionEpoch := Some (at_sessionEpoch a)\<rparr>)))"

definition lifecycle_reconciled :: "nat \<Rightarrow> bool \<Rightarrow> messaging \<Rightarrow> moved" where
  "lifecycle_reconciled g succeeded m =
     (case find_activation m g of
        None \<Rightarrow> (m, None)
      | Some a \<Rightarrow>
          (case at_phase a of
             Reconciling scope \<Rightarrow>
               if succeeded \<and> isCurrentScope m scope
               then (end_activation g m, snd (publishScope m))
               else (end_activation g m, None)
           | _ \<Rightarrow> (m, None)))"

definition onStationChanged :: "string \<Rightarrow> messaging \<Rightarrow> moved" where
  "onStationChanged payload m =
     (let stationPeerId = js_trim payload in
      if stationPeerId \<noteq> [] \<and> map_option mc_stationPeerId (mg_activeScope m) = Some stationPeerId then (m, None)
      else enqueueScopeRefresh None m)"

definition onProfileActivated :: "profile_payload \<Rightarrow> messaging \<Rightarrow> moved" where
  "onProfileActivated payload m =
     (if Some (pp_actorPtid payload) \<noteq> currentAuthenticatedActorPtid (mg_session m)
         \<or> pp_sessionEpoch payload \<noteq> se_sessionEpoch (mg_session m)
         \<or> js_trim (pp_profileId payload) = [] \<or> js_trim (pp_stationPeerId payload) = []
         \<or> js_trim (pp_endpointId payload) = []
      then (m, None)
      else enqueueScopeRefresh (Some payload) m)"

definition session_changes :: "session_state \<Rightarrow> messaging \<Rightarrow> moved" where
  "session_changes session m =
     (let m1 = m\<lparr>mg_session := session\<rparr>; previous = mg_session m in
      if mg_installed m
         \<and> (se_sessionEpoch session \<noteq> se_sessionEpoch previous
            \<or> se_authenticated session \<noteq> se_authenticated previous
            \<or> se_currentUserPtid session \<noteq> se_currentUserPtid previous)
      then enqueueScopeRefresh None m1 else (m1, None))"

definition install_messaging :: "messaging \<Rightarrow> (string + unit) \<times> messaging" where
  "install_messaging m =
     (if mg_installed m then (Inr (), m)
      else if \<not> mg_configured m then (Inl ''messaging_runtime_not_configured'', m)
      else (Inr (), m\<lparr>mg_installed := True, mg_reconcileTimer := True\<rparr>))"

definition timer_ticks :: "messaging \<Rightarrow> moved" where
  "timer_ticks m =
     (if mg_reconcileTimer m \<and> mg_activeScope m = None \<and> mg_pendingScopeGeneration m = None
         \<and> currentAuthenticatedActorPtid (mg_session m) \<notin> {None, Some []}
      then enqueueScopeRefresh None m else (m, None))"

definition teardown_messaging :: "messaging \<Rightarrow> moved" where
  "teardown_messaging m =
     (if \<not> mg_installed m then (m, None)
      else ((clearScope (m\<lparr>mg_installed := False, mg_reconcileTimer := False\<rparr>))
              \<lparr>mg_scopeTransition := mg_scopeTransition m + 1\<rparr>, Some None))"

datatype messaging_event =
    Configure
  | Install
  | Bootstrap "string option"
  | SessionChanges session_state
  | StationChanged string
  | ProfileActivated profile_payload
  | QueuedStarts nat
  | AnswersArrive nat "scope_answers option"
  | LifecycleReconciled nat bool
  | TimerTicks
  | Teardown

fun messaging_step :: "messaging_event \<Rightarrow> messaging \<Rightarrow> moved" where
  "messaging_step Configure m = (m\<lparr>mg_configured := True\<rparr>, None)"
| "messaging_step Install m = (snd (install_messaging m), None)"
| "messaging_step (Bootstrap actorPtid) m = snd (bootstrap_scope actorPtid m)"
| "messaging_step (SessionChanges session) m = session_changes session m"
| "messaging_step (StationChanged station) m = onStationChanged station m"
| "messaging_step (ProfileActivated payload) m = onProfileActivated payload m"
| "messaging_step (QueuedStarts g) m = (queued_starts g m, None)"
| "messaging_step (AnswersArrive g answers) m = (answers_arrive g answers m, None)"
| "messaging_step (LifecycleReconciled g succeeded) m = lifecycle_reconciled g succeeded m"
| "messaging_step TimerTicks m = timer_ticks m"
| "messaging_step Teardown m = teardown_messaging m"

definition messaging_run :: "messaging_event list \<Rightarrow> messaging \<Rightarrow> messaging" where
  "messaging_run evs m = fold (\<lambda>ev m. fst (messaging_step ev m)) evs m"

section \<open>A generation has at most one scope\<close>

definition messaging_ok :: "messaging \<Rightarrow> bool" where
  "messaging_ok m \<longleftrightarrow>
     distinct (map at_generation (mg_activations m))
     \<and> (\<forall>a \<in> set (mg_activations m). at_generation a \<le> mg_activationGeneration m
          \<and> (at_generation a = mg_activationGeneration m \<and> at_phase a \<in> {Queued, Resolving} \<longrightarrow> mg_activeScope m = None))
     \<and> (\<forall>scope. mg_activeScope m = Some scope \<longrightarrow> mc_activationGeneration scope = mg_activationGeneration m)"

lemma new_messaging_ok [simp]: "messaging_ok (new_messaging session)"
  by (simp add: messaging_ok_def new_messaging_def)

text \<open>The ways a state changes: a new generation, or the same one with its activations moved on.\<close>

lemma set_phase_generations [simp]:
  "map at_generation (mg_activations (set_phase g ph m)) = map at_generation (mg_activations m)"
  "mg_activeScope (set_phase g ph m) = mg_activeScope m"
  "mg_activationGeneration (set_phase g ph m) = mg_activationGeneration m"
  by (simp_all add: set_phase_def comp_def if_distrib cong: if_cong)

lemma end_activation_fields [simp]:
  "mg_activeScope (end_activation g m) = mg_activeScope m"
  "mg_activationGeneration (end_activation g m) = mg_activationGeneration m"
  by (simp_all add: end_activation_def)

lemma end_activation_ok: "messaging_ok m \<Longrightarrow> messaging_ok (end_activation g m)"
  by (auto simp: messaging_ok_def end_activation_def distinct_map_filter)

lemma find_activation_in: "find_activation m g = Some a \<Longrightarrow> a \<in> set (mg_activations m) \<and> at_generation a = g"
  by (auto simp: find_activation_def dest: find_Some_in)

lemma set_phase_ok:
  assumes "messaging_ok m" "mg_activeScope m = None \<or> g \<noteq> mg_activationGeneration m"
  shows "messaging_ok (set_phase g ph m)"
  using assms by (auto simp: messaging_ok_def) (auto simp: set_phase_def split: if_splits)

lemma fresh_generation_ok:
  assumes "messaging_ok m" "at_generation a = mg_activationGeneration m + 1"
  shows "messaging_ok ((clearScope m)\<lparr>mg_pendingScopeGeneration := p, mg_activations := mg_activations m @ [a]\<rparr>)"
  using assms by (fastforce simp: messaging_ok_def clearScope_def)

lemma clearScope_ok: "messaging_ok m \<Longrightarrow> messaging_ok (clearScope m)"
  by (fastforce simp: messaging_ok_def clearScope_def)

lemma pending_irrelevant [simp]: "messaging_ok (m\<lparr>mg_pendingScopeGeneration := p\<rparr>) = messaging_ok m"
  by (simp add: messaging_ok_def)

lemma activateScope_fields [simp]:
  "mg_activeScope (activateScope a m) = mg_activeScope m"
  "mg_activationGeneration (activateScope a m) = mg_activationGeneration m"
  by (simp_all add: activateScope_def)

lemma activateScope_ok: "messaging_ok m \<Longrightarrow> mg_activeScope m = None \<Longrightarrow> messaging_ok (activateScope a m)"
  by (simp add: activateScope_def end_activation_ok set_phase_ok)

text \<open>A step either opens a new generation, without a scope and with a notification, or stays in its generation.\<close>

definition opens_generation :: "messaging \<Rightarrow> moved \<Rightarrow> bool" where
  "opens_generation m r \<longleftrightarrow>
     mg_activationGeneration (fst r) = mg_activationGeneration m + 1 \<and> mg_activeScope (fst r) = None \<and> snd r = Some None"

definition keeps_generation :: "messaging \<Rightarrow> moved \<Rightarrow> bool" where
  "keeps_generation m r \<longleftrightarrow>
     mg_activationGeneration (fst r) = mg_activationGeneration m
     \<and> (mg_activeScope (fst r) = mg_activeScope m \<or> mg_activeScope m = None)
     \<and> (\<forall>n. snd r = Some n \<longrightarrow> n = mg_activeScope (fst r))"

lemma enqueueScopeRefresh_step:
  assumes "messaging_ok m"
  shows "messaging_ok (fst (enqueueScopeRefresh expected m))
    \<and> (opens_generation m (enqueueScopeRefresh expected m) \<or> keeps_generation m (enqueueScopeRefresh expected m))"
proof (cases "mg_installed m")
  case True
  let ?a = "\<lparr>at_actorPtid = currentAuthenticatedActorPtid (mg_session m), at_generation = mg_activationGeneration m + 1,
     at_sessionEpoch = se_sessionEpoch (mg_session m), at_expected = expected,
     at_chain = Some (mg_scopeTransition m), at_phase = Queued\<rparr>"
  from fresh_generation_ok [OF assms, of ?a "Some (mg_activationGeneration m + 1)"] True show ?thesis
    by (simp add: enqueueScopeRefresh_def opens_generation_def clearScope_def)
qed (simp add: assms enqueueScopeRefresh_def keeps_generation_def)

lemma bootstrap_scope_step:
  assumes "messaging_ok m"
  shows "messaging_ok (fst (snd (bootstrap_scope actor m)))
    \<and> (opens_generation m (snd (bootstrap_scope actor m)) \<or> keeps_generation m (snd (bootstrap_scope actor m)))"
proof (cases "mg_installed m")
  case True
  let ?a = "\<lparr>at_actorPtid = actor, at_generation = mg_activationGeneration m + 1,
     at_sessionEpoch = se_sessionEpoch (mg_session m), at_expected = None, at_chain = None, at_phase = Resolving\<rparr>"
  let ?m = "(clearScope m)\<lparr>mg_pendingScopeGeneration := None, mg_activations := mg_activations m @ [?a]\<rparr>"
  have "messaging_ok ?m" by (rule fresh_generation_ok [OF assms]) simp
  then have "messaging_ok (activateScope ?a ?m)" by (rule activateScope_ok) (simp add: clearScope_def)
  moreover have "snd (bootstrap_scope actor m) = (activateScope ?a ?m, Some None)"
    using True by (cases m) (simp add: bootstrap_scope_def clearScope_def Let_def)
  ultimately show ?thesis by (simp add: opens_generation_def clearScope_def)
qed (simp add: assms bootstrap_scope_def keeps_generation_def)

lemma queued_starts_step:
  assumes "messaging_ok m"
  shows "messaging_ok (queued_starts g m) \<and> keeps_generation m (queued_starts g m, None)"
proof (cases "find_activation m g")
  case (Some a)
  note a = find_activation_in [OF Some]
  show ?thesis
  proof (cases "may_start m a \<and> g = mg_activationGeneration m")
    case True
    with assms a have "mg_activeScope m = None" by (auto simp: messaging_ok_def may_start_def)
    with Some assms show ?thesis
      by (simp add: queued_starts_def end_activation_ok activateScope_ok keeps_generation_def)
  next
    case False
    with Some assms show ?thesis by (auto simp: queued_starts_def end_activation_ok keeps_generation_def)
  qed
qed (simp add: assms queued_starts_def keeps_generation_def)

lemma answers_arrive_step:
  assumes "messaging_ok m"
  shows "messaging_ok (answers_arrive g answers m) \<and> keeps_generation m (answers_arrive g answers m, None)"
proof (cases "find_activation m g")
  case (Some a)
  note a = find_activation_in [OF Some]
  show ?thesis
  proof (cases "\<exists>ans. answers = Some ans \<and> at_phase a = Resolving
      \<and> scope_complete (resolved_scope a ans) \<and> \<not> resolve_refused m a (resolved_scope a ans)")
    case True
    then obtain ans where ans: "answers = Some ans" "at_phase a = Resolving" "scope_complete (resolved_scope a ans)"
      "\<not> resolve_refused m a (resolved_scope a ans)" by blast
    let ?sc = "resolved_scope a ans"
    let ?m = "m\<lparr>mg_activeScope := Some ?sc, mg_scopeSessionEpoch := Some (at_sessionEpoch a)\<rparr>"
    have g: "g = mg_activationGeneration m" using ans(4) a by (simp add: resolve_refused_def)
    with assms a ans(2) have none: "mg_activeScope m = None" by (auto simp: messaging_ok_def)
    let ?r = "set_phase g (Reconciling ?sc) ?m"
    have bound: "\<forall>b \<in> set (mg_activations m). at_generation b \<le> mg_activationGeneration m"
      and dist: "distinct (map at_generation (mg_activations m))"
      using assms by (simp_all add: messaging_ok_def)
    have acts: "\<forall>b \<in> set (mg_activations ?r). at_generation b \<le> mg_activationGeneration m
        \<and> (at_generation b = mg_activationGeneration m \<longrightarrow> at_phase b = Reconciling ?sc)"
      using bound by (auto simp: set_phase_def g)
    have "mc_activationGeneration ?sc = mg_activationGeneration m"
      using a g by (simp add: resolved_scope_def)
    with acts dist have "messaging_ok ?r" by (fastforce simp: messaging_ok_def)
    with Some ans none show ?thesis by (simp add: answers_arrive_def keeps_generation_def Let_def)
  next
    case False
    with Some assms show ?thesis
      by (auto simp: answers_arrive_def end_activation_ok keeps_generation_def Let_def split: option.splits)
  qed
qed (simp add: assms answers_arrive_def keeps_generation_def)

lemma lifecycle_reconciled_step:
  "messaging_ok m \<Longrightarrow> messaging_ok (fst (lifecycle_reconciled g ok m)) \<and> keeps_generation m (lifecycle_reconciled g ok m)"
  by (auto simp: lifecycle_reconciled_def end_activation_ok keeps_generation_def publishScope_def captureScope_def
      split: option.splits activation_phase.splits)

lemma session_irrelevant [simp]:
  "messaging_ok (m\<lparr>mg_session := s\<rparr>) = messaging_ok m"
  "opens_generation (m\<lparr>mg_session := s\<rparr>) r = opens_generation m r"
  "keeps_generation (m\<lparr>mg_session := s\<rparr>) r = keeps_generation m r"
  by (simp_all add: messaging_ok_def opens_generation_def keeps_generation_def)

lemma keeps_refl [simp]: "keeps_generation m (m, None)" "keeps_generation m (m\<lparr>mg_session := s\<rparr>, None)"
  by (simp_all add: keeps_generation_def)

lemma messaging_step_ok:
  assumes "messaging_ok m"
  shows "messaging_ok (fst (messaging_step ev m))
    \<and> (opens_generation m (messaging_step ev m) \<or> keeps_generation m (messaging_step ev m))"
proof (cases ev)
  case Configure
  then show ?thesis using assms by (simp add: messaging_ok_def keeps_generation_def)
next
  case Install
  then show ?thesis using assms by (auto simp: messaging_ok_def keeps_generation_def install_messaging_def)
next
  case (SessionChanges session)
  then show ?thesis
    using assms enqueueScopeRefresh_step [of "m\<lparr>mg_session := session\<rparr>" None] by (simp add: session_changes_def Let_def)
next
  case Teardown
  have "messaging_ok (m\<lparr>mg_installed := False, mg_reconcileTimer := False\<rparr>)" using assms by (simp add: messaging_ok_def)
  from clearScope_ok [OF this] have "messaging_ok (fst (teardown_messaging m))"
    using assms by (auto simp: teardown_messaging_def messaging_ok_def)
  with Teardown show ?thesis by (simp add: teardown_messaging_def opens_generation_def clearScope_def)
qed (use assms enqueueScopeRefresh_step [OF assms] bootstrap_scope_step [OF assms] queued_starts_step [OF assms]
       answers_arrive_step [OF assms] lifecycle_reconciled_step [OF assms]
     in \<open>auto simp: onStationChanged_def onProfileActivated_def timer_ticks_def Let_def\<close>)

lemma messaging_run_append: "messaging_run (xs @ ys) m = messaging_run ys (messaging_run xs m)"
  by (simp add: messaging_run_def)

lemma messaging_run_ok: "messaging_ok m \<Longrightarrow> messaging_ok (messaging_run evs m)"
  unfolding messaging_run_def by (induction evs arbitrary: m) (auto simp: messaging_step_ok)

lemma generation_step:
  "messaging_ok m \<Longrightarrow> mg_activationGeneration m \<le> mg_activationGeneration (fst (messaging_step ev m))
     \<and> (mg_activationGeneration (fst (messaging_step ev m)) = mg_activationGeneration m \<longrightarrow> mg_activeScope m \<noteq> None
        \<longrightarrow> mg_activeScope (fst (messaging_step ev m)) = mg_activeScope m)"
  using messaging_step_ok [of m ev] by (auto simp: opens_generation_def keeps_generation_def)

lemma generation_run:
  "messaging_ok m \<Longrightarrow> mg_activationGeneration m \<le> mg_activationGeneration (messaging_run evs m)
     \<and> (mg_activationGeneration (messaging_run evs m) = mg_activationGeneration m \<longrightarrow> mg_activeScope m \<noteq> None
        \<longrightarrow> mg_activeScope (messaging_run evs m) = mg_activeScope m)"
proof (induction evs arbitrary: m)
  case (Cons ev evs)
  let ?m = "fst (messaging_step ev m)"
  have "messaging_ok ?m" using messaging_step_ok [OF Cons.prems] by simp
  from Cons.IH [OF this] generation_step [OF Cons.prems, of ev] show ?case by (auto simp: messaging_run_def)
qed (simp add: messaging_run_def)

lemma current_scope_active: "isCurrentScope m scope \<Longrightarrow> mg_activeScope m = Some scope"
  by (cases scope; cases "mg_activeScope m") (auto simp: isCurrentScope_def messaging_scope.equality)

lemma scope_active_throughout:
  assumes ok: "messaging_ok m" and active: "mg_activeScope m = Some scope"
    and last: "mg_activeScope (messaging_run evs m) = Some scope"
  shows "mg_activeScope (messaging_run (take n evs) m) = Some scope"
proof -
  let ?mid = "messaging_run (take n evs) m"
  have run: "messaging_run evs m = messaging_run (drop n evs) ?mid"
    by (simp flip: messaging_run_append)
  have "mg_activationGeneration (messaging_run evs m) = mg_activationGeneration m"
    using ok active last messaging_run_ok [OF ok, of evs] by (simp add: messaging_ok_def)
  moreover have "mg_activationGeneration m \<le> mg_activationGeneration ?mid" using generation_run [OF ok] by blast
  moreover have "mg_activationGeneration ?mid \<le> mg_activationGeneration (messaging_run evs m)"
    unfolding run using generation_run [OF messaging_run_ok [OF ok]] by blast
  ultimately show ?thesis using generation_run [OF ok, of "take n evs"] active by auto
qed

text \<open>
  C6.  An operation that runs under a scope gives its result only when that scope was active all the
  time.  Whatever happens while it runs - sessions, stations and profiles change, scopes are dropped and
  resolved again - a scope that was left never becomes current a second time.
\<close>

theorem scoped_result_under_one_scope:
  assumes "runScoped_start (messaging_run before (new_messaging session)) = Inr scope"
    and "runScoped_settle (messaging_run (before @ during) (new_messaging session)) scope outcome = Inr result"
  shows "outcome = Inr result
    \<and> (\<forall>n. captureScope (messaging_run (before @ take n during) (new_messaging session)) = Some scope)"
proof -
  let ?m = "messaging_run before (new_messaging session)"
  have "isCurrentScope ?m scope"
    using assms(1) by (auto simp: runScoped_start_def requireActiveScope_def split: option.splits if_splits)
  moreover have "outcome = Inr result \<and> isCurrentScope (messaging_run during ?m) scope"
    using assms(2) by (auto simp: runScoped_settle_def assertCurrent_def messaging_run_append split: sum.splits if_splits)
  ultimately show ?thesis
    using scope_active_throughout [OF messaging_run_ok [OF new_messaging_ok]]
    by (simp add: captureScope_def messaging_run_append current_scope_active)
qed

definition demo_session :: session_state where
  "demo_session = \<lparr>se_sessionEpoch = 1, se_authenticated = True, se_currentUserPtid = Some ''ada''\<rparr>"

definition demo_answers :: scope_answers where
  "demo_answers = \<lparr>an_profileId = Some ''p1'', an_stationPeerId = '' home '', an_endpointId = ''laptop''\<rparr>"

definition demo_messaging_scope :: "nat \<Rightarrow> messaging_scope" where
  "demo_messaging_scope g =
     \<lparr>mc_actorPtid = ''ada'', mc_stationPeerId = ''home'', mc_profileId = ''p1'', mc_endpointId = ''laptop'',
      mc_activationGeneration = g\<rparr>"

definition demo_activation :: "messaging_event list" where
  "demo_activation =
     [Configure, Install, Bootstrap (Some ''ada''), AnswersArrive 1 (Some demo_answers), LifecycleReconciled 1 True]"

theorem scoped_result_under_one_scope_witness:
  "captureScope (messaging_run (demo_activation @ take 1 [StationChanged ''home'', TimerTicks]) (new_messaging demo_session))
     = Some (demo_messaging_scope 1)"
proof -
  have "runScoped_start (messaging_run demo_activation (new_messaging demo_session)) = Inr (demo_messaging_scope 1)"
    by code_simp
  moreover have "runScoped_settle
      (messaging_run (demo_activation @ [StationChanged ''home'', TimerTicks]) (new_messaging demo_session))
      (demo_messaging_scope 1) (Inr ()) = Inr ()"
    by code_simp
  ultimately show ?thesis by (rule scoped_result_under_one_scope [THEN conjunct2, THEN spec])
qed

section \<open>The storage projection of the desktop client\<close>

text \<open>
  The ports of \<^verbatim>\<open>chatStorageRuntime.ts\<close>.  A snapshot carries the preset of its retention policy, an
  operation its state, both numbers of generated enumerations; the two values the code compares with are
  arguments.
\<close>

definition desktop_scopeIdentity :: "messaging_scope \<Rightarrow> scope_identity" where
  "desktop_scopeIdentity scope =
     \<lparr>sc_stationPeerId = mc_stationPeerId scope, sc_actorPtid = mc_actorPtid scope,
      sc_deviceId = mc_endpointId scope, sc_activationGeneration = mc_activationGeneration scope\<rparr>"

definition desktop_messages :: storage_messages where
  "desktop_messages =
     \<lparr>ms_staleCleanup = ''chat cache cleanup returned a stale scope'',
      ms_cleanupIncomplete = ''chat cache cleanup did not complete'',
      ms_staleRetention = ''chat retention returned a stale scope'',
      ms_retentionIncomplete = ''chat retention did not complete'',
      ms_staleConversationCleanup = ''chat conversation cleanup returned a stale scope'',
      ms_acceptanceUnavailable = ''chat_storage_acceptance_scenario_unavailable'',
      ms_acceptanceAmbiguous = ''chat_storage_acceptance_scenario_ambiguous''\<rparr>"

definition desktop_ports ::
  "int \<Rightarrow> int \<Rightarrow> bool \<Rightarrow> (messaging, messaging_scope, int option, int, int) ports" where
  "desktop_ports FOREVER SUCCEEDED harness =
     \<lparr>po_captureScope = captureScope, po_isCurrentScope = isCurrentScope, po_scopeIdentity = desktop_scopeIdentity,
      po_retentionPreset = (\<lambda>snapshot. case sn_body snapshot of
                              Some preset \<Rightarrow> if preset \<noteq> 0 then Some preset else None | None \<Rightarrow> None),
      po_retentionIsForever = (\<lambda>preset. preset = FOREVER),
      po_operationSucceeded = (\<lambda>result. sr_error result = NoError
                                 \<and> map_option op_body (sr_operation result) = Some SUCCEEDED),
      po_acceptanceEnabled = harness, po_messages = desktop_messages, po_retentionSweepIntervalMs = None\<rparr>"

lemma desktop_captured [simp]:
  "captured_identity (desktop_ports f s h) m = map_option desktop_scopeIdentity (mg_activeScope m)"
  by (simp add: captured_identity_def desktop_ports_def captureScope_def)






end
