(* ===== verification/Delivery_Verdict.thy ===== *)
theory Delivery_Verdict
  imports Prelude
begin

text \<open>
  The delivery verdict shown to the sender of a message, \<^verbatim>\<open>apps/desktop/src/messaging/deliveryVerdict.ts\<close>:
  durable facts of the messaging store, and judgments once a time horizon has passed.
\<close>

definition SUBMIT_CONVERGENCE_HORIZON_MS :: int where
  "SUBMIT_CONVERGENCE_HORIZON_MS = 60000"

definition DELIVERY_HORIZON_MS :: int where
  "DELIVERY_HORIZON_MS = 24 * 60 * 60000"

datatype verdict_kind =
    V_queued | V_retry_wait | V_submit_overdue | V_submitted | V_delivered | V_fully_delivered | V_read
  | V_failed_terminal | V_undeliverable_suspected

record verdict =
  vd_kind :: verdict_kind
  vd_attemptCount :: int
  vd_reasonCode :: "string option"
  vd_nextAttemptAtUnixMs :: "int option"
  vd_deliveredDeviceCount :: int
  vd_requiredDeviceCount :: int

record verdict_facts =
  vf_state :: string
  vf_timestampUnixMs :: int
  vf_attemptCount :: "int option"
  vf_nextAttemptAtUnixMs :: "int option"
  vf_lastErrorCode :: "string option"
  vf_requiredDeviceCount :: "int option"
  vf_deliveredDeviceCount :: "int option"

definition device_count :: "int option \<Rightarrow> int" where
  "device_count n = (case n of Some k \<Rightarrow> k | None \<Rightarrow> 0)"

definition withCounts :: "verdict_kind \<Rightarrow> verdict_facts \<Rightarrow> string option \<Rightarrow> int option \<Rightarrow> verdict" where
  "withCounts kind facts reasonCode nextAttempt =
     \<lparr>vd_kind = kind, vd_attemptCount = device_count (vf_attemptCount facts), vd_reasonCode = reasonCode,
      vd_nextAttemptAtUnixMs = nextAttempt,
      vd_deliveredDeviceCount = device_count (vf_deliveredDeviceCount facts),
      vd_requiredDeviceCount = device_count (vf_requiredDeviceCount facts)\<rparr>"

definition evaluateDeliveryVerdict :: "verdict_facts \<Rightarrow> int \<Rightarrow> verdict option" where
  "evaluateDeliveryVerdict facts now =
     (let reasonCode = (if vf_lastErrorCode facts = Some [] then None else vf_lastErrorCode facts);
          required = device_count (vf_requiredDeviceCount facts);
          delivered = device_count (vf_deliveredDeviceCount facts);
          age = now - vf_timestampUnixMs facts;
          state = vf_state facts in
      if state = ''failed'' then Some (withCounts V_failed_terminal facts reasonCode None)
      else if state = ''read'' then Some (withCounts V_read facts None None)
      else if state = ''delivered'' \<or> state = ''fully_delivered'' then
        (if required > 0 \<and> delivered \<ge> required then Some (withCounts V_fully_delivered facts None None)
         else Some (withCounts V_delivered facts None None))
      else if state = ''accepted'' \<or> state = ''submitted'' then
        (if delivered > 0 \<and> required > 0 \<and> delivered \<ge> required
         then Some (withCounts V_fully_delivered facts None None)
         else if delivered > 0 then Some (withCounts V_delivered facts None None)
         else if age \<ge> DELIVERY_HORIZON_MS then Some (withCounts V_undeliverable_suspected facts reasonCode None)
         else Some (withCounts V_submitted facts None None))
      else if state = ''retry_wait'' then
        (if age \<ge> SUBMIT_CONVERGENCE_HORIZON_MS
         then Some (withCounts V_submit_overdue facts reasonCode (vf_nextAttemptAtUnixMs facts))
         else Some (withCounts V_retry_wait facts reasonCode (vf_nextAttemptAtUnixMs facts)))
      else if state = ''draft'' \<or> state = ''pending'' then
        (if age \<ge> SUBMIT_CONVERGENCE_HORIZON_MS
         then Some (withCounts V_submit_overdue facts reasonCode (vf_nextAttemptAtUnixMs facts))
         else Some (withCounts V_queued facts None None))
      else None)"

text \<open>
  The order in which facts about a message arrive: it waits, the authority accepts it, a device and then
  every device receives it, it is read.  A judgment has the rank of the fact it stands on.
\<close>

definition verdict_rank :: "verdict_kind \<Rightarrow> nat" where
  "verdict_rank k =
     (case k of
        V_queued \<Rightarrow> 0 | V_retry_wait \<Rightarrow> 0 | V_submit_overdue \<Rightarrow> 0
      | V_submitted \<Rightarrow> 1 | V_undeliverable_suspected \<Rightarrow> 1
      | V_delivered \<Rightarrow> 2 | V_fully_delivered \<Rightarrow> 3 | V_read \<Rightarrow> 4 | V_failed_terminal \<Rightarrow> 5)"

definition is_judgment :: "verdict_kind \<Rightarrow> bool" where
  "is_judgment k \<longleftrightarrow> k \<in> {V_submit_overdue, V_undeliverable_suspected}"

definition state_rank :: "string \<Rightarrow> nat option" where
  "state_rank s =
     map_of [(''draft'', 0), (''pending'', 0), (''retry_wait'', 0), (''accepted'', 1), (''submitted'', 1),
             (''delivered'', 2), (''fully_delivered'', 2), (''read'', 4), (''failed'', 5)] s"

text \<open>The facts of a message move on: to a later state, with at least the receipts there were.\<close>

definition facts_progress :: "verdict_facts \<Rightarrow> verdict_facts \<Rightarrow> bool" where
  "facts_progress f g \<longleftrightarrow>
     (\<exists>a b. state_rank (vf_state f) = Some a \<and> state_rank (vf_state g) = Some b \<and> a \<le> b)
     \<and> (state_rank (vf_state f) = state_rank (vf_state g) \<longrightarrow> vf_timestampUnixMs f = vf_timestampUnixMs g)
     \<and> device_count (vf_deliveredDeviceCount f) \<le> device_count (vf_deliveredDeviceCount g)
     \<and> (device_count (vf_requiredDeviceCount f) > 0 \<longrightarrow> vf_requiredDeviceCount g = vf_requiredDeviceCount f)"

definition kind_of :: "verdict_facts \<Rightarrow> int \<Rightarrow> verdict_kind option" where
  "kind_of facts now = map_option vd_kind (evaluateDeliveryVerdict facts now)"

lemma verdict_none_iff: "evaluateDeliveryVerdict facts now = None \<longleftrightarrow> state_rank (vf_state facts) = None"
  by (auto simp: evaluateDeliveryVerdict_def state_rank_def Let_def split: if_splits)

text \<open>The verdict by the rank of the state, the receipts and the age.\<close>

definition kind_by :: "nat \<Rightarrow> int \<Rightarrow> int \<Rightarrow> int \<Rightarrow> bool \<Rightarrow> verdict_kind" where
  "kind_by r required delivered age retrying =
     (if r = 5 then V_failed_terminal else if r = 4 then V_read
      else if r = 2 then (if 0 < required \<and> required \<le> delivered then V_fully_delivered else V_delivered)
      else if r = 1 then
        (if 0 < required \<and> required \<le> delivered then V_fully_delivered else if delivered > 0 then V_delivered
         else if age \<ge> 86400000 then V_undeliverable_suspected else V_submitted)
      else if age \<ge> 60000 then V_submit_overdue
      else if retrying then V_retry_wait else V_queued)"

lemma kind_cases:
  assumes "state_rank (vf_state facts) = Some r"
  shows "kind_of facts now = Some (kind_by r (device_count (vf_requiredDeviceCount facts))
     (device_count (vf_deliveredDeviceCount facts)) (now - vf_timestampUnixMs facts) (vf_state facts = ''retry_wait''))"
  using assms
  by (auto simp: kind_of_def evaluateDeliveryVerdict_def state_rank_def Let_def withCounts_def kind_by_def
      DELIVERY_HORIZON_MS_def SUBMIT_CONVERGENCE_HORIZON_MS_def split: if_splits)

lemma kind_by_judgments:
  "r \<in> {0, 1, 2, 4, 5} \<Longrightarrow> kind_by r required delivered age w = V_submit_overdue \<longleftrightarrow> r = 0 \<and> 60000 \<le> age"
  "r \<in> {0, 1, 2, 4, 5} \<Longrightarrow> kind_by r required delivered age w = V_undeliverable_suspected
     \<longleftrightarrow> r = 1 \<and> delivered \<le> 0 \<and> 86400000 \<le> age"
  by (auto simp: kind_by_def)

lemma kind_by_rank:
  "r \<in> {0, 1, 2, 4, 5} \<Longrightarrow> verdict_rank (kind_by r required delivered age w) =
     (if r \<in> {1, 2} \<and> 0 < required \<and> required \<le> delivered then 3
      else if r = 1 \<and> delivered > 0 then 2 else r)"
  by (auto simp: kind_by_def verdict_rank_def)

lemma judgment_rank: "is_judgment k \<Longrightarrow> verdict_rank k \<le> 1"
  by (auto simp: is_judgment_def verdict_rank_def)

lemma judgment_stays:
  assumes r: "r \<in> {0, 1, 2, 4, 5}" and j: "is_judgment (kind_by r req del age w)" and "age \<le> age'"
    and eq: "verdict_rank (kind_by r req' del' age' w') = verdict_rank (kind_by r req del age w)"
  shows "kind_by r req' del' age' w' = kind_by r req del age w"
proof (cases "kind_by r req del age w = V_submit_overdue")
  case True
  with kind_by_judgments(1) [OF r] \<open>age \<le> age'\<close> have "kind_by r req' del' age' w' = V_submit_overdue" by simp
  with True show ?thesis by simp
next
  case False
  with j have u: "kind_by r req del age w = V_undeliverable_suspected" by (simp add: is_judgment_def)
  then have "r = 1" "86400000 \<le> age" using kind_by_judgments(2) [OF r] by simp_all
  moreover have "verdict_rank (kind_by r req' del' age' w') = 1" using eq u by (simp add: verdict_rank_def)
  then have "del' \<le> 0" using kind_by_rank [OF r] \<open>r = 1\<close> by (simp split: if_splits)
  ultimately have "kind_by r req' del' age' w' = V_undeliverable_suspected"
    using kind_by_judgments(2) [OF r] \<open>age \<le> age'\<close> by simp
  with u show ?thesis by simp
qed

text \<open>
  C38.  Durable facts win over judgments.  A message has a verdict exactly when its state is known; a
  verdict that waits or counts receipts never falls behind as facts arrive and time passes; a judgment
  is made exactly when its horizon has passed without the fact it waits for, and once a device received
  the message no judgment is shown any more.
\<close>

theorem durable_facts_win:
  assumes "facts_progress f g" "now \<le> later"
  shows "\<exists>u v. kind_of f now = Some u \<and> kind_of g later = Some v
    \<and> verdict_rank u \<le> verdict_rank v
    \<and> (verdict_rank u \<ge> 2 \<longrightarrow> \<not> is_judgment v)
    \<and> (is_judgment u \<and> verdict_rank v = verdict_rank u \<and> state_rank (vf_state f) = state_rank (vf_state g) \<longrightarrow> v = u)
    \<and> (v = V_submit_overdue \<longleftrightarrow> state_rank (vf_state g) = Some 0 \<and> later - vf_timestampUnixMs g \<ge> 60000)
    \<and> (v = V_undeliverable_suspected \<longleftrightarrow>
         state_rank (vf_state g) = Some 1 \<and> device_count (vf_deliveredDeviceCount g) \<le> 0
         \<and> later - vf_timestampUnixMs g \<ge> 86400000)"
proof -
  from assms(1) obtain a b where ab: "state_rank (vf_state f) = Some a" "state_rank (vf_state g) = Some b" "a \<le> b"
    unfolding facts_progress_def by blast
  have ranks: "a \<in> {0, 1, 2, 4, 5}" "b \<in> {0, 1, 2, 4, 5}"
    using ab by (auto simp: state_rank_def split: if_splits)
  have time: "a = b \<Longrightarrow> vf_timestampUnixMs f = vf_timestampUnixMs g"
    and dc: "device_count (vf_deliveredDeviceCount f) \<le> device_count (vf_deliveredDeviceCount g)"
    and rc: "device_count (vf_requiredDeviceCount f) > 0 \<Longrightarrow> vf_requiredDeviceCount g = vf_requiredDeviceCount f"
    using assms(1) ab by (auto simp: facts_progress_def)
  define rf where "rf = device_count (vf_requiredDeviceCount f)"
  define rg where "rg = device_count (vf_requiredDeviceCount g)"
  define df where "df = device_count (vf_deliveredDeviceCount f)"
  define dg where "dg = device_count (vf_deliveredDeviceCount g)"
  note counts = rf_def rg_def df_def dg_def
  let ?u = "kind_by a rf df (now - vf_timestampUnixMs f) (vf_state f = ''retry_wait'')"
  let ?v = "kind_by b rg dg (later - vf_timestampUnixMs g) (vf_state g = ''retry_wait'')"
  have rd: "df \<le> dg" "0 < rf \<Longrightarrow> rg = rf" using dc rc by (simp_all add: counts)
  have le: "verdict_rank ?u \<le> verdict_rank ?v"
    using ranks ab(3) rd by (auto simp: kind_by_rank)
  have older: "a = b \<Longrightarrow> now - vf_timestampUnixMs f \<le> later - vf_timestampUnixMs g"
    using time assms(2) by simp
  have stays: "?v = ?u" if "is_judgment ?u" "verdict_rank ?v = verdict_rank ?u" "a = b"
    using judgment_stays [OF ranks(1) that(1)] that(2,3) older by simp
  have "verdict_rank ?u \<ge> 2 \<longrightarrow> \<not> is_judgment ?v" using le judgment_rank [of ?v] by auto
  moreover have "kind_of f now = Some ?u" "kind_of g later = Some ?v"
    using kind_cases [OF ab(1), of now] kind_cases [OF ab(2), of later] by (simp_all only: counts)
  moreover have "is_judgment ?u \<and> verdict_rank ?v = verdict_rank ?u \<and> state_rank (vf_state f) = state_rank (vf_state g)
      \<longrightarrow> ?v = ?u"
    using stays ab(1,2) by (metis option.inject)
  moreover have "?v = V_submit_overdue \<longleftrightarrow> state_rank (vf_state g) = Some 0 \<and> later - vf_timestampUnixMs g \<ge> 60000"
    "?v = V_undeliverable_suspected \<longleftrightarrow>
       state_rank (vf_state g) = Some 1 \<and> device_count (vf_deliveredDeviceCount g) \<le> 0
       \<and> later - vf_timestampUnixMs g \<ge> 86400000"
    using ab(2) kind_by_judgments [OF ranks(2)] by (simp_all add: dg_def)
  ultimately show ?thesis using le by blast
qed

definition demo_facts :: "string \<Rightarrow> int option \<Rightarrow> verdict_facts" where
  "demo_facts s delivered =
     \<lparr>vf_state = s, vf_timestampUnixMs = 1000, vf_attemptCount = Some 1, vf_nextAttemptAtUnixMs = None,
      vf_lastErrorCode = None, vf_requiredDeviceCount = Some 2, vf_deliveredDeviceCount = delivered\<rparr>"

theorem durable_facts_win_witness:
  "\<exists>u v. kind_of (demo_facts ''submitted'' None) 86401000 = Some u
     \<and> kind_of (demo_facts ''submitted'' (Some 1)) 86402000 = Some v
     \<and> u = V_undeliverable_suspected \<and> v = V_delivered \<and> verdict_rank u \<le> verdict_rank v"
proof -
  have "facts_progress (demo_facts ''submitted'' None) (demo_facts ''submitted'' (Some 1))"
    by (simp add: facts_progress_def demo_facts_def state_rank_def device_count_def)
  from durable_facts_win [OF this, of 86401000 86402000]
  obtain u v where "kind_of (demo_facts ''submitted'' None) 86401000 = Some u"
    "kind_of (demo_facts ''submitted'' (Some 1)) 86402000 = Some v" "verdict_rank u \<le> verdict_rank v" by auto
  moreover have "kind_of (demo_facts ''submitted'' None) 86401000 = Some V_undeliverable_suspected"
    "kind_of (demo_facts ''submitted'' (Some 1)) 86402000 = Some V_delivered"
    by code_simp+
  ultimately show ?thesis by auto
qed

end
