(* ===== verification/Media_Hash.thy ===== *)
theory Media_Hash
  imports Prelude "HOL-Library.Word"
begin

text \<open>
  The streaming SHA-256 of \<^verbatim>\<open>packages/client-media-security/src/index.ts\<close> (class \<^verbatim>\<open>Sha256\<close>), and that it
  computes the hash function of FIPS 180-4, however the data is cut into pieces.

  The class works on 32-bit patterns: \<^verbatim>\<open>>>> 0\<close> reduces every sum modulo \<open>2 ^ 32\<close>, sums of five such numbers
  are exact in a double, and the bit operators work on 32 bits.  So a number is a \<^typ>\<open>32 word\<close>.  The byte
  count is exact up to \<open>2 ^ 53\<close>; it is a natural number here.
\<close>

unbundle bit_operations_syntax

section \<open>The class\<close>

record sha256 =
  sh_words :: "32 word list"
  sh_buffer :: "8 word list"
  sh_bufferLength :: nat
  sh_bytesHashed :: nat
  sh_finished :: bool

definition SHA256_H :: "32 word list" where
  "SHA256_H = [0x6a09e667, 0xbb67ae85, 0x3c6ef372, 0xa54ff53a, 0x510e527f, 0x9b05688c, 0x1f83d9ab, 0x5be0cd19]"

definition new_sha256 :: sha256 where
  "new_sha256 = \<lparr>sh_words = SHA256_H, sh_buffer = replicate 64 0, sh_bufferLength = 0, sh_bytesHashed = 0, sh_finished = False\<rparr>"

definition SHA256_K :: "32 word list" where
  "SHA256_K = concat
     [[0x428a2f98, 0x71374491, 0xb5c0fbcf, 0xe9b5dba5, 0x3956c25b, 0x59f111f1, 0x923f82a4, 0xab1c5ed5],
      [0xd807aa98, 0x12835b01, 0x243185be, 0x550c7dc3, 0x72be5d74, 0x80deb1fe, 0x9bdc06a7, 0xc19bf174],
      [0xe49b69c1, 0xefbe4786, 0x0fc19dc6, 0x240ca1cc, 0x2de92c6f, 0x4a7484aa, 0x5cb0a9dc, 0x76f988da],
      [0x983e5152, 0xa831c66d, 0xb00327c8, 0xbf597fc7, 0xc6e00bf3, 0xd5a79147, 0x06ca6351, 0x14292967],
      [0x27b70a85, 0x2e1b2138, 0x4d2c6dfc, 0x53380d13, 0x650a7354, 0x766a0abb, 0x81c2c92e, 0x92722c85],
      [0xa2bfe8a1, 0xa81a664b, 0xc24b8b70, 0xc76c51a3, 0xd192e819, 0xd6990624, 0xf40e3585, 0x106aa070],
      [0x19a4c116, 0x1e376c08, 0x2748774c, 0x34b0bcb5, 0x391c0cb3, 0x4ed8aa4a, 0x5b9cca4f, 0x682e6ff3],
      [0x748f82ee, 0x78a5636f, 0x84c87814, 0x8cc70208, 0x90befffa, 0xa4506ceb, 0xbef9a3f7, 0xc67178f2]]"

definition rotr :: "32 word \<Rightarrow> nat \<Rightarrow> 32 word" where
  "rotr value shift = drop_bit shift value OR push_bit (32 - shift) value"

text \<open>Reading and writing a big-endian 32-bit number in a byte array.\<close>

definition getUint32 :: "8 word list \<Rightarrow> nat \<Rightarrow> 32 word" where
  "getUint32 bytes i =
     push_bit 24 (ucast (bytes ! i)) OR push_bit 16 (ucast (bytes ! (i + 1)))
       OR push_bit 8 (ucast (bytes ! (i + 2))) OR ucast (bytes ! (i + 3))"

definition uint32_bytes :: "32 word \<Rightarrow> 8 word list" where
  "uint32_bytes v = [ucast (drop_bit 24 v), ucast (drop_bit 16 v), ucast (drop_bit 8 v), ucast v]"

text \<open>\<^verbatim>\<open>TypedArray.set\<close>: the bytes at a position are overwritten.\<close>

definition set_bytes :: "8 word list \<Rightarrow> nat \<Rightarrow> 8 word list \<Rightarrow> 8 word list" where
  "set_bytes array i bytes = take i array @ bytes @ drop (i + length bytes) array"

definition fill_zero :: "8 word list \<Rightarrow> nat \<Rightarrow> nat \<Rightarrow> 8 word list" where
  "fill_zero array from_i to_i = (if from_i < to_i then set_bytes array from_i (replicate (to_i - from_i) 0) else array)"

definition extend_schedule :: "nat \<Rightarrow> 32 word list \<Rightarrow> 32 word list" where
  "extend_schedule i w =
     (let s0 = rotr (w ! (i - 15)) 7 XOR rotr (w ! (i - 15)) 18 XOR drop_bit 3 (w ! (i - 15));
          s1 = rotr (w ! (i - 2)) 17 XOR rotr (w ! (i - 2)) 19 XOR drop_bit 10 (w ! (i - 2)) in
      w @ [w ! (i - 16) + s0 + w ! (i - 7) + s1])"

definition message_schedule :: "8 word list \<Rightarrow> 32 word list" where
  "message_schedule chunk = fold extend_schedule [16..<64] (map (\<lambda>i. getUint32 chunk (i * 4)) [0..<16])"

fun sha_round :: "32 word list \<Rightarrow> nat \<Rightarrow> 32 word list \<Rightarrow> 32 word list" where
  "sha_round w i [a, b, c, d, e, f, g, h] =
     (let s1 = rotr e 6 XOR rotr e 11 XOR rotr e 25;
          ch = (e AND f) XOR (NOT e AND g);
          temp1 = h + s1 + ch + SHA256_K ! i + w ! i;
          s0 = rotr a 2 XOR rotr a 13 XOR rotr a 22;
          maj = (a AND b) XOR (a AND c) XOR (b AND c);
          temp2 = s0 + maj in
      [temp1 + temp2, a, b, c, d + temp1, e, f, g])"
| "sha_round w i ws = ws"

definition processBlock :: "8 word list \<Rightarrow> 32 word list \<Rightarrow> 32 word list" where
  "processBlock chunk h =
     (let w = message_schedule chunk in map2 (+) h (fold (sha_round w) [0..<64] h))"

text \<open>The loop of \<^verbatim>\<open>update\<close> over the data that is left.\<close>

function update_loop :: "8 word list \<Rightarrow> sha256 \<Rightarrow> sha256" where
  "update_loop rest st =
     (if rest = [] \<or> sh_bufferLength st \<ge> 64 then st
      else
        let n = min (length rest) (64 - sh_bufferLength st);
            buffer = set_bytes (sh_buffer st) (sh_bufferLength st) (take n rest) in
        update_loop (drop n rest)
          (if sh_bufferLength st + n = 64
           then st\<lparr>sh_buffer := buffer, sh_words := processBlock buffer (sh_words st), sh_bufferLength := 0\<rparr>
           else st\<lparr>sh_buffer := buffer, sh_bufferLength := sh_bufferLength st + n\<rparr>))"
  by pat_completeness auto

termination update_loop
  by (relation "measure (\<lambda>(rest, st). length rest)") auto

declare update_loop.simps [simp del]

definition sha_update :: "8 word list \<Rightarrow> sha256 \<Rightarrow> (string + unit) \<times> sha256" where
  "sha_update data st =
     (if sh_finished st then (Inl ''client-media:hash-finalized'', st)
      else (Inr (), update_loop data (st\<lparr>sh_bytesHashed := sh_bytesHashed st + length data\<rparr>)))"

definition finish_hash :: "sha256 \<Rightarrow> sha256" where
  "finish_hash st =
     (let bitLength = sh_bytesHashed st * 8;
          buffer1 = set_bytes (sh_buffer st) (sh_bufferLength st) [0x80];
          len1 = sh_bufferLength st + 1;
          (buffer2, len2, words2) =
            (if len1 > 56
             then let b = fill_zero buffer1 len1 64 in (b, 0, processBlock b (sh_words st))
             else (buffer1, len1, sh_words st));
          buffer3 = fill_zero buffer2 len2 56;
          buffer4 = set_bytes (set_bytes buffer3 56 (uint32_bytes (word_of_nat (bitLength div 2 ^ 32)))) 60
                      (uint32_bytes (word_of_nat bitLength)) in
      st\<lparr>sh_buffer := buffer4, sh_bufferLength := len2, sh_words := processBlock buffer4 words2, sh_finished := True\<rparr>)"

definition sha_digest :: "sha256 \<Rightarrow> 8 word list \<times> sha256" where
  "sha_digest st =
     (let st1 = (if sh_finished st then st else finish_hash st) in
      (concat (map uint32_bytes (sh_words st1)), st1))"

section \<open>The standard\<close>

text \<open>
  FIPS 180-4, sections 4.1.2, 5.1.1 and 6.2: rotations of words, the message schedule by its recurrence,
  padding to whole blocks, and one compression per block.
\<close>

definition Sigma0 :: "32 word \<Rightarrow> 32 word" where
  "Sigma0 x = word_rotr 2 x XOR word_rotr 13 x XOR word_rotr 22 x"

definition Sigma1 :: "32 word \<Rightarrow> 32 word" where
  "Sigma1 x = word_rotr 6 x XOR word_rotr 11 x XOR word_rotr 25 x"

definition sigma0 :: "32 word \<Rightarrow> 32 word" where
  "sigma0 x = word_rotr 7 x XOR word_rotr 18 x XOR drop_bit 3 x"

definition sigma1 :: "32 word \<Rightarrow> 32 word" where
  "sigma1 x = word_rotr 17 x XOR word_rotr 19 x XOR drop_bit 10 x"

definition word_at :: "8 word list \<Rightarrow> nat \<Rightarrow> 32 word" where
  "word_at block t = word_of_nat (foldl (\<lambda>n b. n * 256 + unat b) 0 (take 4 (drop (4 * t) block)))"

fun W :: "8 word list \<Rightarrow> nat \<Rightarrow> 32 word" where
  "W block t =
     (if t < 16 then word_at block t
      else sigma1 (W block (t - 2)) + W block (t - 7) + sigma0 (W block (t - 15)) + W block (t - 16))"

declare W.simps [simp del]

fun fips_round :: "8 word list \<Rightarrow> nat \<Rightarrow> 32 word list \<Rightarrow> 32 word list" where
  "fips_round block t [a, b, c, d, e, f, g, h] =
     (let T1 = h + Sigma1 e + ((e AND f) XOR (NOT e AND g)) + SHA256_K ! t + W block t;
          T2 = Sigma0 a + ((a AND b) XOR (a AND c) XOR (b AND c)) in
      [T1 + T2, a, b, c, d + T1, e, f, g])"
| "fips_round block t ws = ws"

definition compress :: "32 word list \<Rightarrow> 8 word list \<Rightarrow> 32 word list" where
  "compress h block = map2 (+) h (fold (fips_round block) [0..<64] h)"

definition pad :: "8 word list \<Rightarrow> 8 word list" where
  "pad m = m @ [0x80] @ replicate (nat ((55 - int (length m)) mod 64)) 0
             @ map (\<lambda>i. word_of_nat (8 * length m div 256 ^ i)) [7, 6, 5, 4, 3, 2, 1, 0]"

definition blocks :: "8 word list \<Rightarrow> 8 word list list" where
  "blocks m = map (\<lambda>i. take 64 (drop (64 * i) m)) [0..<length m div 64]"

definition sha256_fips :: "8 word list \<Rightarrow> 8 word list" where
  "sha256_fips m = concat (map uint32_bytes (foldl compress SHA256_H (blocks (pad m))))"

section \<open>The compression function\<close>

lemma rotr_eq:
  assumes "0 < s" "s < 32"
  shows "rotr v s = word_rotr s v"
proof (rule bit_word_eqI)
  fix n assume "n < LENGTH(32)"
  then have n: "n < 32" by simp
  have "bit (word_rotr s v) n \<longleftrightarrow> bit v ((n + s) mod 32)"
    using n by (simp add: bit_word_rotr_iff)
  moreover have "bit (rotr v s) n \<longleftrightarrow> bit v (n + s) \<or> (32 - s \<le> n \<and> bit v (n - (32 - s)))"
    using n by (auto simp: rotr_def bit_simps ac_simps)
  moreover have "(n + s) mod 32 = (if n + s < 32 then n + s else n + s - 32)"
    using n assms by (simp add: mod_if)
  moreover have "\<not> bit v k" if "32 \<le> k" for k
    using that bit_imp_le_length [of v k] by auto
  moreover have "n - (32 - s) = n + s - 32" using assms by simp
  ultimately show "bit (rotr v s) n = bit (word_rotr s v) n"
    using assms by (cases "n + s < 32") auto
qed

lemma getUint32_eq:
  assumes "4 * t + 4 \<le> length block"
  shows "getUint32 block (t * 4) = word_at block t"
proof -
  obtain a b c d where abcd: "take 4 (drop (4 * t) block) = [a, b, c, d]"
    "block ! (t * 4) = a" "block ! (t * 4 + 1) = b" "block ! (t * 4 + 2) = c" "block ! (t * 4 + 3) = d"
  proof -
    have "take 4 (drop (4 * t) block) = map (\<lambda>i. block ! (t * 4 + i)) [0, 1, 2, 3]"
      using assms by (intro nth_equalityI) (auto simp: nth_Cons' algebra_simps less_Suc_eq numeral_nat)
    then show ?thesis using that by simp
  qed
  have byte: "\<not> bit (x :: 8 word) n" if "8 \<le> n" for x n using that by (auto dest: bit_imp_le_length)
  let ?A = "push_bit 24 (ucast a) :: 32 word" and ?B = "push_bit 16 (ucast b) :: 32 word"
    and ?C = "push_bit 8 (ucast c) :: 32 word" and ?D = "ucast d :: 32 word"
  have "?C AND ?D = 0" "?B AND (?C OR ?D) = 0" "?A AND (?B OR (?C OR ?D)) = 0"
    by (rule bit_word_eqI; auto simp: bit_simps byte)+
  then have "?C + ?D = ?C OR ?D" "?B + (?C OR ?D) = ?B OR (?C OR ?D)" "?A + (?B OR (?C OR ?D)) = ?A OR (?B OR (?C OR ?D))"
    by (simp_all only: disjunctive_add_eq_or)
  then have "getUint32 block (t * 4) = ?A + (?B + (?C + ?D))"
    unfolding getUint32_def abcd by (simp add: or.assoc)
  also have "\<dots> = word_at block t"
    unfolding word_at_def abcd(1) by (simp add: push_bit_eq_mult algebra_simps)
  finally show ?thesis .
qed

lemma extend_schedule_length [simp]: "length (extend_schedule i w) = Suc (length w)"
  by (simp add: extend_schedule_def Let_def)

lemma schedule_prefix:
  assumes "length chunk = 64" "16 \<le> n" "n \<le> 64"
  shows "fold extend_schedule [16..<n] (map (\<lambda>i. getUint32 chunk (i * 4)) [0..<16]) = map (W chunk) [0..<n]"
  using assms(2,3)
proof (induction n rule: dec_induct)
  case base
  have "getUint32 chunk (i * 4) = W chunk i" if "i < 16" for i
    using that assms(1) by (simp add: getUint32_eq W.simps [of chunk i])
  then show ?case by simp
next
  case (step n)
  have "W chunk n = sigma1 (W chunk (n - 2)) + W chunk (n - 7) + sigma0 (W chunk (n - 15)) + W chunk (n - 16)"
    using step by (subst W.simps) simp
  then have "extend_schedule n (map (W chunk) [0..<n]) = map (W chunk) [0..<n] @ [W chunk n]"
    using step by (simp add: extend_schedule_def Let_def sigma0_def sigma1_def rotr_eq ac_simps)
  with step show ?case by simp
qed

lemma message_schedule_eq: "length chunk = 64 \<Longrightarrow> message_schedule chunk = map (W chunk) [0..<64]"
  unfolding message_schedule_def by (rule schedule_prefix) simp_all

lemma round_eq: "t < 64 \<Longrightarrow> sha_round (map (W chunk) [0..<64]) t ws = fips_round chunk t ws"
  by (cases "(map (W chunk) [0..<64], t, ws)" rule: sha_round.cases)
    (simp_all add: Let_def Sigma0_def Sigma1_def rotr_eq)

lemma rounds_eq:
  "\<forall>t \<in> set ts. t < 64 \<Longrightarrow> fold (sha_round (map (W chunk) [0..<64])) ts ws = fold (fips_round chunk) ts ws"
  by (induction ts arbitrary: ws) (simp_all add: round_eq)

lemma processBlock_compress: "length chunk = 64 \<Longrightarrow> processBlock chunk h = compress h chunk"
  by (simp add: processBlock_def compress_def message_schedule_eq rounds_eq Let_def)

section \<open>Streaming\<close>

lemma blocks_Nil [simp]: "blocks [] = []"
  by (simp add: blocks_def)

lemma blocks_append:
  assumes "length xs = 64 * k"
  shows "blocks (xs @ ys) = blocks xs @ blocks ys"
proof -
  have "length (xs @ ys) div 64 = k + length ys div 64" using assms by simp
  then have "blocks (xs @ ys) = map (\<lambda>i. take 64 (drop (64 * i) (xs @ ys))) ([0..<k] @ [k..<k + length ys div 64])"
    unfolding blocks_def by (simp add: upt_add_eq_append [of 0])
  moreover have "take 64 (drop (64 * i) (xs @ ys)) = take 64 (drop (64 * i) xs)" if "i < k" for i
    using that assms by simp
  moreover have "map (\<lambda>i. take 64 (drop (64 * i) (xs @ ys))) [k..<k + n] = map (\<lambda>i. take 64 (drop (64 * i) ys)) [0..<n]" for n
    using assms by (intro nth_equalityI) (auto simp: algebra_simps)
  ultimately show ?thesis using assms by (simp add: blocks_def)
qed

lemma blocks_one: "length b = 64 \<Longrightarrow> blocks b = [b]"
  by (simp add: blocks_def)

text \<open>The state after the bytes \<open>m\<close>: whole blocks are compressed, the rest is in the buffer.\<close>

definition hashing :: "8 word list \<Rightarrow> sha256 \<Rightarrow> bool" where
  "hashing m st \<longleftrightarrow>
     \<not> sh_finished st \<and> length (sh_buffer st) = 64 \<and> sh_bufferLength st < 64
     \<and> (\<exists>full k. length full = 64 * k \<and> m = full @ take (sh_bufferLength st) (sh_buffer st)
          \<and> sh_words st = foldl compress SHA256_H (blocks full))"

lemma new_hashing: "hashing [] new_sha256"
  by (simp add: hashing_def new_sha256_def)

lemma set_bytes_length [simp]: "i + length bytes \<le> length array \<Longrightarrow> length (set_bytes array i bytes) = length array"
  by (simp add: set_bytes_def)

lemma set_bytes_take [simp]:
  "i + length bytes \<le> length array \<Longrightarrow> take (i + length bytes) (set_bytes array i bytes) = take i array @ bytes"
  by (simp add: set_bytes_def)

lemma hashing_block:
  assumes "length full = 64 * k" "sh_words st = foldl compress SHA256_H (blocks full)" "length B = 64" "\<not> sh_finished st"
  shows "hashing (full @ B) (st\<lparr>sh_buffer := B, sh_words := processBlock B (sh_words st), sh_bufferLength := 0\<rparr>)"
proof -
  have "processBlock B (sh_words st) = foldl compress SHA256_H (blocks (full @ B))"
    using assms by (simp add: processBlock_compress blocks_append [OF assms(1)] blocks_one)
  moreover have "length (full @ B) = 64 * Suc k" using assms by simp
  ultimately show ?thesis using assms unfolding hashing_def
    by (intro conjI exI [of _ "full @ B"] exI [of _ "Suc k"]) simp_all
qed

lemma update_loop_hashing:
  "hashing m st \<Longrightarrow> hashing (m @ rest) (update_loop rest st)
     \<and> sh_bytesHashed (update_loop rest st) = sh_bytesHashed st"
proof (induction rest st arbitrary: m rule: update_loop.induct)
  case (1 rest st)
  show ?case
  proof (cases "rest = []")
    case True
    with 1(2) show ?thesis by (subst (1 2) update_loop.simps) simp
  next
    case False
    define n where "n = min (length rest) (64 - sh_bufferLength st)"
    let ?buffer = "set_bytes (sh_buffer st) (sh_bufferLength st) (take n rest)"
    let ?st = "if sh_bufferLength st + n = 64
      then st\<lparr>sh_buffer := ?buffer, sh_words := processBlock ?buffer (sh_words st), sh_bufferLength := 0\<rparr>
      else st\<lparr>sh_buffer := ?buffer, sh_bufferLength := sh_bufferLength st + n\<rparr>"
    from 1(2) obtain full k where full: "length full = 64 * k" "m = full @ take (sh_bufferLength st) (sh_buffer st)"
      "sh_words st = foldl compress SHA256_H (blocks full)" and st: "length (sh_buffer st) = 64" "sh_bufferLength st < 64"
      "\<not> sh_finished st" by (auto simp: hashing_def)
    have n: "length (take n rest) = n" "sh_bufferLength st + n \<le> 64" using st by (simp_all add: n_def)
    have len: "length ?buffer = 64" "take (sh_bufferLength st + n) ?buffer = take (sh_bufferLength st) (sh_buffer st) @ take n rest"
      using st set_bytes_take [of "sh_bufferLength st" "take n rest" "sh_buffer st"] n by simp_all
    have next_ok: "hashing (m @ take n rest) ?st"
    proof (cases "sh_bufferLength st + n = 64")
      case True
      have "?buffer = take (sh_bufferLength st) (sh_buffer st) @ take n rest" using len True by simp
      then have "m @ take n rest = full @ ?buffer" using full by simp
      with True hashing_block [OF full(1,3) len(1) st(3)] show ?thesis by simp
    next
      case False
      with st full len n(2) show ?thesis
        by (auto simp: hashing_def intro!: exI [of _ full] exI [of _ k])
    qed
    have "update_loop rest st = update_loop (drop n rest) ?st"
      using False st by (subst update_loop.simps) (simp add: Let_def n_def)
    with 1(1) [OF _ n_def refl next_ok] False st show ?thesis by (simp split: if_splits)
  qed
qed

section \<open>Padding\<close>

lemma set_bytes_at: "i = length xs \<Longrightarrow> set_bytes (xs @ ys) i zs = xs @ zs @ drop (length zs) ys"
  by (simp add: set_bytes_def)

lemma byte_of_word:
  assumes "s + 8 \<le> 32"
  shows "(ucast (drop_bit s (word_of_nat n :: 32 word)) :: 8 word) = word_of_nat (n div 2 ^ s)"
proof (rule bit_word_eqI)
  fix i assume "i < LENGTH(8)"
  then have "i < 8" by simp
  then show "bit (ucast (drop_bit s (word_of_nat n :: 32 word)) :: 8 word) i = bit (word_of_nat (n div 2 ^ s) :: 8 word) i"
    using assms by (simp add: bit_simps drop_bit_eq_div [symmetric] ac_simps)
qed

lemma length_field:
  "uint32_bytes (word_of_nat (n div 2 ^ 32)) @ uint32_bytes (word_of_nat n)
     = map (\<lambda>i. word_of_nat (n div 256 ^ i)) [7, 6, 5, 4, 3, 2, 1, 0]"
  using byte_of_word [of 24] byte_of_word [of 16] byte_of_word [of 8] byte_of_word [of 0]
  by (simp add: uint32_bytes_def div_mult2_eq [symmetric])

lemma uint32_bytes_length [simp]: "length (uint32_bytes v) = 4"
  by (simp add: uint32_bytes_def)

lemma finish_buffer:
  assumes "length p = r" "length tail = 56 - r" "r \<le> 56" "length rest8 = 8"
  shows "set_bytes (set_bytes (fill_zero (p @ tail @ rest8) r 56) 56 (uint32_bytes a)) 60 (uint32_bytes b)
     = p @ replicate (56 - r) 0 @ uint32_bytes a @ uint32_bytes b"
proof -
  have zero: "fill_zero (p @ tail @ rest8) r 56 = (p @ replicate (56 - r) 0) @ rest8"
    using assms by (auto simp: fill_zero_def set_bytes_at)
  have "set_bytes ((p @ replicate (56 - r) 0) @ rest8) 56 (uint32_bytes a)
      = (p @ replicate (56 - r) 0 @ uint32_bytes a) @ drop 4 rest8"
    using assms by (subst set_bytes_at) simp_all
  moreover have "set_bytes ((p @ replicate (56 - r) 0 @ uint32_bytes a) @ drop 4 rest8) 60 (uint32_bytes b)
      = p @ replicate (56 - r) 0 @ uint32_bytes a @ uint32_bytes b"
    using assms by (subst set_bytes_at) simp_all
  ultimately show ?thesis by (simp add: zero)
qed

definition length_bytes :: "nat \<Rightarrow> 8 word list" where
  "length_bytes n = uint32_bytes (word_of_nat (n div 2 ^ 32)) @ uint32_bytes (word_of_nat n)"

lemma length_length_bytes [simp]: "length (length_bytes n) = 8"
  by (simp add: length_bytes_def)

lemma pad_blocks:
  assumes "length full = 64 * k" "length rest < 64"
  shows "pad (full @ rest) =
     (if length rest \<le> 55 then full @ (rest @ [0x80] @ replicate (55 - length rest) 0 @ length_bytes (8 * length (full @ rest)))
      else (full @ rest @ [0x80] @ replicate (63 - length rest) 0)
             @ replicate 56 0 @ length_bytes (8 * length (full @ rest)))"
proof -
  let ?r = "length rest"
  have "55 - int (length (full @ rest)) = (55 - int ?r) + (- int k) * 64" using assms(1) by simp
  then have "(55 - int (length (full @ rest))) mod 64 = (55 - int ?r) mod 64" by (simp only: mod_mult_self1)
  also have "\<dots> = (if ?r \<le> 55 then 55 - int ?r else 119 - int ?r)"
  proof (cases "?r \<le> 55")
    case False
    have "(55 - int ?r) mod 64 = (55 - int ?r + 64) mod 64" by (rule mod_add_self2 [symmetric])
    also have "\<dots> = 119 - int ?r" using False assms(2) by (simp del: mod_add_self2)
    finally show ?thesis using False by simp
  qed simp
  finally have "nat ((55 - int (length (full @ rest))) mod 64) = (if ?r \<le> 55 then 55 - ?r else (63 - ?r) + 56)"
    using assms(2) by (simp split: if_splits)
  moreover have "replicate ((63 - ?r) + 56) (0 :: 8 word) = replicate (63 - ?r) 0 @ replicate 56 0"
    by (rule replicate_add)
  ultimately show ?thesis
    unfolding pad_def length_bytes_def length_field by (simp only: append_assoc split: if_split) simp
qed

lemma finish_hash_words:
  assumes "hashing m st" "sh_bytesHashed st = length m"
  shows "sh_words (finish_hash st) = foldl compress SHA256_H (blocks (pad m))"
proof -
  obtain full k where full: "length full = 64 * k" "m = full @ take (sh_bufferLength st) (sh_buffer st)"
    "sh_words st = foldl compress SHA256_H (blocks full)" and st: "length (sh_buffer st) = 64" "sh_bufferLength st < 64"
    using assms(1) by (auto simp: hashing_def)
  define r rest where "r = sh_bufferLength st" and "rest = take r (sh_buffer st)"
  have rest: "length rest = r" "r < 64" "m = full @ rest" using st full by (simp_all add: r_def rest_def)
  define tail where "tail = drop (r + 1) (sh_buffer st)"
  have buf1: "set_bytes (sh_buffer st) r [0x80] = (rest @ [0x80]) @ tail" "length tail = 63 - r"
    using st by (simp_all add: set_bytes_def rest_def tail_def)
  show ?thesis
  proof (cases "r + 1 > 56")
    case True
    define b where "b = rest @ [0x80] @ replicate (63 - r) 0"
    have b: "fill_zero (rest @ [0x80] @ tail) (r + 1) 64 = b" "length b = 64"
      using rest buf1 set_bytes_at [of "r + 1" "rest @ [0x80]" tail] by (auto simp: fill_zero_def b_def)
    have last: "set_bytes (set_bytes (fill_zero b 0 56) 56 (uint32_bytes x)) 60 (uint32_bytes y)
        = replicate 56 0 @ uint32_bytes x @ uint32_bytes y" for x y
      using finish_buffer [of "[]" 0 "take 56 b" "drop 56 b"] b(2) by simp
    have "sh_words (finish_hash st)
        = compress (compress (foldl compress SHA256_H (blocks full)) b) (replicate 56 0 @ length_bytes (8 * length m))"
      using True full(3) assms(2) b buf1(1)
      by (simp add: finish_hash_def Let_def r_def [symmetric] last processBlock_compress length_bytes_def mult.commute)
    moreover have "blocks (pad m) = blocks full @ [b] @ [replicate 56 0 @ length_bytes (8 * length m)]"
    proof -
      have "pad m = (full @ b) @ replicate 56 0 @ length_bytes (8 * length m)"
        using pad_blocks [OF full(1), of rest] rest True by (simp add: b_def)
      moreover have "length (full @ b) = 64 * Suc k" using full(1) b(2) by simp
      ultimately show ?thesis
        using blocks_append [of "full @ b" "Suc k"] blocks_append [OF full(1), of b] b(2) by (simp add: blocks_one)
    qed
    ultimately show ?thesis by simp
  next
    case False
    have "sh_words (finish_hash st)
        = compress (foldl compress SHA256_H (blocks full)) (rest @ [0x80] @ replicate (55 - r) 0 @ length_bytes (8 * length m))"
      using False full(3) assms(2) buf1 rest
        finish_buffer [of "rest @ [0x80]" "r + 1" "take (55 - r) tail" "drop (55 - r) tail"]
      by (simp add: finish_hash_def Let_def r_def [symmetric] processBlock_compress length_bytes_def mult.commute)
    moreover have "blocks (pad m) = blocks full @ [rest @ [0x80] @ replicate (55 - r) 0 @ length_bytes (8 * length m)]"
      using pad_blocks [OF full(1), of rest] rest False by (simp add: blocks_append [OF full(1)] blocks_one)
    ultimately show ?thesis by simp
  qed
qed

section \<open>The hash\<close>

definition feed :: "8 word list list \<Rightarrow> sha256 \<Rightarrow> sha256" where
  "feed pieces st = fold (\<lambda>data st. snd (sha_update data st)) pieces st"

lemma feed_hashing:
  "hashing m st \<Longrightarrow> sh_bytesHashed st = length m \<Longrightarrow>
     hashing (m @ concat pieces) (feed pieces st) \<and> sh_bytesHashed (feed pieces st) = length (m @ concat pieces)"
proof (induction pieces arbitrary: m st)
  case (Cons d pieces)
  let ?st = "st\<lparr>sh_bytesHashed := sh_bytesHashed st + length d\<rparr>"
  have "hashing m ?st" "\<not> sh_finished st" using Cons.prems by (simp_all add: hashing_def)
  with update_loop_hashing [of m ?st d] Cons.prems(2)
  have "hashing (m @ d) (snd (sha_update d st)) \<and> sh_bytesHashed (snd (sha_update d st)) = length (m @ d)"
    by (simp add: sha_update_def)
  with Cons.IH [of "m @ d"] show ?case by (simp add: feed_def)
qed (simp add: feed_def)

lemma fips_round_length: "length ws = 8 \<Longrightarrow> length (fips_round b t ws) = 8"
  by (cases "(b, t, ws)" rule: fips_round.cases) (simp_all add: Let_def)

lemma compress_length: "length h = 8 \<Longrightarrow> length (compress h b) = 8"
proof -
  have "length h = 8 \<Longrightarrow> length (fold (fips_round b) ts h) = 8" for ts
    by (induction ts arbitrary: h) (simp_all add: fips_round_length)
  then show "length h = 8 \<Longrightarrow> length (compress h b) = 8" by (simp add: compress_def)
qed

lemma sha256_fips_length [simp]: "length (sha256_fips m) = 32"
proof -
  have "length h = 8 \<Longrightarrow> length (foldl compress h bs) = 8" for h bs
    by (induction bs arbitrary: h) (simp_all add: compress_length)
  then have "length (foldl compress SHA256_H (blocks (pad m))) = 8" by (simp add: SHA256_H_def)
  then show ?thesis by (simp add: sha256_fips_def length_concat comp_def sum_list_triv)
qed

lemma finish_finished [simp]: "sh_finished (finish_hash st)"
  by (simp add: finish_hash_def Let_def split: prod.splits)

lemma feed_words:
  "\<not> sh_finished (feed pieces new_sha256)"
  "concat (map uint32_bytes (sh_words (finish_hash (feed pieces new_sha256)))) = sha256_fips (concat pieces)"
proof -
  have "hashing (concat pieces) (feed pieces new_sha256) \<and> sh_bytesHashed (feed pieces new_sha256) = length (concat pieces)"
    using feed_hashing [OF new_hashing, of pieces] by (simp add: new_sha256_def)
  then show "\<not> sh_finished (feed pieces new_sha256)"
    "concat (map uint32_bytes (sh_words (finish_hash (feed pieces new_sha256)))) = sha256_fips (concat pieces)"
    using finish_hash_words [of "concat pieces" "feed pieces new_sha256"]
    by (simp_all only: sha256_fips_def) (simp add: hashing_def)
qed

lemma feed_digest: "sha_digest (feed pieces new_sha256) = (sha256_fips (concat pieces), finish_hash (feed pieces new_sha256))"
  by (simp add: sha_digest_def feed_words)

text \<open>
  C5.  The streaming hash is SHA-256.  However the data is cut into pieces, feeding them one after the
  other and asking for the digest gives the 32 bytes that FIPS 180-4 defines for the whole data; asking
  again gives the same bytes, and no data can be added any more.
\<close>

theorem streaming_hash_is_sha256:
  "case sha_digest (feed pieces new_sha256) of (hash, st) \<Rightarrow>
     hash = sha256_fips (concat pieces) \<and> length hash = 32
     \<and> sha_digest st = (hash, st)
     \<and> sha_update extra st = (Inl ''client-media:hash-finalized'', st)"
  by (simp add: feed_digest) (simp add: sha_digest_def sha_update_def feed_words)

text \<open>
  The constants of the class are those of the standard: the first 32 bits of the fractional parts of the
  square roots of the first eight primes, and of the cube roots of the first 64.
\<close>

definition first_primes :: "int list" where
  "first_primes =
     [2, 3, 5, 7, 11, 13, 17, 19, 23, 29, 31, 37, 41, 43, 47, 53, 59, 61, 67, 71, 73, 79, 83, 89, 97, 101, 103, 107,
      109, 113, 127, 131, 137, 139, 149, 151, 157, 163, 167, 173, 179, 181, 191, 193, 197, 199, 211, 223, 227, 229,
      233, 239, 241, 251, 257, 263, 269, 271, 277, 281, 283, 293, 307, 311]"

definition root_fraction :: "nat \<Rightarrow> int \<Rightarrow> 32 word \<Rightarrow> bool" where
  "root_fraction n p k \<longleftrightarrow>
     list_ex (\<lambda>whole. let c = whole * 4294967296 + uint k in c ^ n \<le> p * 4294967296 ^ n \<and> p * 4294967296 ^ n < (c + 1) ^ n)
       [1, 2, 3, 4, 5, 6]"

lemma sha256_constants:
  "length SHA256_K = 64 \<and> list_all2 (root_fraction 3) first_primes SHA256_K"
  "length SHA256_H = 8 \<and> list_all2 (root_fraction 2) (take 8 first_primes) SHA256_H"
  by code_simp+

end
