(* ===== verification/Media_Security.thy ===== *)
theory Media_Security
  imports Media_Hash Link_Base32 Prelude_Numbers
begin

text \<open>
  Encryption of media, \<^verbatim>\<open>packages/client-media-security/src/index.ts\<close>: whole and chunked encryption and
  decryption, and reading the descriptor of an attachment.

  The Web Crypto functions are arguments: \<open>encrypt\<close> and \<open>decrypt\<close> are AES-GCM under a key, an initialisation
  vector and additional data, a failed authentication being \<open>None\<close>.  \<^verbatim>\<open>digest('SHA-256', ...)\<close> is the hash of
  the standard.  The random key and vector are arguments of the operations.  A blob is its bytes; its media type is not modelled.
\<close>

section \<open>Constants and descriptors\<close>

type_synonym bytes = "8 word list"

definition CLIENT_MEDIA_ENCRYPTION_VERSION :: int where "CLIENT_MEDIA_ENCRYPTION_VERSION = 1"

definition CLIENT_MEDIA_ENCRYPTION_SUITE :: string where "CLIENT_MEDIA_ENCRYPTION_SUITE = ''AES-256-GCM''"

definition CLIENT_MEDIA_CHUNKED_ENCRYPTION_VERSION :: int where "CLIENT_MEDIA_CHUNKED_ENCRYPTION_VERSION = 2"

definition CLIENT_MEDIA_CHUNKED_ENCRYPTION_SUITE :: string where
  "CLIENT_MEDIA_CHUNKED_ENCRYPTION_SUITE = ''AES-256-GCM-CHUNKED''"

definition CLIENT_MEDIA_CHUNKING_FIXED_V1 :: string where "CLIENT_MEDIA_CHUNKING_FIXED_V1 = ''fixed-v1''"

definition CLIENT_MEDIA_NONCE_STRATEGY_COUNTER32_BE :: string where
  "CLIENT_MEDIA_NONCE_STRATEGY_COUNTER32_BE = ''prefix-counter32-be''"

definition CLIENT_MEDIA_CHUNK_AAD_DOMAIN :: string where
  "CLIENT_MEDIA_CHUNK_AAD_DOMAIN = ''peers-touch:attachment:aes-256-gcm-chunked:1''"

definition CLIENT_MEDIA_MAX_CHUNK_COUNT :: nat where "CLIENT_MEDIA_MAX_CHUNK_COUNT = 2048"


definition AES_GCM_NONCE_BYTES :: nat where "AES_GCM_NONCE_BYTES = 12"

definition AES_GCM_TAG_BYTES :: nat where "AES_GCM_TAG_BYTES = 16"

definition DEFAULT_CHUNK_SIZE :: int where "DEFAULT_CHUNK_SIZE = 1024 * 1024"

text \<open>
  A descriptor may lack any field.  Its numbers come from attachments as numbers or texts, and are
  whatever \<^verbatim>\<open>Number\<close> makes of them.
\<close>

record descriptor =
  de_encrypted :: bool
  de_version :: jsnum
  de_suite :: "string option"
  de_keyB64 :: "string option"
  de_nonceB64 :: "string option"
  de_plaintextSha256B64 :: "string option"
  de_ciphertextSha256B64 :: "string option"
  de_plaintextSize :: jsnum
  de_ciphertextSize :: jsnum
  de_chunking :: "string option"
  de_chunkSize :: "jsnum option"
  de_chunkCount :: "jsnum option"
  de_chunkCiphertextSha256B64 :: "string list option"
  de_tagSize :: "jsnum option"
  de_nonceStrategy :: "string option"

datatype media_error =
    PlaintextSizeExceeded
  | ChunkCountExceeded
  | InvalidNonce
  | InvalidChunkIndex
  | InvalidBase64
  | InvalidKey
  | CiphertextHashMismatch
  | ChunkSizeMismatch
  | ChunkHashMismatch
  | AuthenticationFailed
  | CiphertextSizeMismatch
  | PlaintextHashMismatch

text \<open>
  The text of a number.  Integers are written in decimal; the texts of fractions are an argument, no
  result depends on them.
\<close>

definition int_text :: "int \<Rightarrow> string" where
  "int_text n = (if n < 0 then CHR ''-'' # decimal (nat (- n)) else decimal (nat n))"

definition number_text :: "(rat \<Rightarrow> string) \<Rightarrow> jsnum \<Rightarrow> string" where
  "number_text fraction n =
     (case n of
        NaN \<Rightarrow> ''NaN'' | PosInf \<Rightarrow> ''Infinity'' | NegInf \<Rightarrow> ''-Infinity''
      | Num q \<Rightarrow> (case quotient_of q of (a, b) \<Rightarrow> if b = 1 then int_text a else fraction q))"

definition text_bytes :: "string \<Rightarrow> bytes" where
  "text_bytes s = map (\<lambda>c. word_of_nat (of_char c)) s"

definition base64FromBytes :: "bytes \<Rightarrow> string" where
  "base64FromBytes bs = btoa bs"

definition bytesFromBase64 :: "string \<Rightarrow> media_error + bytes" where
  "bytesFromBase64 s = (case atob s of None \<Rightarrow> Inl InvalidBase64 | Some bs \<Rightarrow> Inr bs)"

text \<open>The hash of the class \<^verbatim>\<open>Sha256\<close>, fed one piece after the other.\<close>

definition class_hash :: "bytes list \<Rightarrow> bytes" where
  "class_hash pieces = fst (sha_digest (feed pieces new_sha256))"

definition nonceForChunk :: "bytes \<Rightarrow> nat \<Rightarrow> media_error + bytes" where
  "nonceForChunk baseNonce chunkIndex =
     (if length baseNonce \<noteq> AES_GCM_NONCE_BYTES then Inl InvalidNonce
      else if chunkIndex \<ge> CLIENT_MEDIA_MAX_CHUNK_COUNT then Inl InvalidChunkIndex
      else Inr (set_bytes baseNonce (AES_GCM_NONCE_BYTES - 4) (uint32_bytes (word_of_nat chunkIndex))))"

definition aadForChunk :: "(rat \<Rightarrow> string) \<Rightarrow> nat \<Rightarrow> jsnum \<Rightarrow> jsnum \<Rightarrow> bytes" where
  "aadForChunk fraction chunkIndex plaintextSize chunkSize =
     text_bytes (CLIENT_MEDIA_CHUNK_AAD_DOMAIN @ '':'' @ decimal chunkIndex @ '':''
                 @ number_text fraction plaintextSize @ '':'' @ number_text fraction chunkSize)"

section \<open>Encryption\<close>

type_synonym aes = "bytes \<Rightarrow> bytes \<Rightarrow> bytes \<Rightarrow> bytes \<Rightarrow> bytes"
type_synonym aes_open = "bytes \<Rightarrow> bytes \<Rightarrow> bytes \<Rightarrow> bytes \<Rightarrow> bytes option"

definition plain_descriptor :: "bytes \<Rightarrow> bytes \<Rightarrow> bytes \<Rightarrow> bytes \<Rightarrow> descriptor" where
  "plain_descriptor keyBytes nonce plaintext ciphertext =
     \<lparr>de_encrypted = True, de_version = Num (of_int CLIENT_MEDIA_ENCRYPTION_VERSION),
      de_suite = Some CLIENT_MEDIA_ENCRYPTION_SUITE, de_keyB64 = Some (base64FromBytes keyBytes),
      de_nonceB64 = Some (base64FromBytes nonce),
      de_plaintextSha256B64 = Some (base64FromBytes (sha256_fips plaintext)),
      de_ciphertextSha256B64 = Some (base64FromBytes (sha256_fips ciphertext)),
      de_plaintextSize = Num (of_nat (length plaintext)), de_ciphertextSize = Num (of_nat (length ciphertext)),
      de_chunking = None, de_chunkSize = None, de_chunkCount = None, de_chunkCiphertextSha256B64 = None,
      de_tagSize = None, de_nonceStrategy = None\<rparr>"

definition encryptClientMediaBlob :: "aes \<Rightarrow> bytes \<Rightarrow> bytes \<Rightarrow> bytes \<Rightarrow> bytes \<times> descriptor" where
  "encryptClientMediaBlob encrypt keyBytes nonce plaintext =
     (let ciphertext = encrypt keyBytes nonce [] plaintext in
      (ciphertext, plain_descriptor keyBytes nonce plaintext ciphertext))"

definition chunk_size :: "int option \<Rightarrow> nat" where
  "chunk_size option_size = nat (max 1 (case option_size of Some n \<Rightarrow> n | None \<Rightarrow> DEFAULT_CHUNK_SIZE))"

definition chunk_count :: "nat \<Rightarrow> nat \<Rightarrow> nat" where
  "chunk_count n chunkSize = max 1 ((n + chunkSize - 1) div chunkSize)"

definition chunk_at :: "bytes \<Rightarrow> nat \<Rightarrow> nat \<Rightarrow> bytes" where
  "chunk_at blob chunkSize chunkIndex =
     (let offset = chunkIndex * chunkSize in
      take (min (offset + chunkSize) (length blob) - offset) (drop offset blob))"






text \<open>The reports of progress: the phase, the bytes handled so far and their total.\<close>

datatype progress_phase = ReadPhase | EncryptPhase | HashPhase | DonePhase

type_synonym progress = "progress_phase \<times> nat \<times> nat"

fun loaded_after :: "nat \<Rightarrow> bytes list \<Rightarrow> nat list" where
  "loaded_after loaded [] = []"
| "loaded_after loaded (piece # pieces) = (loaded + length piece) # loaded_after (loaded + length piece) pieces"

definition drainBlobForProgress :: "bytes \<Rightarrow> nat \<Rightarrow> nat list" where
  "drainBlobForProgress blob chunkSize =
     loaded_after 0 (map (chunk_at blob chunkSize) [0..<(length blob + chunkSize - 1) div chunkSize])"

definition whole_progress :: "int option \<Rightarrow> bytes \<Rightarrow> bytes \<Rightarrow> progress list" where
  "whole_progress option_size blob ciphertext =
     (let chunkSize = chunk_size option_size; n = length blob; both = n + length ciphertext in
      [(ReadPhase, 0, n)]
      @ (if n > chunkSize then map (\<lambda>loaded. (ReadPhase, loaded, n)) (drainBlobForProgress blob chunkSize) else [])
      @ [(ReadPhase, n, n), (EncryptPhase, 0, n), (EncryptPhase, n, n), (HashPhase, 0, both), (HashPhase, both, both),
         (DonePhase, n, n)])"

definition chunked_progress :: "int option \<Rightarrow> bytes \<Rightarrow> progress list" where
  "chunked_progress option_size blob =
     (let chunkSize = chunk_size option_size; n = length blob in
      [(EncryptPhase, 0, n)]
      @ map (\<lambda>loaded. (EncryptPhase, loaded, n))
          (loaded_after 0 (map (chunk_at blob chunkSize) [0..<chunk_count n chunkSize]))
      @ [(DonePhase, n, n)])"

section \<open>Decryption\<close>

definition set_text :: "string option \<Rightarrow> bool" where
  "set_text t \<longleftrightarrow> t \<noteq> None \<and> t \<noteq> Some []"

definition isClientMediaEncryptionDescriptor :: "descriptor \<Rightarrow> bool" where
  "isClientMediaEncryptionDescriptor d \<longleftrightarrow>
     de_encrypted d
     \<and> ((de_version d = Num (of_int CLIENT_MEDIA_ENCRYPTION_VERSION) \<and> de_suite d = Some CLIENT_MEDIA_ENCRYPTION_SUITE)
        \<or> (de_version d = Num (of_int CLIENT_MEDIA_CHUNKED_ENCRYPTION_VERSION)
           \<and> de_suite d = Some CLIENT_MEDIA_CHUNKED_ENCRYPTION_SUITE))
     \<and> set_text (de_keyB64 d) \<and> set_text (de_nonceB64 d)
     \<and> set_text (de_plaintextSha256B64 d) \<and> set_text (de_ciphertextSha256B64 d)"

definition positive_safe :: "jsnum option \<Rightarrow> nat option" where
  "positive_safe n = (case Option.bind n safe_integer of Some k \<Rightarrow> if k > 0 then Some (nat k) else None | None \<Rightarrow> None)"

text \<open>The chunk size and count of a chunked descriptor.\<close>

definition isChunkedDescriptor :: "descriptor \<Rightarrow> (nat \<times> nat) option" where
  "isChunkedDescriptor d =
     (if de_version d = Num (of_int CLIENT_MEDIA_CHUNKED_ENCRYPTION_VERSION)
         \<and> de_suite d = Some CLIENT_MEDIA_CHUNKED_ENCRYPTION_SUITE
         \<and> de_chunking d = Some CLIENT_MEDIA_CHUNKING_FIXED_V1
         \<and> de_nonceStrategy d = Some CLIENT_MEDIA_NONCE_STRATEGY_COUNTER32_BE
         \<and> de_tagSize d = Some (Num (of_nat AES_GCM_TAG_BYTES))
      then (case (positive_safe (de_chunkSize d), positive_safe (de_chunkCount d)) of
              (Some c, Some n) \<Rightarrow> Some (c, n) | _ \<Rightarrow> None)
      else None)"

text \<open>
  \<^verbatim>\<open>Math.min(chunkSize, Math.max(0, plaintextSize - chunkIndex * chunkSize))\<close>, \<open>None\<close> when it is no integer: a
  slice then never has that length.
\<close>

definition chunk_length :: "jsnum \<Rightarrow> nat \<Rightarrow> nat \<Rightarrow> nat option" where
  "chunk_length plaintextSize chunkSize chunkIndex =
     (case plaintextSize of
        NaN \<Rightarrow> None
      | PosInf \<Rightarrow> Some chunkSize
      | NegInf \<Rightarrow> Some 0
      | Num q \<Rightarrow>
          let len = min (of_nat chunkSize) (max 0 (q - of_nat (chunkIndex * chunkSize))) in
          (case quotient_of len of (a, b) \<Rightarrow> if b = 1 then Some (nat a) else None))"

definition chunk_hash_ok :: "descriptor \<Rightarrow> nat \<Rightarrow> bytes \<Rightarrow> bool" where
  "chunk_hash_ok d chunkIndex chunk \<longleftrightarrow>
     (case de_chunkCiphertextSha256B64 d of
        None \<Rightarrow> True
      | Some hashes \<Rightarrow>
          chunkIndex < length hashes \<and> hashes ! chunkIndex \<noteq> [] \<longrightarrow>
            base64FromBytes (class_hash [chunk]) = hashes ! chunkIndex)"

definition decrypt_chunk ::
  "aes_open \<Rightarrow> (rat \<Rightarrow> string) \<Rightarrow> bytes \<Rightarrow> descriptor \<Rightarrow> nat \<Rightarrow> bytes \<Rightarrow> nat \<Rightarrow> nat \<Rightarrow> media_error + bytes \<times> nat" where
  "decrypt_chunk decrypt fraction keyBytes d chunkSize ciphertext offset chunkIndex =
     (case chunk_length (de_plaintextSize d) chunkSize chunkIndex of
        None \<Rightarrow> Inl ChunkSizeMismatch
      | Some len \<Rightarrow>
          let chunk = take (len + AES_GCM_TAG_BYTES) (drop offset ciphertext) in
          if length chunk \<noteq> len + AES_GCM_TAG_BYTES then Inl ChunkSizeMismatch
          else if \<not> chunk_hash_ok d chunkIndex chunk then Inl ChunkHashMismatch
          else
            (case bytesFromBase64 (the (de_nonceB64 d)) of
               Inl err \<Rightarrow> Inl err
             | Inr base \<Rightarrow>
                 (case nonceForChunk base chunkIndex of
                    Inl err \<Rightarrow> Inl err
                  | Inr nonce \<Rightarrow>
                      (case decrypt keyBytes nonce
                              (aadForChunk fraction chunkIndex (de_plaintextSize d) (Num (of_nat chunkSize))) chunk of
                         None \<Rightarrow> Inl AuthenticationFailed
                       | Some plaintext \<Rightarrow> Inr (plaintext, offset + (len + AES_GCM_TAG_BYTES))))))"

fun decrypt_chunks ::
  "aes_open \<Rightarrow> (rat \<Rightarrow> string) \<Rightarrow> bytes \<Rightarrow> descriptor \<Rightarrow> nat \<Rightarrow> bytes \<Rightarrow> nat \<Rightarrow> nat list
    \<Rightarrow> media_error + bytes list \<times> nat" where
  "decrypt_chunks decrypt fraction keyBytes d chunkSize ciphertext offset [] = Inr ([], offset)"
| "decrypt_chunks decrypt fraction keyBytes d chunkSize ciphertext offset (i # is) =
     (case decrypt_chunk decrypt fraction keyBytes d chunkSize ciphertext offset i of
        Inl err \<Rightarrow> Inl err
      | Inr (p, offset') \<Rightarrow>
          (case decrypt_chunks decrypt fraction keyBytes d chunkSize ciphertext offset' is of
             Inl err \<Rightarrow> Inl err
           | Inr (ps, last_offset) \<Rightarrow> Inr (p # ps, last_offset)))"

definition importKey :: "string \<Rightarrow> media_error + bytes" where
  "importKey keyB64 =
     (case bytesFromBase64 keyB64 of
        Inl err \<Rightarrow> Inl err
      | Inr k \<Rightarrow> if length k \<in> {16, 24, 32} then Inr k else Inl InvalidKey)"

definition decrypt_chunked ::
  "aes_open \<Rightarrow> (rat \<Rightarrow> string) \<Rightarrow> bytes \<Rightarrow> descriptor \<Rightarrow> nat \<Rightarrow> nat \<Rightarrow> bytes \<Rightarrow> media_error + bytes" where
  "decrypt_chunked decrypt fraction keyBytes d chunkSize chunkCount ciphertext =
     (case decrypt_chunks decrypt fraction keyBytes d chunkSize ciphertext 0 [0..<chunkCount] of
        Inl err \<Rightarrow> Inl err
      | Inr (parts, offset) \<Rightarrow>
          if offset \<noteq> length ciphertext then Inl CiphertextSizeMismatch
          else if base64FromBytes (class_hash parts) \<noteq> the (de_plaintextSha256B64 d) then Inl PlaintextHashMismatch
          else Inr (concat parts))"

definition decrypt_whole :: "aes_open \<Rightarrow> bytes \<Rightarrow> descriptor \<Rightarrow> bytes \<Rightarrow> media_error + bytes" where
  "decrypt_whole decrypt keyBytes d ciphertext =
     (case bytesFromBase64 (the (de_nonceB64 d)) of
        Inl err \<Rightarrow> Inl err
      | Inr nonce \<Rightarrow>
          (case decrypt keyBytes nonce [] ciphertext of
             None \<Rightarrow> Inl AuthenticationFailed
           | Some plaintext \<Rightarrow>
               if base64FromBytes (sha256_fips plaintext) \<noteq> the (de_plaintextSha256B64 d) then Inl PlaintextHashMismatch
               else Inr plaintext))"

definition decryptClientMediaBlob ::
  "aes_open \<Rightarrow> (rat \<Rightarrow> string) \<Rightarrow> bytes \<Rightarrow> descriptor option \<Rightarrow> media_error + bytes" where
  "decryptClientMediaBlob decrypt fraction ciphertext descriptor =
     (case descriptor of
        None \<Rightarrow> Inr ciphertext
      | Some d \<Rightarrow>
          if \<not> isClientMediaEncryptionDescriptor d then Inr ciphertext
          else if base64FromBytes (sha256_fips ciphertext) \<noteq> the (de_ciphertextSha256B64 d) then Inl CiphertextHashMismatch
          else
            (case importKey (the (de_keyB64 d)) of
               Inl err \<Rightarrow> Inl err
             | Inr key \<Rightarrow>
                 (case isChunkedDescriptor d of
                    Some (chunkSize, chunkCount) \<Rightarrow> decrypt_chunked decrypt fraction key d chunkSize chunkCount ciphertext
                  | None \<Rightarrow> decrypt_whole decrypt key d ciphertext)))"

section \<open>Descriptors of attachments\<close>

text \<open>A number of an attachment, and the fields of its embedded descriptor.  \<open>to_number\<close> is \<^verbatim>\<open>Number\<close> on texts.\<close>

datatype descriptor_value = NumberValue jsnum | TextValue string | BigValue int

definition numberFromDescriptorValue :: "(string \<Rightarrow> jsnum) \<Rightarrow> descriptor_value option \<Rightarrow> jsnum" where
  "numberFromDescriptorValue to_number v =
     (case v of
        Some (NumberValue n) \<Rightarrow> n
      | Some (BigValue n) \<Rightarrow> Num (of_int n)
      | Some (TextValue t) \<Rightarrow> if js_trim t \<noteq> [] then to_number t else Num 0
      | None \<Rightarrow> Num 0)"

record descriptor_like =
  dl_encrypted :: "bool option"
  dl_version :: "jsnum option"
  dl_suite :: "string option"
  dl_keyB64 :: "string option"
  dl_nonceB64 :: "string option"
  dl_plaintextSha256B64 :: "string option"
  dl_ciphertextSha256B64 :: "string option"
  dl_plaintextSize :: "descriptor_value option"
  dl_ciphertextSize :: "descriptor_value option"
  dl_chunking :: "string option"
  dl_chunkSize :: "descriptor_value option"
  dl_chunkCount :: "descriptor_value option"
  dl_chunkCiphertextSha256B64 :: "string list option"
  dl_tagSize :: "descriptor_value option"
  dl_nonceStrategy :: "string option"

definition normalizeDescriptor :: "(string \<Rightarrow> jsnum) \<Rightarrow> descriptor_like option \<Rightarrow> descriptor option" where
  "normalizeDescriptor to_number descriptor =
     map_option (\<lambda>d.
       \<lparr>de_encrypted = (dl_encrypted d = Some True),
        de_version = (case dl_version d of Some v \<Rightarrow> v | None \<Rightarrow> NaN),
        de_suite = dl_suite d, de_keyB64 = dl_keyB64 d, de_nonceB64 = dl_nonceB64 d,
        de_plaintextSha256B64 = dl_plaintextSha256B64 d, de_ciphertextSha256B64 = dl_ciphertextSha256B64 d,
        de_plaintextSize = numberFromDescriptorValue to_number (dl_plaintextSize d),
        de_ciphertextSize = numberFromDescriptorValue to_number (dl_ciphertextSize d),
        de_chunking = dl_chunking d,
        de_chunkSize = Some (numberFromDescriptorValue to_number (dl_chunkSize d)),
        de_chunkCount = Some (numberFromDescriptorValue to_number (dl_chunkCount d)),
        de_chunkCiphertextSha256B64 = dl_chunkCiphertextSha256B64 d,
        de_tagSize = Some (numberFromDescriptorValue to_number (dl_tagSize d)),
        de_nonceStrategy = dl_nonceStrategy d\<rparr>) descriptor"

text \<open>
  An attachment has its descriptor embedded, or the fields of one beside its own; every name exists in
  two spellings, the camel case one first.
\<close>

record media_attachment =
  ma_mediaEncryption :: "descriptor_like option \<times> descriptor_like option"
  ma_encryptionSuite :: "string option \<times> string option"
  ma_encryptionKeyB64 :: "string option \<times> string option"
  ma_encryptionNonceB64 :: "string option \<times> string option"
  ma_plaintextSha256B64 :: "string option \<times> string option"
  ma_ciphertextSha256B64 :: "string option \<times> string option"
  ma_plaintextSize :: "descriptor_value option \<times> descriptor_value option"
  ma_ciphertextSize :: "descriptor_value option \<times> descriptor_value option"
  ma_chunking :: "string option"
  ma_chunkSize :: "descriptor_value option \<times> descriptor_value option"
  ma_chunkCount :: "descriptor_value option \<times> descriptor_value option"
  ma_chunkCiphertextSha256B64 :: "string list option \<times> string list option"
  ma_tagSize :: "descriptor_value option \<times> descriptor_value option"
  ma_nonceStrategy :: "string option \<times> string option"

definition either :: "'a option \<times> 'a option \<Rightarrow> 'a option" where
  "either p = (case p of (Some x, _) \<Rightarrow> Some x | (None, y) \<Rightarrow> y)"

definition flat_descriptor :: "string option \<Rightarrow> media_attachment \<Rightarrow> descriptor_like" where
  "flat_descriptor keyOverride a =
     \<lparr>dl_encrypted = Some True, dl_version = Some (Num (of_int CLIENT_MEDIA_ENCRYPTION_VERSION)),
       dl_suite = either (ma_encryptionSuite a),
       dl_keyB64 = either (keyOverride, either (ma_encryptionKeyB64 a)),
       dl_nonceB64 = either (ma_encryptionNonceB64 a),
       dl_plaintextSha256B64 = either (ma_plaintextSha256B64 a),
       dl_ciphertextSha256B64 = either (ma_ciphertextSha256B64 a),
       dl_plaintextSize = either (ma_plaintextSize a), dl_ciphertextSize = either (ma_ciphertextSize a),
       dl_chunking = ma_chunking a, dl_chunkSize = either (ma_chunkSize a), dl_chunkCount = either (ma_chunkCount a),
       dl_chunkCiphertextSha256B64 = either (ma_chunkCiphertextSha256B64 a), dl_tagSize = either (ma_tagSize a),
       dl_nonceStrategy = either (ma_nonceStrategy a)\<rparr>"

definition embedded_descriptor :: "(string \<Rightarrow> jsnum) \<Rightarrow> string option \<Rightarrow> media_attachment \<Rightarrow> descriptor option" where
  "embedded_descriptor to_number keyOverride a =
     map_option (\<lambda>d. if keyOverride \<noteq> None \<and> \<not> set_text (de_keyB64 d) then d\<lparr>de_keyB64 := keyOverride\<rparr> else d)
       (normalizeDescriptor to_number (either (ma_mediaEncryption a)))"

definition clientMediaEncryptionDescriptorFromAttachment ::
  "(string \<Rightarrow> jsnum) \<Rightarrow> media_attachment \<Rightarrow> string option \<Rightarrow> descriptor option" where
  "clientMediaEncryptionDescriptorFromAttachment to_number a keyB64Override =
     (let keyOverride = (case keyB64Override of
                           Some k \<Rightarrow> if js_trim k = [] then None else Some (js_trim k) | None \<Rightarrow> None);
          accept = (\<lambda>d. case d of Some e \<Rightarrow> if isClientMediaEncryptionDescriptor e then Some e else None | None \<Rightarrow> None) in
      case accept (embedded_descriptor to_number keyOverride a) of
        Some d \<Rightarrow> Some d
      | None \<Rightarrow> accept (normalizeDescriptor to_number (Some (flat_descriptor keyOverride a))))"

section \<open>Base64 and hashes of descriptors\<close>

lemma symbols64_plain: "c \<in> set (symbols64 bs) \<Longrightarrow> c \<noteq> CHR ''='' \<and> c \<notin> set [CHR '' '', CHR 0x09, CHR 0x0A, CHR 0x0C, CHR 0x0D]"
  using base64_symbols(2) [of bs] alphabet64_url by (metis subsetD list_all_iff)

lemma strip_padding_pad:
  assumes "length s mod 4 = 0 \<and> k = 0 \<or> length s mod 4 = 2 \<and> k = 2 \<or> length s mod 4 = 3 \<and> k = 1"
    and "\<forall>c \<in> set s. c \<noteq> CHR ''=''"
  shows "strip_padding (s @ replicate k (CHR ''='')) = s"
proof -
  have l: "s \<noteq> [] \<Longrightarrow> last s \<noteq> CHR ''=''" using assms(2) last_in_set by blast
  from assms(1) show ?thesis
  proof (elim disjE conjE)
    assume "length s mod 4 = 0" "k = 0"
    then show ?thesis using l by (auto simp: strip_padding_def)
  next
    assume m: "length s mod 4 = 2" "k = 2"
    then have "(length s + 2) mod 4 = 0" by presburger
    then show ?thesis using m by (simp add: strip_padding_def numeral_2_eq_2 butlast_append)
  next
    assume m: "length s mod 4 = 3" "k = 1"
    then have "(length s + 1) mod 4 = 0" "s \<noteq> []" by (presburger, auto)
    then show ?thesis using m l by (simp add: strip_padding_def butlast_append)
  qed
qed

lemma atob_btoa [simp]: "atob (btoa bs) = Some bs"
proof -
  let ?s = "symbols64 bs" and ?pad = "(4 - length (symbols64 bs) mod 4) mod 4"
  have btoa: "btoa bs = ?s @ replicate ?pad (CHR ''='')" by (simp add: btoa_def symbols64_def Let_def)
  have "r = 0 \<and> (4 - r) mod 4 = 0 \<or> r = 2 \<and> (4 - r) mod 4 = 2 \<or> r = 3 \<and> (4 - r) mod 4 = 1"
    if "r \<noteq> 1" "r < 4" for r :: nat
  proof -
    have "r = 0 \<or> r = 2 \<or> r = 3" using that by auto
    then show ?thesis by auto
  qed
  from this [OF symbols64_length [of bs]]
  have cases: "length ?s mod 4 = 0 \<and> ?pad = 0 \<or> length ?s mod 4 = 2 \<and> ?pad = 2 \<or> length ?s mod 4 = 3 \<and> ?pad = 1"
    by simp
  have plain: "\<forall>c \<in> set ?s. c \<noteq> CHR ''='' \<and> c \<notin> set [CHR '' '', CHR 0x09, CHR 0x0A, CHR 0x0C, CHR 0x0D]"
    using symbols64_plain by blast
  let ?P = "\<lambda>c. c \<notin> set [CHR '' '', CHR 0x09, CHR 0x0A, CHR 0x0C, CHR 0x0D]"
  have keep': "filter ?P ?s = ?s"
    by (rule filter_True) (use plain in blast)
  have "?P (CHR ''='')" by simp
  then have keep: "filter ?P (btoa bs) = btoa bs"
    unfolding btoa by (simp only: filter_append keep' filter_replicate not_False_eq_True if_True)
  have "strip_padding (btoa bs) = ?s" unfolding btoa using strip_padding_pad [OF cases] plain by blast
  moreover have "strip_padding ?s = ?s"
    using plain last_in_set [of ?s] unfolding strip_padding_def by metis
  ultimately have "atob (btoa bs) = atob ?s" unfolding atob_def keep keep' by simp
  then show ?thesis by (simp add: atob_symbols)
qed

lemma base64_inject [simp]: "base64FromBytes a = base64FromBytes b \<longleftrightarrow> a = b"
  unfolding base64FromBytes_def by (metis atob_btoa option.inject)

lemma bytesFromBase64_ok [simp]: "bytesFromBase64 (base64FromBytes bs) = Inr bs"
  by (simp add: bytesFromBase64_def base64FromBytes_def)

lemma btoa_Nil: "base64FromBytes [] = []"
  by (simp add: base64FromBytes_def btoa_def enc_bytes_def)

lemma set_text_base64 [simp]: "set_text (Some (base64FromBytes bs)) \<longleftrightarrow> bs \<noteq> []"
  using base64_inject [of bs "[]"] unfolding btoa_Nil by (auto simp: set_text_def btoa_Nil)

lemma class_hash_eq: "class_hash pieces = sha256_fips (concat pieces)"
  by (simp add: class_hash_def feed_digest)

lemma sha256_fips_not_Nil [simp]: "sha256_fips m \<noteq> []"
  using sha256_fips_length [of m] by (metis list.size(3) zero_neq_numeral)

section \<open>Chunks\<close>

lemma chunk_at_eq: "chunk_at blob c i = take c (drop (i * c) blob)"
  by (cases "i * c + c \<le> length blob") (simp_all add: chunk_at_def Let_def)


lemma chunks_concat: "concat (map (chunk_at blob c) [0..<n]) = take (n * c) blob"
proof (induction n)
  case (Suc n)
  have "take (n * c) blob @ take c (drop (n * c) blob) = take (n * c + c) blob" by (simp add: take_add)
  with Suc show ?case by (simp add: chunk_at_eq add.commute)
qed simp

lemma chunk_count_covers: "0 < c \<Longrightarrow> n \<le> chunk_count n c * c"
proof -
  assume c: "0 < c"
  have "n \<le> (n + c - 1) div c * c"
  proof -
    have "n + c - 1 = (n + c - 1) div c * c + (n + c - 1) mod c" by simp
    moreover have "(n + c - 1) mod c \<le> c - 1" using c by (simp add: less_Suc_eq_le [symmetric])
    ultimately show ?thesis using c by linarith
  qed
  also have "\<dots> \<le> chunk_count n c * c" by (simp add: chunk_count_def)
  finally show ?thesis .
qed

lemma chunks_whole: "0 < c \<Longrightarrow> concat (map (chunk_at blob c) [0..<chunk_count (length blob) c]) = blob"
  using chunk_count_covers [of c "length blob"] by (simp add: chunks_concat)

lemma quotient_of_nat: "quotient_of (of_nat k) = (int k, 1)"
  by (simp add: of_nat_rat quotient_of_Fract normalize_def)



section \<open>Round trips\<close>

definition nonce_at :: "bytes \<Rightarrow> nat \<Rightarrow> bytes" where
  "nonce_at base i = set_bytes base 8 (uint32_bytes (word_of_nat i))"

lemma nonceForChunk_ok: "length base = 12 \<Longrightarrow> i < 2048 \<Longrightarrow> nonceForChunk base i = Inr (nonce_at base i)"
  by (simp add: nonceForChunk_def nonce_at_def AES_GCM_NONCE_BYTES_def CLIENT_MEDIA_MAX_CHUNK_COUNT_def)

lemma nonceForChunk_Inr: "nonceForChunk base i = Inr nonce \<longleftrightarrow> length base = 12 \<and> i < 2048 \<and> nonce = nonce_at base i"
  by (auto simp: nonceForChunk_def nonce_at_def AES_GCM_NONCE_BYTES_def CLIENT_MEDIA_MAX_CHUNK_COUNT_def)






lemma chunk_size_pos: "0 < chunk_size opt"
  by (simp add: chunk_size_def)

lemma loaded_after_sorted: "sorted (loaded # loaded_after loaded pieces)"
proof (induction pieces arbitrary: loaded)
  case (Cons piece pieces)
  from Cons.IH [of "loaded + length piece"] show ?case by (auto intro: order_trans)
qed simp

lemma loaded_after_bound: "l \<in> set (loaded_after loaded pieces) \<Longrightarrow> l \<le> loaded + length (concat pieces)"
  by (induction pieces arbitrary: loaded) fastforce+

text \<open>The progress of chunked encryption never goes back and ends with the size of the file.\<close>

lemma chunked_progress_monotone:
  "sorted (map (\<lambda>(_, loaded, _). loaded) (chunked_progress opt blob))
   \<and> last (chunked_progress opt blob) = (DonePhase, length blob, length blob)"
proof -
  have "length (concat (map (chunk_at blob (chunk_size opt)) [0..<chunk_count (length blob) (chunk_size opt)])) = length blob"
    by (simp only: chunks_whole [OF chunk_size_pos])
  then have "\<forall>l \<in> set (loaded_after 0 (map (chunk_at blob (chunk_size opt)) [0..<chunk_count (length blob) (chunk_size opt)])).
      l \<le> length blob"
    using loaded_after_bound [where loaded = 0] by (metis add_0)
  moreover have "map (\<lambda>(_, loaded, _). loaded) (chunked_progress opt blob)
      = 0 # loaded_after 0 (map (chunk_at blob (chunk_size opt)) [0..<chunk_count (length blob) (chunk_size opt)]) @ [length blob]"
    by (simp add: chunked_progress_def Let_def comp_def)
  ultimately show ?thesis
    using loaded_after_sorted [of 0 "map (chunk_at blob (chunk_size opt)) [0..<chunk_count (length blob) (chunk_size opt)]"]
    by (simp add: sorted_append) (simp add: chunked_progress_def Let_def)
qed

lemma whole_roundtrip:
  fixes encrypt :: aes and decrypt :: aes_open
  assumes open_seal: "\<And>k n a p. decrypt k n a (encrypt k n a p) = Some p"
    and key: "length key = 32" and random: "length random = 12"
    and e: "encryptClientMediaBlob encrypt key random blob = (ciphertext, d)"
  shows "isClientMediaEncryptionDescriptor d \<and> isChunkedDescriptor d = None
    \<and> decryptClientMediaBlob decrypt fraction ciphertext (Some d) = Inr blob"
proof -
  have ne: "key \<noteq> []" "random \<noteq> []" using key random by auto
  have c: "ciphertext = encrypt key random [] blob" and d: "d = plain_descriptor key random blob ciphertext"
    using e by (auto simp: encryptClientMediaBlob_def Let_def)
  have "isClientMediaEncryptionDescriptor d"
    using ne by (simp add: d isClientMediaEncryptionDescriptor_def plain_descriptor_def)
  moreover have "isChunkedDescriptor d = None"
    by (simp add: d isChunkedDescriptor_def plain_descriptor_def CLIENT_MEDIA_ENCRYPTION_VERSION_def
        CLIENT_MEDIA_CHUNKED_ENCRYPTION_VERSION_def)
  moreover have "importKey (the (de_keyB64 d)) = Inr key" using key by (simp add: d plain_descriptor_def importKey_def)
  moreover have "the (de_ciphertextSha256B64 d) = base64FromBytes (sha256_fips ciphertext)"
    by (simp add: d plain_descriptor_def)
  moreover have "decrypt_whole decrypt key d ciphertext = Inr blob"
    using open_seal [of key random "[]" blob] by (simp add: d c decrypt_whole_def plain_descriptor_def)
  ultimately show ?thesis by (simp add: decryptClientMediaBlob_def)
qed





section \<open>Integrity\<close>

lemma drop_take_split: "drop m xs = take n (drop m xs) @ drop (m + n) xs"
  by (metis add.commute append_take_drop_id drop_drop)

lemma decrypt_chunk_opened:
  "decrypt_chunk decrypt fraction key d c ct offset i = Inr (p, offset') \<Longrightarrow>
     \<exists>chunk base. bytesFromBase64 (the (de_nonceB64 d)) = Inr base \<and> length base = 12 \<and> i < 2048
       \<and> decrypt key (nonce_at base i) (aadForChunk fraction i (de_plaintextSize d) (Num (of_nat c))) chunk = Some p
       \<and> chunk_hash_ok d i chunk \<and> drop offset ct = chunk @ drop offset' ct \<and> offset' = offset + length chunk"
  apply (clarsimp simp: decrypt_chunk_def Let_def nonceForChunk_Inr split: option.splits if_splits sum.splits)
  apply (rule exI, intro conjI, assumption)
  apply (simp_all flip: drop_take_split)
  done

lemma decrypt_chunks_opened:
  "decrypt_chunks decrypt fraction key d c ct offset is = Inr (parts, offset') \<Longrightarrow>
     \<exists>chunks. length chunks = length is \<and> length parts = length is
       \<and> (\<forall>j < length is. \<exists>base. bytesFromBase64 (the (de_nonceB64 d)) = Inr base \<and> length base = 12 \<and> is ! j < 2048
            \<and> decrypt key (nonce_at base (is ! j)) (aadForChunk fraction (is ! j) (de_plaintextSize d) (Num (of_nat c)))
                (chunks ! j) = Some (parts ! j))
       \<and> drop offset ct = concat chunks @ drop offset' ct \<and> offset' = offset + length (concat chunks)"
proof (induction "is" arbitrary: offset parts)
  case (Cons i "is")
  from Cons.prems obtain p off ps where
    first: "decrypt_chunk decrypt fraction key d c ct offset i = Inr (p, off)"
    and rest: "decrypt_chunks decrypt fraction key d c ct off is = Inr (ps, offset')" and parts: "parts = p # ps"
    by (auto split: sum.splits prod.splits)
  from decrypt_chunk_opened [OF first] obtain chunk base where
    chunk: "bytesFromBase64 (the (de_nonceB64 d)) = Inr base" "length base = 12" "i < 2048"
      "decrypt key (nonce_at base i) (aadForChunk fraction i (de_plaintextSize d) (Num (of_nat c))) chunk = Some p"
      "drop offset ct = chunk @ drop off ct" "off = offset + length chunk" by blast
  from Cons.IH [OF rest] obtain chunks where
    chunks: "length chunks = length is" "length ps = length is"
      "\<forall>j < length is. \<exists>base. bytesFromBase64 (the (de_nonceB64 d)) = Inr base \<and> length base = 12 \<and> is ! j < 2048
            \<and> decrypt key (nonce_at base (is ! j)) (aadForChunk fraction (is ! j) (de_plaintextSize d) (Num (of_nat c)))
                (chunks ! j) = Some (ps ! j)"
      "drop off ct = concat chunks @ drop offset' ct" "offset' = off + length (concat chunks)" by blast
  show ?case
    using chunk chunks parts by (intro exI [of _ "chunk # chunks"]) (auto simp: nth_Cons split: nat.splits)
qed simp

text \<open>
  C11.  Decryption returns nothing it has not verified.  When a descriptor is accepted and a plaintext is
  returned, the ciphertext and the plaintext have the hashes of the descriptor.  A chunked ciphertext is
  then split without rest into as many chunks as the descriptor says, at most 2048, and every part of
  the plaintext was authenticated from the chunk at its place, under the vector and the additional data
  of that place.
\<close>

theorem decrypt_integrity:
  assumes "decryptClientMediaBlob decrypt fraction ciphertext (Some d) = Inr plaintext"
    and "isClientMediaEncryptionDescriptor d"
  shows "de_ciphertextSha256B64 d = Some (base64FromBytes (sha256_fips ciphertext))
    \<and> de_plaintextSha256B64 d = Some (base64FromBytes (sha256_fips plaintext))
    \<and> (case isChunkedDescriptor d of
         None \<Rightarrow> \<exists>key nonce. decrypt key nonce [] ciphertext = Some plaintext
       | Some (chunkSize, chunkCount) \<Rightarrow>
           chunkCount \<le> 2048
           \<and> (\<exists>key chunks parts. ciphertext = concat chunks \<and> plaintext = concat parts
                \<and> length chunks = chunkCount \<and> length parts = chunkCount
                \<and> (\<forall>i < chunkCount. \<exists>nonce.
                     nonceForChunk (projr (bytesFromBase64 (the (de_nonceB64 d)))) i = Inr nonce
                     \<and> decrypt key nonce (aadForChunk fraction i (de_plaintextSize d) (Num (of_nat chunkSize))) (chunks ! i)
                         = Some (parts ! i))))"
proof -
  from assms obtain key where
    ct: "de_ciphertextSha256B64 d = Some (base64FromBytes (sha256_fips ciphertext))"
    and opened: "(case isChunkedDescriptor d of
        Some (chunkSize, chunkCount) \<Rightarrow> decrypt_chunked decrypt fraction key d chunkSize chunkCount ciphertext
      | None \<Rightarrow> decrypt_whole decrypt key d ciphertext) = Inr plaintext"
    by (auto simp: decryptClientMediaBlob_def isClientMediaEncryptionDescriptor_def set_text_def
        split: if_splits sum.splits)
  from assms(2) obtain h where pt: "de_plaintextSha256B64 d = Some h"
    by (auto simp: isClientMediaEncryptionDescriptor_def set_text_def)
  show ?thesis
  proof (cases "isChunkedDescriptor d")
    case None
    then show ?thesis using ct opened pt by (auto simp: decrypt_whole_def split: sum.splits option.splits if_splits)
  next
    case (Some cn)
    then obtain c n where cn: "isChunkedDescriptor d = Some (c, n)" by (cases cn) auto
    from opened cn obtain parts where
      parts: "decrypt_chunks decrypt fraction key d c ciphertext 0 [0..<n] = Inr (parts, length ciphertext)"
        "base64FromBytes (class_hash parts) = h" "plaintext = concat parts"
      by (auto simp: decrypt_chunked_def pt split: sum.splits prod.splits if_splits)
    from decrypt_chunks_opened [OF parts(1)] obtain chunks where
      chunks: "length chunks = n" "length parts = n" "ciphertext = concat chunks"
        "\<forall>j < n. \<exists>base. bytesFromBase64 (the (de_nonceB64 d)) = Inr base \<and> length base = 12 \<and> j < 2048
            \<and> decrypt key (nonce_at base j) (aadForChunk fraction j (de_plaintextSize d) (Num (of_nat c)))
                (chunks ! j) = Some (parts ! j)"
      by auto
    have "n \<le> 2048"
    proof (cases n)
      case (Suc m)
      then show ?thesis using chunks(4) by force
    qed simp
    moreover have "\<forall>i < n. \<exists>nonce. nonceForChunk (projr (bytesFromBase64 (the (de_nonceB64 d)))) i = Inr nonce
        \<and> decrypt key nonce (aadForChunk fraction i (de_plaintextSize d) (Num (of_nat c))) (chunks ! i) = Some (parts ! i)"
      using chunks(4) by (fastforce simp: nonceForChunk_ok)
    ultimately show ?thesis using ct pt parts chunks cn by (auto simp: class_hash_eq)
  qed
qed

theorem decrypt_integrity_witness:
  "let encrypt = (\<lambda>k n a p. p @ replicate 16 0); decrypt = (\<lambda>k n a c. Some (take (length c - 16) c));
       (ciphertext, d) = encryptClientMediaBlob encrypt (replicate 32 7) (replicate 12 9) [1, 2, 3] in
   isClientMediaEncryptionDescriptor d \<and> decryptClientMediaBlob decrypt (\<lambda>_. []) ciphertext (Some d) = Inr [1, 2, 3]
   \<and> de_plaintextSha256B64 d = Some (base64FromBytes (sha256_fips [1, 2, 3]))"
proof -
  define encrypt :: aes where "encrypt = (\<lambda>k n a p. p @ replicate 16 0)"
  define decrypt :: aes_open where "decrypt = (\<lambda>k n a c. Some (take (length c - 16) c))"
  obtain ciphertext d where
    e: "encryptClientMediaBlob encrypt (replicate 32 7) (replicate 12 9) [1, 2, 3] = (ciphertext, d)" by fastforce
  then have ok: "isClientMediaEncryptionDescriptor d"
    "decryptClientMediaBlob decrypt (\<lambda>_. []) ciphertext (Some d) = Inr [1, 2, 3]"
    using whole_roundtrip [where decrypt = decrypt and encrypt = encrypt, OF _ _ _ e] by (simp_all add: encrypt_def decrypt_def)
  from decrypt_integrity [OF ok(2,1)] show ?thesis
    using ok e by (simp add: encrypt_def decrypt_def Let_def)
qed

section \<open>The place of a chunk\<close>

lemma uint32_bytes_inject: "uint32_bytes v = uint32_bytes w \<longleftrightarrow> v = w"
proof
  assume eq: "uint32_bytes v = uint32_bytes w"
  have byte: "(ucast (drop_bit k v) :: 8 word) = ucast (drop_bit k w) \<Longrightarrow> n < 8 \<Longrightarrow> bit v (k + n) = bit w (k + n)"
    for k n
    by (drule arg_cong [where f = "\<lambda>b. bit b n"]) (simp add: bit_simps)
  show "v = w"
  proof (rule bit_word_eqI)
    fix n assume "n < LENGTH(32)"
    then consider "n < 8" | "8 \<le> n" "n < 16" | "16 \<le> n" "n < 24" | "24 \<le> n" "n < 32" by force
    then show "bit v n = bit w n"
    proof cases
      case 1 then show ?thesis using eq byte [of 0 n] by (simp add: uint32_bytes_def)
    next
      case 2 then show ?thesis using eq byte [of 8 "n - 8"] by (simp add: uint32_bytes_def)
    next
      case 3 then show ?thesis using eq byte [of 16 "n - 16"] by (simp add: uint32_bytes_def)
    next
      case 4 then show ?thesis using eq byte [of 24 "n - 24"] by (simp add: uint32_bytes_def)
    qed
  qed
qed simp

lemma nonce_at_inject:
  assumes "length base = 12" "i < 2048" "j < 2048"
  shows "nonce_at base i = nonce_at base j \<longleftrightarrow> i = j"
proof
  assume "nonce_at base i = nonce_at base j"
  then have "uint32_bytes (word_of_nat i) = uint32_bytes (word_of_nat j)"
    using assms(1) by (simp add: nonce_at_def set_bytes_def)
  then have "unat (word_of_nat i :: 32 word) = unat (word_of_nat j :: 32 word)" by (simp add: uint32_bytes_inject)
  then show "i = j" using assms(2,3) by (simp add: unat_of_nat take_bit_nat_eq_self)
qed simp

lemma separator_split: "c \<notin> set a \<Longrightarrow> c \<notin> set b \<Longrightarrow> a @ c # x = b @ c # y \<longleftrightarrow> a = b \<and> x = y"
proof (induction a arbitrary: b)
  case (Cons h a)
  then show ?case by (cases b) auto
qed (auto simp: Cons_eq_append_conv)

lemma text_bytes_inject: "text_bytes s = text_bytes t \<longleftrightarrow> s = t"
proof -
  have "inj (\<lambda>c. word_of_nat (of_char c) :: 8 word)"
  proof (rule injI)
    fix c d :: char assume "(word_of_nat (of_char c) :: 8 word) = word_of_nat (of_char d)"
    then have "unat (word_of_nat (of_char c) :: 8 word) = unat (word_of_nat (of_char d) :: 8 word)" by simp
    then show "c = d"
      using nat_of_char_less_256 [of c] nat_of_char_less_256 [of d] by (simp add: unat_of_nat take_bit_nat_eq_self)
  qed
  then show ?thesis by (simp add: text_bytes_def inj_map_eq_map)
qed

lemma digit_no_colon: "d < 10 \<Longrightarrow> decimal_digit d \<noteq> CHR '':''"
  by (auto simp: decimal_digit_def dest: arg_cong [where f = "of_char :: char \<Rightarrow> nat"])

lemma decimal_no_colon: "CHR '':'' \<notin> set (decimal n)"
proof (induction n rule: decimal.induct)
  case (1 n)
  then show ?case using digit_no_colon [of n] digit_no_colon [of "n mod 10"] by (subst decimal.simps) auto
qed

lemma number_text_nat [simp]: "number_text fraction (Num (of_nat n)) = decimal n"
  by (simp add: number_text_def quotient_of_nat int_text_def)

lemma nonce_at_shape: "length base = 12 \<Longrightarrow> length (nonce_at base i) = 12 \<and> take 8 (nonce_at base i) = take 8 base"
  by (simp add: nonce_at_def set_bytes_def)

text \<open>
  C39.  Chunks cannot change places.  Under one base vector, the chunks of a file have pairwise different
  initialisation vectors, and the additional data authenticated with a chunk determines the number of
  the chunk, the size of the file and the size of its chunks.
\<close>

theorem chunk_place_authenticated:
  assumes "length base = 12" "i < 2048" "j < 2048"
  shows "(nonceForChunk base i = nonceForChunk base j \<longleftrightarrow> i = j)
    \<and> (\<exists>nonce. nonceForChunk base i = Inr nonce \<and> length nonce = 12 \<and> take 8 nonce = take 8 base)
    \<and> (aadForChunk fraction i (Num (of_nat size1)) (Num (of_nat chunk1)) = aadForChunk fraction j (Num (of_nat size2)) (Num (of_nat chunk2))
       \<longleftrightarrow> i = j \<and> size1 = size2 \<and> chunk1 = chunk2)"
  using assms
  by (auto simp: nonceForChunk_ok nonce_at_inject nonce_at_shape aadForChunk_def text_bytes_inject separator_split
      decimal_no_colon decimal_inject)

theorem chunk_place_authenticated_witness:
  "nonceForChunk (replicate 12 9) 3 \<noteq> nonceForChunk (replicate 12 9) 259
   \<and> aadForChunk (\<lambda>_. []) 3 (Num (of_nat 11)) (Num (of_nat 5)) \<noteq> aadForChunk (\<lambda>_. []) 31 (Num (of_nat 1)) (Num (of_nat 5))"
  using chunk_place_authenticated [of "replicate 12 9" 3 259 "\<lambda>_. []" 11 5 1 5]
    chunk_place_authenticated [of "replicate 12 9" 3 31 "\<lambda>_. []" 11 5 1 5]
  by simp

text \<open>
  C40.  A chunked file described by the flat fields of its attachment is not decrypted.  Although the flat
  fields include those of chunking, the descriptor built from them always has version 1, which the check of
  descriptors refuses together with the chunked suite: no descriptor is found, and decryption hands the
  ciphertext out as if it were the file.
\<close>

theorem flat_chunked_descriptor_lost:
  assumes "either (ma_mediaEncryption a) = None"
    and "either (ma_encryptionSuite a) = Some CLIENT_MEDIA_CHUNKED_ENCRYPTION_SUITE"
  shows "clientMediaEncryptionDescriptorFromAttachment to_number a override = None
    \<and> decryptClientMediaBlob decrypt fraction ciphertext (clientMediaEncryptionDescriptorFromAttachment to_number a override)
        = Inr ciphertext"
proof -
  have "embedded_descriptor to_number k a = None" for k
    using assms(1) by (simp add: embedded_descriptor_def normalizeDescriptor_def)
  moreover have "\<not> isClientMediaEncryptionDescriptor (the (normalizeDescriptor to_number (Some (flat_descriptor k a))))" for k
    using assms(2)
    by (simp add: isClientMediaEncryptionDescriptor_def normalizeDescriptor_def flat_descriptor_def
        CLIENT_MEDIA_ENCRYPTION_VERSION_def CLIENT_MEDIA_CHUNKED_ENCRYPTION_VERSION_def
        CLIENT_MEDIA_ENCRYPTION_SUITE_def CLIENT_MEDIA_CHUNKED_ENCRYPTION_SUITE_def)
  then have "clientMediaEncryptionDescriptorFromAttachment to_number a override = None"
    using calculation by (simp add: clientMediaEncryptionDescriptorFromAttachment_def Let_def normalizeDescriptor_def)
  then show ?thesis by (simp add: decryptClientMediaBlob_def)
qed

definition flat_attachment :: media_attachment where
  "flat_attachment =
     \<lparr>ma_mediaEncryption = (None, None), ma_encryptionSuite = (Some ''AES-256-GCM-CHUNKED'', None),
      ma_encryptionKeyB64 = (Some ''a2V5'', None), ma_encryptionNonceB64 = (Some ''bm9uY2U='', None),
      ma_plaintextSha256B64 = (Some ''cA=='', None), ma_ciphertextSha256B64 = (Some ''Yw=='', None),
      ma_plaintextSize = (Some (NumberValue (Num 3)), None), ma_ciphertextSize = (Some (NumberValue (Num 19)), None),
      ma_chunking = Some ''fixed-v1'', ma_chunkSize = (Some (NumberValue (Num 4)), None),
      ma_chunkCount = (Some (NumberValue (Num 1)), None), ma_chunkCiphertextSha256B64 = (None, None),
      ma_tagSize = (Some (NumberValue (Num 16)), None), ma_nonceStrategy = (Some ''prefix-counter32-be'', None)\<rparr>"

theorem flat_chunked_descriptor_lost_witness:
  "decryptClientMediaBlob (\<lambda>k n a c. None) (\<lambda>_. []) [5, 6] (clientMediaEncryptionDescriptorFromAttachment (\<lambda>_. NaN) flat_attachment None)
     = Inr [5, 6]"
proof -
  have "either (ma_mediaEncryption flat_attachment) = None"
    and "either (ma_encryptionSuite flat_attachment) = Some CLIENT_MEDIA_CHUNKED_ENCRYPTION_SUITE"
    by (simp_all add: flat_attachment_def either_def CLIENT_MEDIA_CHUNKED_ENCRYPTION_SUITE_def)
  from flat_chunked_descriptor_lost [OF this] show ?thesis by blast
qed

end
