(* ===== verification/Spec2Isabelle.thy ===== *)
theory Spec2Isabelle
  imports Applet_Concurrency Mobile_Launch Link_Rust Chat_CallId Chat_Outbox Chat_Notices Chat_Surface Agent_Cache
    Messaging_Runtime Delivery_Verdict Media_Security
begin

text \<open>
  A verification development for the clients of peers-touch.
\<close>

end
